(* ===== verification/GoPrelude.thy ===== *)
theory GoPrelude
  imports Main "HOL-Library.Char_ord" "HOL-Library.List_Lexorder" "HOL-Library.AList"
    "HOL-Library.Multiset" "HOL-Library.Word"
begin

text \<open>
  The vocabulary every component of the development shares: Go byte strings, the three ways
  a Go call ends (a value, an error, a panic), the parts of the standard library the sources
  use (decimal conversion of \<^verbatim>\<open>strconv\<close>, the string functions of \<^verbatim>\<open>strings\<close>), and the
  insertion sort that several packages write out by hand.

  A Go \<^verbatim>\<open>string\<close> or \<^verbatim>\<open>[]byte\<close> is a list of characters; an Isabelle character is one byte, so
  lengths and indices agree. White space and UTF-8 are those of Go; of the case mappings the part that decides
  comparisons with ASCII words.
\<close>

type_synonym bytes = string

text \<open>How a Go call ends.\<close>

datatype ('e, 'a) res = Ok 'a | Err 'e | Panic

text \<open>\<^verbatim>\<open>x, err := f(); if err != nil { return err }\<close>: the error and the panic pass through.\<close>

fun bind_res :: "('e, 'a) res \<Rightarrow> ('a \<Rightarrow> ('e, 'b) res) \<Rightarrow> ('e, 'b) res" where
  "bind_res (Ok x) f = f x"
| "bind_res (Err e) f = Err e"
| "bind_res Panic f = Panic"

fun or_err :: "'e \<Rightarrow> 'a option \<Rightarrow> ('e, 'a) res" where
  "or_err e None = Err e"
| "or_err e (Some x) = Ok x"

lemma bind_res_Ok [simp]: "bind_res m f = Ok y \<longleftrightarrow> (\<exists>x. m = Ok x \<and> f x = Ok y)"
  by (cases m) auto

lemma or_err_Ok [simp]: "or_err e m = Ok x \<longleftrightarrow> m = Some x"
  by (cases m) auto

named_theorems codec_simps \<open>round-trip equations of the byte codecs\<close>
named_theorems go_defs \<open>definitions of small wrappers, unfolded by the component proofs\<close>

subsection \<open>Bytes\<close>

definition byte :: "nat \<Rightarrow> char" where
  "byte n = char_of n"

definition ord :: "char \<Rightarrow> nat" where
  "ord c = of_char c"

lemma ord_byte [simp]: "ord (byte n) = n mod 256"
  by (simp add: ord_def byte_def)

lemma byte_ord [simp]: "byte (ord c) = c"
  by (simp add: ord_def byte_def)

lemma ord_less [simp]: "ord c < 256"
  by (simp add: ord_def)

lemma ord_inj [simp]: "ord c = ord d \<longleftrightarrow> c = d"
  by (metis byte_ord)

lemma byte_eq_iff: "byte m = byte n \<longleftrightarrow> m mod 256 = n mod 256"
  by (metis ord_byte ord_inj)

lemma byte_char_iff: "byte n = c \<longleftrightarrow> n mod 256 = ord c"
  by (metis ord_byte ord_inj)

subsection \<open>Two's-complement wrap-around of Go's \<^verbatim>\<open>int64\<close>\<close>

definition wrap64 :: "int \<Rightarrow> int" where
  "wrap64 i = (i + 2 ^ 63) mod 2 ^ 64 - 2 ^ 63"

definition int64_range :: "int \<Rightarrow> bool" where
  "int64_range i \<longleftrightarrow> - (2 ^ 63) \<le> i \<and> i < 2 ^ 63"

lemma wrap64_range [simp]: "int64_range (wrap64 i)"
  unfolding int64_range_def wrap64_def
  using pos_mod_bound [of "2 ^ 64 :: int" "i + 2 ^ 63"] pos_mod_sign [of "2 ^ 64 :: int" "i + 2 ^ 63"]
  by simp

lemma wrap64_id: "int64_range i \<Longrightarrow> wrap64 i = i"
  unfolding int64_range_def wrap64_def by simp

subsection \<open>Decimal conversion (\<^verbatim>\<open>strconv\<close>)\<close>

definition digit_char :: "nat \<Rightarrow> char" where
  "digit_char d = byte (48 + d)"

definition is_digit :: "char \<Rightarrow> bool" where
  "is_digit c \<longleftrightarrow> 48 \<le> ord c \<and> ord c \<le> 57"

definition digit_val :: "char \<Rightarrow> nat" where
  "digit_val c = ord c - 48"

fun FormatUint :: "nat \<Rightarrow> string" where
  "FormatUint n =
     (if n < 10 then [digit_char n] else FormatUint (n div 10) @ [digit_char (n mod 10)])"

declare FormatUint.simps [simp del]

definition FormatInt :: "int \<Rightarrow> string" where
  "FormatInt i = (if i < 0 then CHR ''-'' # FormatUint (nat (- i)) else FormatUint (nat i))"

definition digits_val :: "string \<Rightarrow> nat" where
  "digits_val s = foldl (\<lambda>a c. 10 * a + digit_val c) 0 s"

text \<open>\<^verbatim>\<open>strconv.ParseUint(s, 10, 64)\<close>: at least one digit, digits only, below \<open>2 ^ 64\<close>.\<close>

definition ParseUint :: "string \<Rightarrow> nat option" where
  "ParseUint s =
     (if s = [] \<or> \<not> list_all is_digit s then None
      else let n = digits_val s in if n < 2 ^ 64 then Some n else None)"

text \<open>\<^verbatim>\<open>strconv.ParseInt(s, 10, 64)\<close> and \<^verbatim>\<open>strconv.Atoi\<close>: an optional sign, then
  \<^const>\<open>ParseUint\<close>, then the signed range check.\<close>

definition ParseInt :: "string \<Rightarrow> int option" where
  "ParseInt s =
     (case s of [] \<Rightarrow> None
      | c # t \<Rightarrow>
          (let neg = (c = CHR ''-''); body = (if c = CHR ''-'' \<or> c = CHR ''+'' then t else s)
           in case ParseUint body of None \<Rightarrow> None
              | Some n \<Rightarrow>
                  if \<not> neg \<and> n \<ge> 2 ^ 63 then None
                  else if neg \<and> n > 2 ^ 63 then None
                  else Some (if neg then - int n else int n)))"

lemmas parse_simps = ParseInt_def ParseUint_def digits_val_def digit_val_def is_digit_def ord_def

lemma digit_char_props [simp]:
  assumes "d < 10"
  shows "is_digit (digit_char d)" and "digit_val (digit_char d) = d"
  using assms by (simp_all add: is_digit_def digit_char_def digit_val_def)

lemma digits_val_snoc: "digits_val (s @ [c]) = 10 * digits_val s + digit_val c"
  by (simp add: digits_val_def)

lemma FormatUint_length: "n < 10 ^ k \<Longrightarrow> 0 < k \<Longrightarrow> length (FormatUint n) \<le> k"
proof (induction n arbitrary: k rule: FormatUint.induct)
  case (1 n)
  show ?case
  proof (cases "n < 10")
    case True
    with "1.prems" show ?thesis by (simp add: FormatUint.simps [of n])
  next
    case False
    obtain j where k: "k = Suc j" using "1.prems"(2) by (cases k) auto
    have j: "0 < j" using False "1.prems"(1) k by (cases j) auto
    have "n div 10 < 10 ^ j" using "1.prems"(1) k by (simp add: less_mult_imp_div_less)
    with "1.IH" [OF False] j have "length (FormatUint (n div 10)) \<le> j" by blast
    with False k show ?thesis by (simp add: FormatUint.simps [of n])
  qed
qed

lemma FormatUint_digits: "list_all is_digit (FormatUint n) \<and> FormatUint n \<noteq> []"
proof (induction n rule: FormatUint.induct)
  case (1 n)
  then show ?case
    by (cases "n < 10") (auto simp: FormatUint.simps [of n])
qed

lemma FormatUint_val: "digits_val (FormatUint n) = n"
proof (induction n rule: FormatUint.induct)
  case (1 n)
  show ?case
  proof (cases "n < 10")
    case True
    then show ?thesis by (simp add: FormatUint.simps [of n] digits_val_def)
  next
    case False
    with "1" show ?thesis by (simp add: FormatUint.simps [of n] digits_val_snoc)
  qed
qed

lemma ParseUint_FormatUint [simp]: "n < 2 ^ 64 \<Longrightarrow> ParseUint (FormatUint n) = Some n"
  using FormatUint_digits [of n] by (simp add: ParseUint_def FormatUint_val)

lemma is_digit_not_sign: "is_digit c \<Longrightarrow> c \<noteq> CHR ''-'' \<and> c \<noteq> CHR ''+''"
  by (auto simp: is_digit_def ord_def)

lemma FormatUint_Cons: "\<exists>c t. FormatUint n = c # t \<and> is_digit c"
  using FormatUint_digits [of n] by (cases "FormatUint n") auto

lemma ParseInt_FormatInt [simp]:
  assumes "int64_range i"
  shows "ParseInt (FormatInt i) = Some i"
proof (cases "i < 0")
  case True
  with assms have n: "nat (- i) \<le> 2 ^ 63" by (simp add: int64_range_def nat_le_iff)
  then have "ParseUint (FormatUint (nat (- i))) = Some (nat (- i))" by simp
  with True n show ?thesis by (simp add: ParseInt_def FormatInt_def)
next
  case False
  with assms have n: "nat i < 2 ^ 63" by (simp add: int64_range_def nat_less_iff)
  then have p: "ParseUint (FormatUint (nat i)) = Some (nat i)" by simp
  obtain c t where ct: "FormatUint (nat i) = c # t" "is_digit c"
    using FormatUint_Cons by blast
  with False n p show ?thesis
    using is_digit_not_sign [OF ct(2)] by (auto simp: ParseInt_def FormatInt_def)
qed

lemma ParseInt_range: "ParseInt s = Some i \<Longrightarrow> int64_range i"
  by (auto simp: ParseInt_def int64_range_def Let_def split: list.splits option.splits if_splits)

subsection \<open>Strings (\<^verbatim>\<open>strings\<close>)\<close>

definition upper_char :: "char \<Rightarrow> char" where
  "upper_char c = (if 97 \<le> ord c \<and> ord c \<le> 122 then byte (ord c - 32) else c)"

definition lower_char :: "char \<Rightarrow> char" where
  "lower_char c = (if 65 \<le> ord c \<and> ord c \<le> 90 then byte (ord c + 32) else c)"

definition lower_ascii :: "string \<Rightarrow> string" where
  "lower_ascii s = map lower_char s"

text \<open>
  \<^verbatim>\<open>strings.ToUpper\<close>, \<^verbatim>\<open>ToLower\<close> and \<^verbatim>\<open>EqualFold\<close>, whose results the sources compare with ASCII words. A letter
  beyond ASCII maps to a letter beyond ASCII, with the exceptions below, written as the bytes of their UTF-8
  encoding; the other bytes stay as they are, so that the comparisons come out as in Go. The upper case of U+0131
  is \<^verbatim>\<open>I\<close> and that of U+017F is \<^verbatim>\<open>S\<close>; the lower case of U+0130 is \<^verbatim>\<open>i\<close> and that of the Kelvin sign U+212A is \<^verbatim>\<open>k\<close>;
  folding identifies U+017F with \<^verbatim>\<open>s\<close> and the Kelvin sign with \<^verbatim>\<open>k\<close>.
\<close>

fun ToUpper :: "string \<Rightarrow> string" where
  "ToUpper [] = []"
| "ToUpper [a] = [upper_char a]"
| "ToUpper (a # b # s) =
     (if ord a = 0xC4 \<and> ord b = 0xB1 then CHR ''I'' # ToUpper s
      else if ord a = 0xC5 \<and> ord b = 0xBF then CHR ''S'' # ToUpper s
      else upper_char a # ToUpper (b # s))"

fun ToLower :: "string \<Rightarrow> string" where
  "ToLower [] = []"
| "ToLower [a] = [lower_char a]"
| "ToLower (a # b # s) =
     (if ord a = 0xC4 \<and> ord b = 0xB0 then CHR ''i'' # ToLower s
      else if ord a = 0xE2 \<and> ord b = 0x84 \<and> s \<noteq> [] \<and> ord (hd s) = 0xAA then CHR ''k'' # ToLower (tl s)
      else lower_char a # ToLower (b # s))"

fun fold_case :: "string \<Rightarrow> string" where
  "fold_case [] = []"
| "fold_case [a] = [upper_char a]"
| "fold_case (a # b # s) =
     (if ord a = 0xC5 \<and> ord b = 0xBF then CHR ''S'' # fold_case s
      else if ord a = 0xE2 \<and> ord b = 0x84 \<and> s \<noteq> [] \<and> ord (hd s) = 0xAA then CHR ''K'' # fold_case (tl s)
      else upper_char a # fold_case (b # s))"

declare ToUpper.simps [simp del] ToLower.simps [simp del] fold_case.simps [simp del]

definition EqualFold :: "string \<Rightarrow> string \<Rightarrow> bool" where
  "EqualFold s t \<longleftrightarrow> fold_case s = fold_case t"

definition HasPrefix :: "string \<Rightarrow> string \<Rightarrow> bool" where
  "HasPrefix s p \<longleftrightarrow> take (length p) s = p"

definition HasSuffix :: "string \<Rightarrow> string \<Rightarrow> bool" where
  "HasSuffix s p \<longleftrightarrow> length p \<le> length s \<and> drop (length s - length p) s = p"

definition TrimPrefix :: "string \<Rightarrow> string \<Rightarrow> string" where
  "TrimPrefix s p = (if HasPrefix s p then drop (length p) s else s)"

lemma HasPrefix_append [simp]: "HasPrefix (p @ s) p"
  by (simp add: HasPrefix_def)

lemma HasPrefix_iff: "HasPrefix s p \<longleftrightarrow> (\<exists>t. s = p @ t)"
  by (metis HasPrefix_append HasPrefix_def append_take_drop_id)

lemma TrimPrefix_append [simp]: "TrimPrefix (p @ s) p = s"
  by (simp add: TrimPrefix_def)

text \<open>\<^verbatim>\<open>strings.Split\<close> on a one-byte separator.\<close>

fun split_by :: "(char \<Rightarrow> bool) \<Rightarrow> string \<Rightarrow> string list" where
  "split_by f [] = [[]]"
| "split_by f (x # xs) =
     (if f x then [] # split_by f xs
      else case split_by f xs of [] \<Rightarrow> [[x]] | y # ys \<Rightarrow> (x # y) # ys)"

definition Split :: "string \<Rightarrow> char \<Rightarrow> string list" where
  "Split s c = split_by (\<lambda>x. x = c) s"

text \<open>
  \<^verbatim>\<open>utf8.DecodeRuneInString\<close>: the first code point and its width in bytes. A malformed sequence is U+FFFD of width 1. The
  following bytes must lie in the ranges that the leading byte allows.
\<close>

fun conts :: "(nat \<times> nat) list \<Rightarrow> string \<Rightarrow> bool" where
  "conts [] t = True"
| "conts (_ # _) [] = False"
| "conts ((lo, hi) # rs) (b # t) = (lo \<le> ord b \<and> ord b \<le> hi \<and> conts rs t)"

definition tail_bits :: "char \<Rightarrow> nat" where
  "tail_bits b = ord b - 0x80"

definition DecodeRune :: "string \<Rightarrow> nat \<times> nat" where
  "DecodeRune s =
     (case s of
        [] \<Rightarrow> (0xFFFD, 0)
      | a # t \<Rightarrow>
          let x = ord a; any = (0x80, 0xBF) in
          if x < 0x80 then (x, 1)
          else if 0xC2 \<le> x \<and> x \<le> 0xDF \<and> conts [any] t then ((x - 0xC0) * 64 + tail_bits (t ! 0), 2)
          else if 0xE0 \<le> x \<and> x \<le> 0xEF
            \<and> conts [(if x = 0xE0 then 0xA0 else 0x80, if x = 0xED then 0x9F else 0xBF), any] t
          then ((x - 0xE0) * 4096 + tail_bits (t ! 0) * 64 + tail_bits (t ! 1), 3)
          else if 0xF0 \<le> x \<and> x \<le> 0xF4
            \<and> conts [(if x = 0xF0 then 0x90 else 0x80, if x = 0xF4 then 0x8F else 0xBF), any, any] t
          then ((x - 0xF0) * 262144 + tail_bits (t ! 0) * 4096 + tail_bits (t ! 1) * 64 + tail_bits (t ! 2), 4)
          else (0xFFFD, 1))"

text \<open>\<^verbatim>\<open>utf8.DecodeLastRuneInString\<close>: the last code point, looked for from the last byte that can start one.\<close>

definition RuneStart :: "char \<Rightarrow> bool" where
  "RuneStart b \<longleftrightarrow> \<not> (0x80 \<le> ord b \<and> ord b \<le> 0xBF)"

definition DecodeLastRune :: "string \<Rightarrow> nat \<times> nat" where
  "DecodeLastRune s =
     (if s = [] then (0xFFFD, 0)
      else if ord (last s) < 0x80 then (ord (last s), 1)
      else case find (\<lambda>k. k \<le> length s \<and> RuneStart (s ! (length s - k))) [2, 3, 4] of
        None \<Rightarrow> (0xFFFD, 1)
      | Some k \<Rightarrow> (case DecodeRune (drop (length s - k) s) of (r, n) \<Rightarrow> if n = k then (r, n) else (0xFFFD, 1)))"

text \<open>\<^verbatim>\<open>unicode.IsSpace\<close>, and the white space among the bytes below 128.\<close>

definition IsSpace :: "nat \<Rightarrow> bool" where
  "IsSpace r \<longleftrightarrow> r = 32 \<or> (9 \<le> r \<and> r \<le> 13) \<or> r = 0x85 \<or> r = 0xA0 \<or> r = 0x1680 \<or> (0x2000 \<le> r \<and> r \<le> 0x200A)
     \<or> r = 0x2028 \<or> r = 0x2029 \<or> r = 0x202F \<or> r = 0x205F \<or> r = 0x3000"

definition is_space :: "char \<Rightarrow> bool" where
  "is_space c \<longleftrightarrow> ord c = 32 \<or> (9 \<le> ord c \<and> ord c \<le> 13)"

text \<open>The code points of a string; \<^verbatim>\<open>strings.Fields\<close>, the maximal runs without white space; and \<^verbatim>\<open>strings.TrimSpace\<close>. The
  width of a code point is at least 1.\<close>

function runes :: "string \<Rightarrow> nat list" where
  "runes [] = []"
| "runes (c # s) = fst (DecodeRune (c # s)) # runes (drop (snd (DecodeRune (c # s)) - 1) s)"
  by pat_completeness auto
termination by (relation "measure length") auto

function fields_from :: "string \<Rightarrow> string \<Rightarrow> string list" where
  "fields_from w [] = (if w = [] then [] else [w])"
| "fields_from w (c # s) =
     (case DecodeRune (c # s) of (r, n) \<Rightarrow>
        if IsSpace r then (if w = [] then [] else [w]) @ fields_from [] (drop (n - 1) s)
        else fields_from (w @ c # take (n - 1) s) (drop (n - 1) s))"
  by pat_completeness auto
termination by (relation "measure (\<lambda>(w, s). length s)") auto

definition Fields :: "string \<Rightarrow> string list" where
  "Fields s = fields_from [] s"

function trim_left :: "string \<Rightarrow> string" where
  "trim_left [] = []"
| "trim_left (c # s) =
     (case DecodeRune (c # s) of (r, n) \<Rightarrow> if IsSpace r then trim_left (drop (n - 1) s) else c # s)"
  by pat_completeness auto
termination by (relation "measure length") auto

function trim_right :: "string \<Rightarrow> string" where
  "trim_right s =
     (case DecodeLastRune s of (r, n) \<Rightarrow>
        if s \<noteq> [] \<and> 0 < n \<and> IsSpace r then trim_right (take (length s - n) s) else s)"
  by pat_completeness auto
termination by (relation "measure length") auto

definition TrimSpace :: "string \<Rightarrow> string" where
  "TrimSpace s = trim_right (trim_left s)"

fun Join :: "string list \<Rightarrow> string \<Rightarrow> string" where
  "Join [] sep = []"
| "Join [x] sep = x"
| "Join (x # y # ys) sep = x @ sep @ Join (y # ys) sep"

text \<open>\<^verbatim>\<open>strings.Cut\<close> on a one-byte separator: \<^const>\<open>None\<close> when it does not occur.\<close>

fun Cut :: "string \<Rightarrow> char \<Rightarrow> (string \<times> string) option" where
  "Cut [] c = None"
| "Cut (x # xs) c =
     (if x = c then Some ([], xs) else map_option (\<lambda>(a, b). (x # a, b)) (Cut xs c))"

text \<open>Index of the first occurrence of a byte, \<open>-1\<close> when there is none.\<close>

fun IndexByte :: "string \<Rightarrow> char \<Rightarrow> int" where
  "IndexByte [] c = -1"
| "IndexByte (x # xs) c = (if x = c then 0 else let i = IndexByte xs c in if i < 0 then -1 else i + 1)"

lemma split_by_nonempty [simp]: "split_by f s \<noteq> []"
  by (induction s) (auto split: list.splits)

lemma split_by_clean: "list_all (\<lambda>x. \<not> f x) w \<Longrightarrow> split_by f w = [w]"
  by (induction w) auto

lemma split_by_append:
  assumes "list_all (\<lambda>x. \<not> f x) w" and "f c"
  shows "split_by f (w @ c # s) = w # split_by f s"
  using assms(1) by (induction w) (simp_all add: assms(2))

lemma split_by_Join:
  assumes "f c" and "ws \<noteq> []" and "list_all (list_all (\<lambda>x. \<not> f x)) ws"
  shows "split_by f (Join ws [c]) = ws"
  using assms(2,3)
proof (induction ws "[c]" rule: Join.induct)
  case (3 x y ys)
  then show ?case
    using split_by_append [of f x c "Join (y # ys) [c]"] assms(1) by simp
qed (auto simp: split_by_clean)

lemma Split_Join:
  assumes "ws \<noteq> []" and "list_all (\<lambda>w. c \<notin> set w) ws"
  shows "Split (Join ws [c]) c = ws"
proof -
  have "list_all (list_all (\<lambda>x. x \<noteq> c)) ws"
    using assms(2) by (auto simp: list_all_iff)
  then show ?thesis
    using split_by_Join [of "\<lambda>x. x = c" c ws] assms(1) by (simp add: Split_def)
qed

text \<open>A token that \<^const>\<open>Fields\<close> keeps whole: not empty, no white space among its code points.\<close>

definition is_token :: "string \<Rightarrow> bool" where
  "is_token w \<longleftrightarrow> w \<noteq> [] \<and> list_all (\<lambda>r. \<not> IsSpace r) (runes w)"

lemma is_space_blank [simp]: "is_space (CHR '' '')"
  by (simp add: is_space_def ord_def)

lemma IsSpace_ord: "ord c < 128 \<Longrightarrow> IsSpace (ord c) \<longleftrightarrow> is_space c"
  by (auto simp: IsSpace_def is_space_def)

lemma is_space_ascii: "is_space c \<Longrightarrow> ord c < 128"
  by (auto simp: is_space_def)

lemma DecodeRune_ascii [simp]: "ord c < 128 \<Longrightarrow> DecodeRune (c # s) = (ord c, 1)"
  by (simp add: DecodeRune_def)

lemma conts_high:
  "conts rs t \<Longrightarrow> list_all (\<lambda>r. 0x80 \<le> fst r) rs \<Longrightarrow>
     length rs \<le> length t \<and> list_all (\<lambda>b. 0x80 \<le> ord b) (take (length rs) t)"
  by (induction rs t rule: conts.induct) auto

lemma conts_append:
  "ord c < 0x80 \<Longrightarrow> list_all (\<lambda>r. 0x80 \<le> fst r) rs \<Longrightarrow> conts rs (t @ c # s) \<longleftrightarrow> conts rs t"
  by (induction rs t rule: conts.induct) (auto elim: conts.elims)

text \<open>A code point takes bytes above 127 after its first, all of them present; a byte below 128 behind a string does
  not change how the string is decoded.\<close>

lemma DecodeRune_width:
  "snd (DecodeRune (a # t)) - 1 \<le> length t \<and> list_all (\<lambda>b. 0x80 \<le> ord b) (take (snd (DecodeRune (a # t)) - 1) t)"
  by (auto simp: DecodeRune_def Let_def numeral_2_eq_2 numeral_3_eq_3 dest!: conts_high split: if_splits)

lemma DecodeRune_append:
  assumes "ord c < 0x80"
  shows "DecodeRune ((a # t) @ c # s) = DecodeRune (a # t)"
proof -
  have nth: "(t @ c # s) ! i = t ! i" if "Suc i \<le> length t" for i using that by (simp add: nth_append)
  show ?thesis
    by (auto simp: DecodeRune_def Let_def conts_append [OF assms] numeral_2_eq_2 nth dest!: conts_high)
qed

lemma runes_ascii:
  "c \<in> set w \<Longrightarrow> ord c < 128 \<Longrightarrow> ord c \<in> set (runes w)"
proof (induction w rule: runes.induct)
  case (2 a t)
  let ?n = "snd (DecodeRune (a # t)) - 1"
  have "c \<notin> set (take ?n t)" using DecodeRune_width [of a t] 2(3) by (auto simp: list_all_iff)
  with 2(2) consider "c = a" | "c \<in> set (drop ?n t)" by (metis Un_iff append_take_drop_id set_ConsD set_append)
  then show ?case by cases (use 2 in auto)
qed simp

lemma token_char: "is_token w \<Longrightarrow> c \<in> set w \<Longrightarrow> \<not> is_space c"
  using runes_ascii [of c w] IsSpace_ord [of c] is_space_ascii [of c] by (auto simp: is_token_def list_all_iff)

lemma runes_map_ord: "list_all (\<lambda>c. ord c < 128) w \<Longrightarrow> runes w = map ord w"
  by (induction w) simp_all

lemma is_token_ascii: "w \<noteq> [] \<Longrightarrow> list_all (\<lambda>c. ord c < 128 \<and> \<not> is_space c) w \<Longrightarrow> is_token w"
  using runes_map_ord [of w] by (auto simp: is_token_def list_all_iff IsSpace_ord)

lemma fields_from_word:
  assumes "list_all (\<lambda>r. \<not> IsSpace r) (runes w)" "u @ w \<noteq> []"
  shows "fields_from u w = [u @ w]"
    and "fields_from u (w @ CHR '' '' # s) = (u @ w) # fields_from [] s"
proof -
  have b: "ord (CHR '' '') = 32" "IsSpace 32" by (simp_all add: ord_def IsSpace_def)
  have "fields_from u w = [u @ w] \<and> fields_from u (w @ CHR '' '' # s) = (u @ w) # fields_from [] s"
    using assms
  proof (induction w arbitrary: u rule: runes.induct)
    case 1
    then show ?case by (simp add: b)
  next
    case (2 a t)
    let ?n = "snd (DecodeRune (a # t)) - 1"
    have le: "?n \<le> length t" using DecodeRune_width [of a t] by blast
    have A: "DecodeRune (a # t @ CHR '' '' # s) = DecodeRune (a # t)" using DecodeRune_append [of "CHR '' ''" a t s] b(1) by simp
    have "\<not> IsSpace (fst (DecodeRune (a # t)))" using 2(2) by simp
    moreover have "fields_from (u @ a # take ?n t) (drop ?n t) = [(u @ a # take ?n t) @ drop ?n t] \<and>
        fields_from (u @ a # take ?n t) (drop ?n t @ CHR '' '' # s) = ((u @ a # take ?n t) @ drop ?n t) # fields_from [] s"
      using 2(1) [of "u @ a # take ?n t"] 2(2) by simp
    ultimately show ?case using le by (simp add: A case_prod_beta)
  qed
  then show "fields_from u w = [u @ w]" "fields_from u (w @ CHR '' '' # s) = (u @ w) # fields_from [] s" by blast+
qed

lemma Fields_Join:
  assumes "list_all is_token ws"
  shows "Fields (Join ws '' '') = ws"
  using assms
proof (induction ws "'' ''" rule: Join.induct)
  case (2 x)
  then show ?case using fields_from_word(1) [of x "[]"] by (simp add: Fields_def is_token_def)
next
  case (3 x y ys)
  then show ?case using fields_from_word(2) [of x "[]" "Join (y # ys) '' ''"] by (simp add: Fields_def is_token_def)
qed (simp add: Fields_def)

lemma Cut_append: "c \<notin> set a \<Longrightarrow> Cut (a @ c # b) c = Some (a, b)"
  by (induction a) auto

lemma Cut_None: "c \<notin> set s \<Longrightarrow> Cut s c = None"
  by (induction s) auto

lemma FormatUint_chars: "c \<in> set (FormatUint n) \<Longrightarrow> is_digit c"
  using FormatUint_digits [of n] by (simp add: list_all_iff)

lemma is_digit_not_space: "is_digit c \<Longrightarrow> \<not> is_space c"
  by (auto simp: is_digit_def is_space_def)

lemma is_digit_ascii: "is_digit c \<Longrightarrow> ord c < 128"
  by (auto simp: is_digit_def)

lemma FormatUint_token [simp]: "is_token (FormatUint n)"
  using FormatUint_digits [of n] is_digit_not_space is_digit_ascii by (intro is_token_ascii) (auto simp: list_all_iff)

subsection \<open>The hand-written insertion sort\<close>

text \<open>
  \<^verbatim>\<open>for i := 1; i < len(s); i++ { for j := i; j > 0 && s[j] < s[j-1]; j-- { swap } }\<close>:
  the sorted prefix is kept reversed, so that \<open>sift_left\<close> walks it from its right end, as the
  inner loop does.
\<close>

fun sift_left :: "('a \<Rightarrow> 'a \<Rightarrow> bool) \<Rightarrow> 'a \<Rightarrow> 'a list \<Rightarrow> 'a list" where
  "sift_left lt x [] = [x]"
| "sift_left lt x (y # ys) = (if lt x y then y # sift_left lt x ys else x # y # ys)"

definition insertion_sort :: "('a \<Rightarrow> 'a \<Rightarrow> bool) \<Rightarrow> 'a list \<Rightarrow> 'a list" where
  "insertion_sort lt xs = rev (fold (sift_left lt) xs [])"

lemma mset_sift_left [simp]: "mset (sift_left lt x ys) = add_mset x (mset ys)"
  by (induction ys) auto

lemma mset_fold_sift: "mset (fold (sift_left lt) xs ys) = mset xs + mset ys"
  by (induction xs arbitrary: ys) auto

lemma mset_insertion_sort [simp]: "mset (insertion_sort lt xs) = mset xs"
  by (simp add: insertion_sort_def mset_fold_sift)

lemma set_insertion_sort [simp]: "set (insertion_sort lt xs) = set xs"
  by (rule mset_eq_setD) simp

lemma length_insertion_sort [simp]: "length (insertion_sort lt xs) = length xs"
  by (rule mset_eq_length) simp

lemma distinct_insertion_sort [simp]: "distinct (insertion_sort lt xs) = distinct xs"
  by (rule mset_eq_imp_distinct_iff) simp

lemma set_sift_left [simp]: "set (sift_left lt x ys) = insert x (set ys)"
  by (induction ys) auto

lemma sorted_wrt_unique_mset:
  assumes "mset xs = mset ys" and "sorted_wrt R xs" and "sorted_wrt R ys"
    and "\<And>a b. a \<in> set xs \<Longrightarrow> b \<in> set xs \<Longrightarrow> R a b \<Longrightarrow> R b a \<Longrightarrow> a = b"
  shows "xs = ys"
  using assms
proof (induction xs arbitrary: ys)
  case Nil
  then show ?case by simp
next
  case (Cons x xs)
  then obtain y ys' where ys: "ys = y # ys'" by (cases ys) auto
  have "x = y"
  proof (rule ccontr)
    assume "x \<noteq> y"
    have sets: "set (x # xs) = set (y # ys')"
      using Cons.prems(1) ys by (intro mset_eq_setD) simp
    with \<open>x \<noteq> y\<close> have "y \<in> set xs" "x \<in> set ys'" by auto
    then have "R x y" "R y x" using Cons.prems(2,3) ys by auto
    moreover have "y \<in> set (x # xs)" using \<open>y \<in> set xs\<close> by simp
    ultimately show False using Cons.prems(4) [of x y] \<open>x \<noteq> y\<close> by simp
  qed
  moreover from this have "xs = ys'"
    using Cons.prems ys by (intro Cons.IH) auto
  ultimately show ?case using ys by simp
qed

text \<open>
  What the sort needs of the comparison: on the elements it meets (\<open>ok\<close>), a strict weak order.
  Floating-point scores are such elements only when they are not NaN.
\<close>

locale strict_weak_order =
  fixes ok :: "'a \<Rightarrow> bool" and lt :: "'a \<Rightarrow> 'a \<Rightarrow> bool"
  assumes irrefl: "ok x \<Longrightarrow> \<not> lt x x"
    and trans: "ok x \<Longrightarrow> ok y \<Longrightarrow> ok z \<Longrightarrow> lt x y \<Longrightarrow> lt y z \<Longrightarrow> lt x z"
    and incomp_trans: "ok x \<Longrightarrow> ok y \<Longrightarrow> ok z \<Longrightarrow> \<not> lt x y \<Longrightarrow> \<not> lt y z \<Longrightarrow> \<not> lt x z"
begin

lemma asym: "ok x \<Longrightarrow> ok y \<Longrightarrow> lt x y \<Longrightarrow> \<not> lt y x"
  using irrefl trans by blast

lemma sift_left_sorted:
  assumes "ok x" and "list_all ok ys" and "sorted_wrt (\<lambda>a b. \<not> lt a b) ys"
  shows "sorted_wrt (\<lambda>a b. \<not> lt a b) (sift_left lt x ys)"
  using assms(2,3)
proof (induction ys)
  case Nil
  then show ?case by simp
next
  case (Cons y ys)
  show ?case
  proof (cases "lt x y")
    case True
    with Cons asym [of x y] assms(1) show ?thesis by simp
  next
    case False
    with Cons.prems assms(1) have "\<forall>z \<in> set ys. \<not> lt x z"
      using incomp_trans [of x y] by (simp add: list_all_iff)
    with False Cons.prems show ?thesis by simp
  qed
qed

lemma fold_sift_sorted:
  assumes "list_all ok xs" and "list_all ok ys" and "sorted_wrt (\<lambda>a b. \<not> lt a b) ys"
  shows "sorted_wrt (\<lambda>a b. \<not> lt a b) (fold (sift_left lt) xs ys)"
  using assms
proof (induction xs arbitrary: ys)
  case (Cons x xs)
  moreover have "list_all ok (sift_left lt x ys)"
    using Cons.prems by (simp add: list_all_iff)
  ultimately show ?case by (simp add: sift_left_sorted)
qed simp

lemma insertion_sort_sorted:
  assumes "list_all ok xs"
  shows "sorted_wrt (\<lambda>a b. \<not> lt b a) (insertion_sort lt xs)"
  using fold_sift_sorted [OF assms, of "[]"] by (simp add: insertion_sort_def sorted_wrt_rev)

text \<open>Where the comparison separates distinct elements, the sorted order is unique: the result
  does not depend on the order in which the elements were met.\<close>

lemma insertion_sort_unique:
  assumes ok: "list_all ok xs" and eq: "mset xs = mset ys"
    and sep: "\<And>a b. a \<in> set xs \<Longrightarrow> b \<in> set xs \<Longrightarrow> \<not> lt a b \<Longrightarrow> \<not> lt b a \<Longrightarrow> a = b"
  shows "insertion_sort lt xs = insertion_sort lt ys"
proof (rule sorted_wrt_unique_mset)
  show "mset (insertion_sort lt xs) = mset (insertion_sort lt ys)" by (simp add: eq)
  show "sorted_wrt (\<lambda>a b. \<not> lt b a) (insertion_sort lt xs)"
    by (rule insertion_sort_sorted [OF ok])
  have "list_all ok ys" using ok mset_eq_setD [OF eq] by (simp add: list_all_iff)
  then show "sorted_wrt (\<lambda>a b. \<not> lt b a) (insertion_sort lt ys)"
    by (rule insertion_sort_sorted)
  fix a b
  assume "a \<in> set (insertion_sort lt xs)" "b \<in> set (insertion_sort lt xs)" "\<not> lt b a" "\<not> lt a b"
  then show "a = b" using sep by simp
qed

end

interpretation linorder_sort: strict_weak_order "\<lambda>_. True" "(<) :: 'a::linorder \<Rightarrow> 'a \<Rightarrow> bool"
  by unfold_locales auto

lemma insertion_sort_eq_sort: "insertion_sort (<) xs = sort (xs :: 'a::linorder list)"
proof (rule properties_for_sort [symmetric])
  show "sorted (insertion_sort (<) xs)"
    using linorder_sort.insertion_sort_sorted [of xs]
    by (simp add: not_less list_all_iff)
qed simp

subsection \<open>Association lists standing for Go maps\<close>

text \<open>
  A Go map is an association list with distinct keys. Go iterates over a map in an unspecified
  order; the list order stands for one such order, and what the code computes from a map is
  proved to depend on \<^const>\<open>map_of\<close> only.
\<close>

abbreviation keys_of :: "('k \<times> 'v) list \<Rightarrow> 'k list" where
  "keys_of m \<equiv> map fst m"

definition gomap :: "('k \<times> 'v) list \<Rightarrow> bool" where
  "gomap m \<longleftrightarrow> distinct (keys_of m)"

lemma gomap_update [simp]: "gomap m \<Longrightarrow> gomap (AList.update k v m)"
  by (simp add: gomap_def distinct_update)

lemma gomap_delete [simp]: "gomap m \<Longrightarrow> gomap (AList.delete k m)"
  by (simp add: gomap_def distinct_delete)

lemma gomap_Nil [simp]: "gomap []"
  by (simp add: gomap_def)

lemma gomap_mset_eq:
  assumes "gomap m" and "gomap m'" and "map_of m = map_of m'"
  shows "mset m = mset m'"
proof -
  have "(p \<in> set m) = (p \<in> set m')" for p
    using assms map_of_eq_Some_iff [of m "fst p" "snd p"] map_of_eq_Some_iff [of m' "fst p" "snd p"]
    by (simp add: gomap_def)
  then have "set m = set m'" by blast
  moreover have "distinct m" "distinct m'"
    using assms(1,2) by (simp_all add: gomap_def distinct_map)
  ultimately show ?thesis
    by (simp add: set_eq_iff_mset_eq_distinct)
qed

text \<open>The map a loop of assignments \<^verbatim>\<open>m[k] = v\<close> builds, and a read with the zero value as default.\<close>

definition gomap_of :: "('k \<times> 'v) list \<Rightarrow> ('k \<times> 'v) list" where
  "gomap_of ps = fold (\<lambda>(k, v). AList.update k v) ps []"

definition getd :: "'v \<Rightarrow> ('k \<times> 'v) list \<Rightarrow> 'k \<Rightarrow> 'v" where
  "getd z m k = (case map_of m k of None \<Rightarrow> z | Some v \<Rightarrow> v)"

lemma gomap_fold_update: "gomap m \<Longrightarrow> gomap (fold (\<lambda>(k, v). AList.update k v) ps m)"
  by (induction ps arbitrary: m) auto

lemma gomap_gomap_of [simp]: "gomap (gomap_of ps)"
  by (simp add: gomap_of_def gomap_fold_update)

lemma map_of_fold_update:
  "map_of (fold (\<lambda>(k, v). AList.update k v) ps m) = map_of m ++ map_of (rev ps)"
proof (induction ps arbitrary: m)
  case (Cons p ps)
  then show ?case by (cases p) (simp add: update_conv' map_add_def fun_eq_iff split: option.split)
qed simp

lemma map_of_rev_distinct: "distinct (keys_of ps) \<Longrightarrow> map_of (rev ps) = map_of ps"
  by (rule map_of_inject_set [THEN iffD2]) (simp_all add: rev_map [symmetric])

lemma map_of_gomap_of: "distinct (keys_of ps) \<Longrightarrow> map_of (gomap_of ps) = map_of ps"
  by (simp add: gomap_of_def map_of_fold_update map_of_rev_distinct)

lemma getd_in: "gomap m \<Longrightarrow> (k, v) \<in> set m \<Longrightarrow> getd z m k = v"
  by (simp add: getd_def gomap_def)

lemma map_of_map_getd:
  assumes "set ks = set (keys_of m)"
  shows "map_of (map (\<lambda>k. (k, getd z m k)) ks) = map_of m"
proof
  fix k
  show "map_of (map (\<lambda>k. (k, getd z m k)) ks) k = map_of m k"
  proof (cases "k \<in> set ks")
    case True
    with assms have "map_of m k \<noteq> None" by (simp add: map_of_eq_None_iff)
    then obtain v where "map_of m k = Some v" by auto
    with True show ?thesis by (simp add: map_of_map_restrict getd_def)
  next
    case False
    with assms have "map_of m k = None" by (simp add: map_of_eq_None_iff)
    with False show ?thesis by (simp add: map_of_map_restrict)
  qed
qed

subsection \<open>The contract of a keyed collection\<close>

text \<open>
  What the users of a keyed collection rely on: an insertion is found under its key and disturbs no
  other, a deletion removes its key only, and both keep the representation invariant.
\<close>

locale keyed =
  fixes inv :: "'m \<Rightarrow> bool" and find :: "'m \<Rightarrow> 'k \<Rightarrow> 'v option"
    and upd :: "'k \<Rightarrow> 'v \<Rightarrow> 'm \<Rightarrow> 'm" and del :: "'k \<Rightarrow> 'm \<Rightarrow> 'm" and fits :: "'k \<Rightarrow> 'v \<Rightarrow> bool"
  assumes inv_upd: "inv m \<Longrightarrow> fits k v \<Longrightarrow> inv (upd k v m)"
    and inv_del: "inv m \<Longrightarrow> inv (del k m)"
    and find_upd: "inv m \<Longrightarrow> fits k v \<Longrightarrow> find (upd k v m) k' = (if k' = k then Some v else find m k')"
    and find_del: "inv m \<Longrightarrow> find (del k m) k' = (if k' = k then None else find m k')"
begin

lemma inv_fold_upd:
  "inv m \<Longrightarrow> list_all (\<lambda>(k, v). fits k v) ps \<Longrightarrow> inv (fold (\<lambda>(k, v). upd k v) ps m)"
  by (induction ps arbitrary: m) (auto simp: inv_upd)

text \<open>A batch of insertions behaves like the map that lists the last insertion of every key.\<close>

lemma find_fold_upd:
  "inv m \<Longrightarrow> list_all (\<lambda>(k, v). fits k v) ps \<Longrightarrow>
     find (fold (\<lambda>(k, v). upd k v) ps m) = find m ++ map_of (rev ps)"
proof (induction ps arbitrary: m)
  case (Cons p ps)
  obtain k v where p: "p = (k, v)" by (cases p)
  with Cons.prems have "find (fold (\<lambda>(k, v). upd k v) ps (upd k v m)) = find (upd k v m) ++ map_of (rev ps)"
    by (intro Cons.IH) (auto simp: inv_upd)
  moreover have "find (upd k v m) = (find m)(k \<mapsto> v)"
    using Cons.prems p by (simp add: find_upd fun_eq_iff)
  ultimately show ?case
    using p by (simp add: map_add_def fun_eq_iff split: option.split)
qed simp

text \<open>Deleting undoes an insertion, and an insertion hides a deletion.\<close>

lemma find_del_upd: "inv m \<Longrightarrow> fits k v \<Longrightarrow> find (del k (upd k v m)) = find (del k m)"
  by (simp add: find_del find_upd inv_upd fun_eq_iff)

lemma find_upd_del: "inv m \<Longrightarrow> fits k v \<Longrightarrow> find (upd k v (del k m)) = find (upd k v m)"
  by (simp add: find_del find_upd inv_del fun_eq_iff)

end

end
