(* ===== verification/Binary.thy ===== *)
theory Binary
  imports GoPrelude
begin

text \<open>
  The byte-level encodings of Go's \<^verbatim>\<open>encoding/binary\<close> that the storage formats are built from
  (\<^verbatim>\<open>AppendUvarint\<close>, \<^verbatim>\<open>Uvarint\<close>, \<^verbatim>\<open>BigEndian\<close>), the counted loop every decoder runs, and the
  interface of a self-delimiting codec. A decoder of the development is proved correct by
  interpreting that interface on its element format; the loop lemmas then give the round trip
  and the detection of truncated input.
\<close>

subsection \<open>Big-endian integers\<close>

fun be_bytes :: "nat \<Rightarrow> nat \<Rightarrow> bytes" where
  "be_bytes 0 x = []"
| "be_bytes (Suc n) x = byte (x div 256 ^ n) # be_bytes n x"

definition be_val :: "bytes \<Rightarrow> nat" where
  "be_val b = foldl (\<lambda>a c. a * 256 + ord c) 0 b"

lemma length_be_bytes [simp]: "length (be_bytes n x) = n"
  by (induction n) auto

lemma foldl_be: "foldl (\<lambda>a c. a * 256 + ord c) a b = a * 256 ^ length b + be_val b"
proof (induction b arbitrary: a)
  case (Cons c b)
  have "be_val (c # b) = foldl (\<lambda>a c. a * 256 + ord c) (ord c) b" by (simp add: be_val_def)
  also have "\<dots> = ord c * 256 ^ length b + be_val b" by (rule Cons)
  finally show ?case using Cons [of "a * 256 + ord c"] by (simp add: algebra_simps)
qed (simp add: be_val_def)

lemma be_val_Cons: "be_val (c # b) = ord c * 256 ^ length b + be_val b"
  using foldl_be [of "ord c" b] by (simp add: be_val_def)

lemma be_val_bytes [simp]: "be_val (be_bytes n x) = x mod 256 ^ n"
proof (induction n)
  case 0
  then show ?case by (simp add: be_val_def)
next
  case (Suc n)
  have "x mod 256 ^ Suc n = (x div 256 ^ n mod 256) * 256 ^ n + x mod 256 ^ n"
    using mod_mult2_eq [of x "256 ^ n" 256] by (simp add: mult.commute)
  with Suc show ?case by (simp add: be_val_Cons)
qed

lemma be_val_less: "be_val b < 256 ^ length b"
proof (induction b)
  case Nil
  then show ?case by (simp add: be_val_def)
next
  case (Cons c b)
  have "ord c * 256 ^ length b + be_val b < (ord c + 1) * 256 ^ length b"
    using Cons by simp
  also have "\<dots> \<le> 256 * 256 ^ length b"
    using ord_less [of c] by (intro mult_right_mono) linarith+
  finally show ?case by (simp add: be_val_Cons)
qed

lemma be_bytes_val: "be_bytes (length b) (be_val b) = b"
proof (induction b)
  case (Cons c b)
  have d: "be_val (c # b) div 256 ^ length b = ord c"
    using be_val_less [of b] by (simp add: be_val_Cons)
  have m: "be_bytes n (a * 256 ^ m + x) = be_bytes n x" if "n \<le> m" for n m a x :: nat
    using that
  proof (induction n)
    case (Suc n)
    have "(256::nat) ^ m = 256 ^ (Suc n + (m - Suc n))" using Suc.prems by simp
    also have "\<dots> = 256 ^ (m - Suc n) * 256 * 256 ^ n" by (simp add: power_add)
    finally have "a * 256 ^ m + x = x + (a * 256 ^ (m - Suc n) * 256) * 256 ^ n" by simp
    then have "(a * 256 ^ m + x) div 256 ^ n = a * 256 ^ (m - Suc n) * 256 + x div 256 ^ n"
      by (simp only: div_mult_self1) simp
    with Suc show ?case by (simp add: byte_eq_iff)
  qed simp
  from d Cons show ?case by (simp add: be_val_Cons m)
qed simp

subsection \<open>Unsigned varints\<close>

text \<open>Seven bits a byte, least significant first; the high bit says that more follow. The bits
  \<^verbatim>\<open>x |= b << s\<close> adds are disjoint from those of \<open>x\<close>, so the disjunction is a sum.\<close>

fun AppendUvarint :: "nat \<Rightarrow> bytes" where
  "AppendUvarint x =
     (if 128 \<le> x then byte (x mod 128 + 128) # AppendUvarint (x div 128) else [byte x])"

declare AppendUvarint.simps [simp del]

fun uvarint_loop :: "nat \<Rightarrow> nat \<Rightarrow> bytes \<Rightarrow> nat \<times> int" where
  "uvarint_loop i x [] = (0, 0)"
| "uvarint_loop i x (b # buf) =
     (if i = 10 then (0, - int (i + 1))
      else if ord b < 128 then
        (if i = 9 \<and> 1 < ord b then (0, - int (i + 1))
         else (x + ord b * 2 ^ (7 * i), int (i + 1)))
      else uvarint_loop (i + 1) (x + (ord b mod 128) * 2 ^ (7 * i)) buf)"

definition Uvarint :: "bytes \<Rightarrow> nat \<times> int" where
  "Uvarint buf = uvarint_loop 0 0 buf"

text \<open>Every reader of a varint checks \<^verbatim>\<open>adv <= 0\<close> and moves past it.\<close>

definition uv :: "bytes \<Rightarrow> (nat \<times> bytes) option" where
  "uv b = (case Uvarint b of (n, adv) \<Rightarrow> if adv \<le> 0 then None else Some (n, drop (nat adv) b))"

lemma AppendUvarint_nonempty [simp]: "AppendUvarint x \<noteq> []"
  by (simp add: AppendUvarint.simps [of x])

lemma uvarint_step_bound:
  assumes "v * 2 ^ (7 * i) < (2::nat) ^ 64" and "128 \<le> v"
  shows "i < 9" and "v div 128 * 2 ^ (7 * (i + 1)) < (2::nat) ^ 64"
proof -
  have "(2::nat) ^ (7 * i + 7) = 128 * 2 ^ (7 * i)" by (simp add: power_add)
  also have "\<dots> \<le> v * 2 ^ (7 * i)" using assms(2) by simp
  also have "\<dots> < 2 ^ 64" by (rule assms(1))
  finally have "7 * i + 7 < 64" by (rule power_less_imp_less_exp [rotated]) simp
  then show "i < 9" by simp
  have "v div 128 * 2 ^ (7 * (i + 1)) = (v div 128 * 128) * 2 ^ (7 * i)"
    by (simp add: power_add)
  also have "\<dots> \<le> v * 2 ^ (7 * i)" by (intro mult_right_mono) simp_all
  finally show "v div 128 * 2 ^ (7 * (i + 1)) < (2::nat) ^ 64" using assms(1) by linarith
qed

lemma uvarint_last_bound:
  assumes "v * 2 ^ (7 * i) < (2::nat) ^ 64" and "i = 9"
  shows "v \<le> 1"
  using assms by simp

lemma uvarint_loop_append:
  assumes "v * 2 ^ (7 * i) < 2 ^ 64" and "i \<le> 9"
  shows "uvarint_loop i x (AppendUvarint v @ r)
           = (x + v * 2 ^ (7 * i), int (i + length (AppendUvarint v)))"
  using assms
proof (induction v arbitrary: i x rule: AppendUvarint.induct)
  case (1 v)
  show ?case
  proof (cases "128 \<le> v")
    case True
    note b = uvarint_step_bound [OF "1.prems"(1) True]
    have o: "ord (byte (v mod 128 + 128)) = v mod 128 + 128" by simp
    have s: "v mod 128 * 2 ^ (7 * i) + v div 128 * 2 ^ (7 * (i + 1)) = v * 2 ^ (7 * i)"
    proof -
      have "a * p + c * (128 * p) = (a + c * 128) * p" for a c p :: nat
        by (simp add: algebra_simps)
      moreover have "(2::nat) ^ (7 * (i + 1)) = 128 * 2 ^ (7 * i)" by (simp add: power_add)
      ultimately show ?thesis by (simp only: mod_div_mult_eq)
    qed
    have e: "AppendUvarint v = byte (v mod 128 + 128) # AppendUvarint (v div 128)"
      using True by (simp add: AppendUvarint.simps [of v])
    have "uvarint_loop i x (AppendUvarint v @ r)
        = uvarint_loop (i + 1) (x + v mod 128 * 2 ^ (7 * i)) (AppendUvarint (v div 128) @ r)"
      unfolding e using b(1) by (simp add: o del: ord_byte)
    also have "\<dots> = (x + v mod 128 * 2 ^ (7 * i) + v div 128 * 2 ^ (7 * (i + 1)),
                     int (i + 1 + length (AppendUvarint (v div 128))))"
      using b by (intro "1.IH" [OF True]) simp_all
    finally show ?thesis unfolding e using s by simp
  next
    case False
    with "1.prems" uvarint_last_bound [OF "1.prems"(1)] show ?thesis
      by (auto simp: AppendUvarint.simps [of v])
  qed
qed

lemma uv_append [codec_simps]:
  "v < 2 ^ 64 \<Longrightarrow> uv (AppendUvarint v @ r) = Some (v, r)"
  using uvarint_loop_append [of v 0 0 r] by (simp add: uv_def Uvarint_def)

lemma uvarint_loop_truncated:
  assumes "v * 2 ^ (7 * i) < 2 ^ 64" and "i \<le> 9" and "k < length (AppendUvarint v)"
  shows "uvarint_loop i x (take k (AppendUvarint v)) = (0, 0)"
  using assms
proof (induction v arbitrary: i x k rule: AppendUvarint.induct)
  case (1 v)
  show ?case
  proof (cases "128 \<le> v \<and> 0 < k")
    case True
    then have t: "128 \<le> v" by simp
    note b = uvarint_step_bound [OF "1.prems"(1) t]
    have o: "ord (byte (v mod 128 + 128)) = v mod 128 + 128" by simp
    have e: "AppendUvarint v = byte (v mod 128 + 128) # AppendUvarint (v div 128)"
      using t by (simp add: AppendUvarint.simps [of v])
    obtain k' where k: "k = Suc k'" using True by (cases k) auto
    have "uvarint_loop (i + 1) (x + v mod 128 * 2 ^ (7 * i)) (take k' (AppendUvarint (v div 128))) = (0, 0)"
      using b "1.prems"(3) by (intro "1.IH" [OF t]) (simp_all add: e k)
    then show ?thesis unfolding e k using b(1) by (simp add: o del: ord_byte)
  next
    case False
    with "1.prems"(3) have "k = 0"
      by (cases "128 \<le> v") (auto simp: AppendUvarint.simps [of v])
    then show ?thesis by simp
  qed
qed

lemma uv_truncated [codec_simps]:
  "v < 2 ^ 64 \<Longrightarrow> k < length (AppendUvarint v) \<Longrightarrow> uv (take k (AppendUvarint v)) = None"
  using uvarint_loop_truncated [of v 0 k 0] by (simp add: uv_def Uvarint_def)

subsection \<open>Length-prefixed strings\<close>

text \<open>A Go length is an \<^verbatim>\<open>int\<close>: every string and slice is shorter than \<open>2 ^ 63\<close>.\<close>

definition go_str :: "bytes \<Rightarrow> bool" where
  "go_str s \<longleftrightarrow> length s < 2 ^ 63"

definition enc_str :: "bytes \<Rightarrow> bytes" where
  "enc_str s = AppendUvarint (length s) @ s"

definition dec_str :: "bytes \<Rightarrow> (bytes \<times> bytes) option" where
  "dec_str b = (case uv b of None \<Rightarrow> None
     | Some (n, b') \<Rightarrow> if length b' < n then None else Some (take n b', drop n b'))"

lemma dec_str_append [codec_simps]: "go_str s \<Longrightarrow> dec_str (enc_str s @ r) = Some (s, r)"
  by (simp add: dec_str_def enc_str_def go_str_def uv_append)

lemma dec_str_truncated [codec_simps]:
  assumes "go_str s" and "k < length (enc_str s)"
  shows "dec_str (take k (enc_str s)) = None"
proof (cases "k < length (AppendUvarint (length s))")
  case True
  with assms(1) show ?thesis
    by (simp add: dec_str_def enc_str_def go_str_def uv_truncated)
next
  case False
  with assms show ?thesis
    by (simp add: dec_str_def enc_str_def go_str_def uv_append)
qed

lemma enc_str_nonempty [simp]: "enc_str s \<noteq> []"
  by (simp add: enc_str_def)

text \<open>Decoding consumes a prefix of its input.\<close>

lemma uv_suffix: "uv b = Some (n, r) \<Longrightarrow> \<exists>p. b = p @ r"
  by (auto simp: uv_def split: prod.splits if_splits intro: append_take_drop_id [symmetric])

lemma dec_str_suffix:
  assumes "dec_str b = Some (s, r)"
  shows "\<exists>p. b = p @ s @ r"
proof -
  from assms obtain n b' where u: "uv b = Some (n, b')" and s: "b' = s @ r"
    by (auto simp: dec_str_def split: option.splits if_splits)
  from uv_suffix [OF u] s show ?thesis by blast
qed

subsection \<open>The counted decoding loop\<close>

text \<open>\<^verbatim>\<open>for i := uint64(0); i < n; i++ { x, rest, err = read(rest); ... }\<close>: the reader sees the
  index, which several of them put into their error.\<close>

fun decode_loop ::
  "(nat \<Rightarrow> bytes \<Rightarrow> ('e, 'a \<times> bytes) res) \<Rightarrow> nat \<Rightarrow> nat \<Rightarrow> bytes \<Rightarrow> ('e, 'a list \<times> bytes) res" where
  "decode_loop d i 0 b = Ok ([], b)"
| "decode_loop d i (Suc n) b =
     bind_res (d i b) (\<lambda>(x, r).
       bind_res (decode_loop d (Suc i) n r) (\<lambda>(xs, r'). Ok (x # xs, r')))"

lemma decode_loop_length:
  "decode_loop d i n b = Ok (xs, r) \<Longrightarrow> length xs = n"
  by (induction d i n b arbitrary: xs r rule: decode_loop.induct) (auto split: prod.splits)

text \<open>The contract of a self-delimiting element format, and what the loop makes of it.\<close>

locale prefix_codec =
  fixes enc :: "'a \<Rightarrow> bytes" and dec :: "nat \<Rightarrow> bytes \<Rightarrow> ('e, 'a \<times> bytes) res"
    and ok :: "'a \<Rightarrow> bool"
  assumes dec_enc: "ok x \<Longrightarrow> dec i (enc x @ r) = Ok (x, r)"
begin

lemma decode_loop_concat:
  "list_all ok xs \<Longrightarrow> decode_loop dec i (length xs) (concat (map enc xs) @ r) = Ok (xs, r)"
  by (induction xs arbitrary: i) (simp_all add: dec_enc)

end

locale trunc_codec = prefix_codec +
  assumes dec_truncated: "ok x \<Longrightarrow> k < length (enc x) \<Longrightarrow> \<exists>e. dec i (take k (enc x)) = Err e"
begin

lemma decode_loop_truncated:
  assumes "list_all ok xs" and "k < length (concat (map enc xs))"
  shows "\<exists>e. decode_loop dec i (length xs) (take k (concat (map enc xs))) = Err e"
  using assms
proof (induction xs arbitrary: i k)
  case (Cons x xs)
  show ?case
  proof (cases "k < length (enc x)")
    case True
    with Cons.prems obtain e where "dec i (take k (enc x)) = Err e"
      using dec_truncated [of x k i] by auto
    with True show ?thesis by simp
  next
    case False
    then have "k - length (enc x) < length (concat (map enc xs))"
      using Cons.prems(2) by (simp add: less_diff_conv2)
    with Cons.prems(1) obtain e where
      "decode_loop dec (Suc i) (length xs) (take (k - length (enc x)) (concat (map enc xs))) = Err e"
      using Cons.IH [of "k - length (enc x)" "Suc i"] by auto
    with False Cons.prems show ?thesis by (simp add: dec_enc)
  qed
qed simp

text \<open>The same for a counted sequence: a varint with the number of elements, then the elements.\<close>

lemma counted_truncated:
  assumes "list_all ok xs" and "length xs < 2 ^ 64"
    and "k < length (AppendUvarint (length xs) @ concat (map enc xs))"
  shows "case uv (take k (AppendUvarint (length xs) @ concat (map enc xs))) of None \<Rightarrow> True
         | Some (n, b) \<Rightarrow> n = length xs \<and> (\<exists>e. decode_loop dec 0 n b = Err e)"
proof (cases "k < length (AppendUvarint (length xs))")
  case True
  with assms(2) show ?thesis by (simp add: uv_truncated)
next
  case False
  with assms show ?thesis by (auto simp: uv_append intro: decode_loop_truncated)
qed

end

end
