(* ===== verification/Codec.thy ===== *)
theory Codec
  imports Binary
begin

text \<open>
  The on-disk formats of \<^verbatim>\<open>internal/datastruct\<close>: the storage cell (\<^verbatim>\<open>codec.go\<close>), lists, hashes,
  sets, sorted sets and vector sets, and the key prefixes that separate the types. A decoder
  returns \<^const>\<open>Err\<close> where the Go function returns an error and \<^const>\<open>Panic\<close> where a slice
  expression or a \<^verbatim>\<open>make\<close> is out of range. Exhaustion of memory by an allocation that the
  address space could hold is not modelled.
\<close>

datatype ds_error =
    TruncatedEntry nat
  | TruncatedPayload string
  | BadCount string
  | TruncatedElem string nat
  | DimMismatch nat int
  | TruncatedVector string
  | BadStream string
  | NotValidFloat

subsection \<open>Storage cells (\<^verbatim>\<open>codec.go\<close>)\<close>

definition TypeString :: char where "TypeString = CHR ''s''"
definition TypeHash :: char where "TypeHash = CHR ''h''"
definition TypeList :: char where "TypeList = CHR ''l''"
definition TypeSet :: char where "TypeSet = CHR ''t''"
definition TypeZSet :: char where "TypeZSet = CHR ''z''"
definition TypeHLL :: char where "TypeHLL = CHR ''H''"
definition TypeStream :: char where "TypeStream = CHR ''x''"
definition TypeVector :: char where "TypeVector = CHR ''v''"

lemmas type_tag_defs = TypeString_def TypeHash_def TypeList_def TypeSet_def TypeZSet_def
  TypeHLL_def TypeStream_def TypeVector_def

record Entry =
  Type :: char
  Expiry :: int
  Payload :: bytes

definition headerLen :: nat where "headerLen = 9"

text \<open>\<^verbatim>\<open>uint64(expiry)\<close> and back are the two's-complement conversions.\<close>

definition Encode :: "char \<Rightarrow> int \<Rightarrow> bytes \<Rightarrow> bytes" where
  "Encode typ expiry payload = typ # be_bytes 8 (nat (expiry mod 2 ^ 64)) @ payload"

definition EncodeString :: "bytes \<Rightarrow> int \<Rightarrow> bytes" where
  "EncodeString payload expiry = Encode TypeString expiry payload"

definition Decode :: "bytes \<Rightarrow> (ds_error, Entry) res" where
  "Decode raw =
     (if length raw < headerLen then Err (TruncatedEntry (length raw))
      else Ok \<lparr> Type = raw ! 0, Expiry = wrap64 (int (be_val (take 8 (drop 1 raw)))),
                Payload = drop 9 raw \<rparr>)"

lemma wrap64_uint64:
  assumes "int64_range i"
  shows "wrap64 (int (nat (i mod 2 ^ 64))) = i"
proof -
  have "wrap64 (i mod 2 ^ 64) = wrap64 i"
    by (simp add: wrap64_def mod_add_left_eq)
  with assms show ?thesis by (simp add: wrap64_id)
qed

lemma uint64_wrap64:
  assumes "n < 2 ^ 64"
  shows "nat (wrap64 (int n) mod 2 ^ 64) = n"
proof -
  have "wrap64 (int n) mod 2 ^ 64 = int n mod 2 ^ 64"
    by (simp add: wrap64_def mod_diff_left_eq)
  with assms show ?thesis by simp
qed

lemma Decode_Encode [codec_simps]:
  assumes "int64_range e"
  shows "Decode (Encode t e p) = Ok \<lparr> Type = t, Expiry = e, Payload = p \<rparr>"
proof -
  have "nat (e mod 2 ^ 64) mod 256 ^ 8 = nat (e mod 2 ^ 64)" by simp
  with wrap64_uint64 [OF assms] show ?thesis
    by (simp add: Decode_def Encode_def headerLen_def)
qed

lemma Encode_Decode:
  assumes "Decode raw = Ok e"
  shows "Encode (Type e) (Expiry e) (Payload e) = raw"
proof -
  from assms have len: "9 \<le> length raw"
    and e: "e = \<lparr> Type = raw ! 0, Expiry = wrap64 (int (be_val (take 8 (drop 1 raw)))),
                Payload = drop 9 raw \<rparr>"
    by (auto simp: Decode_def headerLen_def split: if_splits)
  let ?b = "take 8 (drop 1 raw)"
  from len have l: "length ?b = 8" by simp
  then have "be_val ?b < 2 ^ 64" using be_val_less [of ?b] by simp
  then have "be_bytes 8 (nat (wrap64 (int (be_val ?b)) mod 2 ^ 64)) = ?b"
    using be_bytes_val [of ?b] l uint64_wrap64 [of "be_val ?b"] by simp
  moreover have "raw = raw ! 0 # ?b @ drop 9 raw"
  proof (cases raw)
    case (Cons a l)
    have "l = take 8 l @ drop 8 l" by simp
    with Cons show ?thesis by simp
  qed (use len in simp)
  ultimately show ?thesis by (simp add: Encode_def e)
qed

subsection \<open>Lists (\<^verbatim>\<open>list.go\<close>)\<close>

text \<open>\<^verbatim>\<open>make([]T, 0, n)\<close> panics when the slice cannot fit the 48-bit address space.\<close>

definition makeslice_ok :: "nat \<Rightarrow> nat \<Rightarrow> bool" where
  "makeslice_ok sz n \<longleftrightarrow> sz * n \<le> 2 ^ 48"

definition EncodeList :: "bytes list \<Rightarrow> bytes" where
  "EncodeList elems =
     (let enc = (if 128 < length elems then byte 1
                 else if list_ex (\<lambda>e. 64 < length e) elems then byte 1 else byte 0)
      in enc # AppendUvarint (length elems) @ concat (map enc_str elems))"

definition readListStr :: "bytes \<Rightarrow> (bytes \<times> bytes) option" where
  "readListStr b =
     (case uv b of None \<Rightarrow> None
      | Some (n, b) \<Rightarrow> if length b < n then None else Some (take n b, drop n b))"

definition list_elem :: "nat \<Rightarrow> bytes \<Rightarrow> (ds_error, bytes \<times> bytes) res" where
  "list_elem i rest = or_err (TruncatedElem ''list element'' i) (readListStr rest)"

definition DecodeList :: "bytes \<Rightarrow> (ds_error, bytes list) res" where
  "DecodeList raw =
     (case raw of [] \<Rightarrow> Err (TruncatedPayload ''list'')
      | _ # rest \<Rightarrow>
          (case uv rest of None \<Rightarrow> Err (BadCount ''list'')
           | Some (n, rest) \<Rightarrow>
               if \<not> makeslice_ok 16 n then Panic
               else bind_res (decode_loop list_elem 0 n rest) (\<lambda>(elems, _). Ok elems)))"

definition ListPushHead :: "bytes \<Rightarrow> bytes \<Rightarrow> (ds_error, bytes) res" where
  "ListPushHead raw elem =
     (case DecodeList raw of Panic \<Rightarrow> Panic
      | Err _ \<Rightarrow> Ok (EncodeList [elem])
      | Ok elems \<Rightarrow> Ok (EncodeList (elem # elems)))"

definition ListPushTail :: "bytes \<Rightarrow> bytes \<Rightarrow> (ds_error, bytes) res" where
  "ListPushTail raw elem =
     (case DecodeList raw of Panic \<Rightarrow> Panic
      | Err _ \<Rightarrow> Ok (EncodeList [elem])
      | Ok elems \<Rightarrow> Ok (EncodeList (elems @ [elem])))"

lemma readListStr_eq [simp]: "readListStr = dec_str"
  by (simp add: readListStr_def dec_str_def fun_eq_iff)

interpretation list_codec: trunc_codec enc_str list_elem go_str
  by unfold_locales (simp_all add: list_elem_def codec_simps)

text \<open>A list whose slice and elements Go can hold.\<close>

definition go_list :: "bytes list \<Rightarrow> bool" where
  "go_list xs \<longleftrightarrow> makeslice_ok 16 (length xs) \<and> list_all go_str xs"

lemma go_list_length: "go_list xs \<Longrightarrow> length xs < 2 ^ 64"
  by (simp add: go_list_def makeslice_ok_def)

lemma DecodeList_EncodeList [codec_simps]:
  assumes "go_list xs"
  shows "DecodeList (EncodeList xs @ junk) = Ok xs"
  using assms go_list_length [OF assms] list_codec.decode_loop_concat [of xs 0 junk]
  by (simp add: DecodeList_def EncodeList_def go_list_def uv_append Let_def)

lemmas DecodeList_EncodeList' [codec_simps] = DecodeList_EncodeList [of _ "[]", simplified]

subsection \<open>Hashes (\<^verbatim>\<open>hash.go\<close>)\<close>

definition sortStrings :: "bytes list \<Rightarrow> bytes list" where
  "sortStrings s = insertion_sort (<) s"

definition hash_encoding :: "(bytes \<times> bytes) list \<Rightarrow> char" where
  "hash_encoding m =
     (if 128 < length m then byte 1
      else if list_ex (\<lambda>(f, v). 64 < length f \<or> 64 < length v) m then byte 1 else byte 0)"

definition EncodeHash :: "(bytes \<times> bytes) list \<Rightarrow> bytes" where
  "EncodeHash m =
     (let fields = sortStrings (keys_of m)
      in hash_encoding m # AppendUvarint (length m)
           @ concat (map (\<lambda>f. let v = getd [] m f in enc_str f @ enc_str v) fields))"

definition readHashStr :: "bytes \<Rightarrow> (bytes \<times> bytes) option" where
  "readHashStr b =
     (case Uvarint b of (n, adv) \<Rightarrow>
        if adv \<le> 0 \<or> length (drop (nat adv) b) < n then None
        else Some (take n (drop (nat adv) b), drop (nat adv + n) b))"

definition hash_pair :: "nat \<Rightarrow> bytes \<Rightarrow> (ds_error, (bytes \<times> bytes) \<times> bytes) res" where
  "hash_pair i rest =
     bind_res (or_err (TruncatedElem ''hash field'' i) (readHashStr rest)) (\<lambda>(f, rest2).
     bind_res (or_err (TruncatedElem ''hash value'' i) (readHashStr rest2)) (\<lambda>(v, rest3).
       Ok ((f, v), rest3)))"

definition DecodeHash :: "bytes \<Rightarrow> (ds_error, (bytes \<times> bytes) list \<times> char) res" where
  "DecodeHash raw =
     (case raw of [] \<Rightarrow> Err (TruncatedPayload ''hash'')
      | enc # rest \<Rightarrow>
          (case uv rest of None \<Rightarrow> Err (BadCount ''hash'')
           | Some (n, rest) \<Rightarrow>
               bind_res (decode_loop hash_pair 0 n rest) (\<lambda>(ps, _). Ok (gomap_of ps, enc))))"

lemma readHashStr_eq [simp]: "readHashStr = dec_str"
proof
  fix b
  show "readHashStr b = dec_str b"
    by (cases "Uvarint b") (simp add: readHashStr_def dec_str_def uv_def add.commute)
qed

definition enc_hash_pair :: "bytes \<times> bytes \<Rightarrow> bytes" where
  "enc_hash_pair p = enc_str (fst p) @ enc_str (snd p)"

abbreviation go_pair :: "bytes \<times> bytes \<Rightarrow> bool" where
  "go_pair p \<equiv> go_str (fst p) \<and> go_str (snd p)"

interpretation hash_codec: trunc_codec enc_hash_pair hash_pair go_pair
proof
  fix p :: "bytes \<times> bytes" and i k r
  assume ok: "go_pair p"
  then show "hash_pair i (enc_hash_pair p @ r) = Ok (p, r)"
    by (simp add: hash_pair_def enc_hash_pair_def codec_simps)
  assume k: "k < length (enc_hash_pair p)"
  show "\<exists>e. hash_pair i (take k (enc_hash_pair p)) = Err e"
  proof (cases "k < length (enc_str (fst p))")
    case True
    with ok show ?thesis by (simp add: hash_pair_def enc_hash_pair_def codec_simps)
  next
    case False
    with ok k have "dec_str (take (k - length (enc_str (fst p))) (enc_str (snd p))) = None"
      by (intro dec_str_truncated) (auto simp: enc_hash_pair_def)
    with False ok show ?thesis by (simp add: hash_pair_def enc_hash_pair_def codec_simps)
  qed
qed

text \<open>A map Go can hold: distinct keys, and strings and a count of Go size.\<close>

definition go_hash :: "(bytes \<times> bytes) list \<Rightarrow> bool" where
  "go_hash m \<longleftrightarrow> gomap m \<and> length m < 2 ^ 63 \<and> list_all go_pair m"

lemma sortStrings_eq: "sortStrings ks = sort ks"
  by (simp add: sortStrings_def insertion_sort_eq_sort)

definition hash_pairs :: "(bytes \<times> bytes) list \<Rightarrow> (bytes \<times> bytes) list" where
  "hash_pairs m = map (\<lambda>f. (f, getd [] m f)) (sort (keys_of m))"

lemma EncodeHash_pairs:
  "EncodeHash m = hash_encoding m # AppendUvarint (length (hash_pairs m))
     @ concat (map enc_hash_pair (hash_pairs m))"
  by (simp add: EncodeHash_def hash_pairs_def sortStrings_eq enc_hash_pair_def Let_def comp_def)

lemma map_of_hash_pairs: "map_of (hash_pairs m) = map_of m"
  by (simp add: hash_pairs_def map_of_map_getd)

lemma hash_pairs_ok: "go_hash m \<Longrightarrow> list_all go_pair (hash_pairs m)"
  by (auto simp: hash_pairs_def go_hash_def list_all_iff getd_in)

lemma distinct_hash_pairs: "gomap m \<Longrightarrow> distinct (keys_of (hash_pairs m))"
  by (simp add: hash_pairs_def gomap_def comp_def)

lemma length_hash_pairs [simp]: "length (hash_pairs m) = length m"
  by (simp add: hash_pairs_def)

lemma DecodeHash_EncodeHash [codec_simps]:
  assumes "go_hash m"
  shows "DecodeHash (EncodeHash m @ junk) = Ok (gomap_of (hash_pairs m), hash_encoding m)"
  using assms hash_codec.decode_loop_concat [OF hash_pairs_ok [OF assms], of 0 junk]
  by (simp add: DecodeHash_def EncodeHash_pairs go_hash_def uv_append)

lemma map_of_decoded_hash: "go_hash m \<Longrightarrow> map_of (gomap_of (hash_pairs m)) = map_of m"
  by (simp add: map_of_gomap_of distinct_hash_pairs map_of_hash_pairs go_hash_def)

lemma hash_encoding_cong: "mset m = mset m' \<Longrightarrow> hash_encoding m = hash_encoding m'"
  using mset_eq_setD [of m m'] mset_eq_length [of m m']
  by (simp add: hash_encoding_def list_ex_iff)

lemma hash_pairs_cong:
  assumes "mset m = mset m'" and "map_of m = map_of m'"
  shows "hash_pairs m = hash_pairs m'"
proof -
  have "mset (keys_of m) = mset (keys_of m')" using assms(1) by (simp add: mset_map)
  then have "sort (keys_of m) = sort (keys_of m')"
    by (intro properties_for_sort) simp_all
  with assms(2) show ?thesis by (simp add: hash_pairs_def getd_def)
qed

subsection \<open>Sets (\<^verbatim>\<open>set.go\<close>)\<close>

definition allInt64 :: "bytes list \<Rightarrow> bool" where
  "allInt64 members \<longleftrightarrow> list_all (\<lambda>m. ParseInt m \<noteq> None) members"

definition EncodeSet :: "bytes list \<Rightarrow> bytes" where
  "EncodeSet members =
     (let uniq = gomap_of (map (\<lambda>m. (m, ())) members);
          sorted = sortStrings (keys_of uniq);
          enc = (if length sorted \<le> 512 \<and> allInt64 sorted then byte 0 else byte 1)
      in enc # AppendUvarint (length sorted) @ concat (map enc_str sorted))"

definition readSetStr :: "bytes \<Rightarrow> (bytes \<times> bytes) option" where
  "readSetStr b =
     (case Uvarint b of (n, adv) \<Rightarrow>
        if adv \<le> 0 \<or> length (drop (nat adv) b) < n then None
        else Some (take n (drop (nat adv) b), drop (nat adv + n) b))"

definition set_member :: "nat \<Rightarrow> bytes \<Rightarrow> (ds_error, bytes \<times> bytes) res" where
  "set_member i rest = or_err (TruncatedElem ''set member'' i) (readSetStr rest)"

text \<open>The decoded \<^verbatim>\<open>map[string]struct{}\<close> is the list of its keys.\<close>

definition DecodeSet :: "bytes \<Rightarrow> (ds_error, bytes list \<times> char) res" where
  "DecodeSet raw =
     (case raw of [] \<Rightarrow> Err (TruncatedPayload ''set'')
      | enc # rest \<Rightarrow>
          (case uv rest of None \<Rightarrow> Err (BadCount ''set'')
           | Some (n, rest) \<Rightarrow>
               bind_res (decode_loop set_member 0 n rest) (\<lambda>(ms, _).
                 Ok (keys_of (gomap_of (map (\<lambda>m. (m, ())) ms)), enc))))"

lemma readSetStr_eq [simp]: "readSetStr = dec_str"
proof
  fix b
  show "readSetStr b = dec_str b"
    by (cases "Uvarint b") (simp add: readSetStr_def dec_str_def uv_def add.commute)
qed

interpretation set_codec: trunc_codec enc_str set_member go_str
  by unfold_locales (simp_all add: set_member_def codec_simps)

lemma keys_gomap_of: "fst ` set (gomap_of ps) = fst ` set ps"
proof -
  have "dom (map_of (gomap_of ps)) = dom (map_of (rev ps))"
    by (simp add: gomap_of_def map_of_fold_update)
  then show ?thesis by (simp add: dom_map_of_conv_image_fst)
qed

definition go_set :: "bytes list \<Rightarrow> bool" where
  "go_set ms \<longleftrightarrow> length ms < 2 ^ 63 \<and> list_all go_str ms"

definition set_sorted :: "bytes list \<Rightarrow> bytes list" where
  "set_sorted ms = sorted_list_of_set (set ms)"

lemma set_sorted_eq: "sortStrings (keys_of (gomap_of (map (\<lambda>m. (m, ())) ms))) = set_sorted ms"
proof -
  let ?ks = "keys_of (gomap_of (map (\<lambda>m. (m, ())) ms))"
  have "distinct ?ks" using gomap_gomap_of by (simp add: gomap_def)
  moreover have "set ?ks = set ms" by (simp add: keys_gomap_of image_image)
  ultimately show ?thesis
    by (metis set_sorted_def sortStrings_eq distinct_remdups_id sorted_list_of_set_sort_remdups)
qed

lemma set_sorted_props [simp]:
  "set (set_sorted ms) = set ms" "distinct (set_sorted ms)" "sorted (set_sorted ms)"
  by (simp_all add: set_sorted_def)

lemma length_set_sorted: "length (set_sorted ms) \<le> length ms"
  by (simp add: set_sorted_def card_length)

lemma DecodeSet_EncodeSet [codec_simps]:
  assumes "go_set ms"
  shows "\<exists>s enc. DecodeSet (EncodeSet ms @ junk) = Ok (s, enc) \<and> set s = set ms \<and> distinct s"
proof -
  have "list_all go_str (set_sorted ms)" using assms by (simp add: go_set_def list_all_iff)
  moreover have "length (set_sorted ms) < 2 ^ 64"
    using assms length_set_sorted [of ms] by (simp add: go_set_def)
  ultimately have "DecodeSet (EncodeSet ms @ junk) =
      Ok (keys_of (gomap_of (map (\<lambda>m. (m, ())) (set_sorted ms))),
          if length (set_sorted ms) \<le> 512 \<and> allInt64 (set_sorted ms) then byte 0 else byte 1)"
    using set_codec.decode_loop_concat [of "set_sorted ms" 0 junk]
    by (simp add: DecodeSet_def EncodeSet_def set_sorted_eq uv_append Let_def)
  moreover have "distinct (keys_of (gomap_of (map (\<lambda>m. (m, ())) (set_sorted ms))))"
    using gomap_gomap_of by (simp add: gomap_def)
  ultimately show ?thesis by (simp add: keys_gomap_of image_image)
qed

lemma EncodeSet_cong: "set ms = set ms' \<Longrightarrow> EncodeSet ms = EncodeSet ms'"
  by (simp add: EncodeSet_def set_sorted_eq set_sorted_def)

subsection \<open>Sorted sets (\<^verbatim>\<open>zset.go\<close>)\<close>

text \<open>A \<^verbatim>\<open>float64\<close> is its 64-bit pattern, so \<^verbatim>\<open>math.Float64bits\<close> is the identity. The order of
  IEEE 754: NaN compares false with everything, the two zeros are equal, and otherwise the sign
  and magnitude decide.\<close>

type_synonym float64 = "64 word"

lemma unat64_less: "unat (w :: 64 word) < 2 ^ 64"
  using unsigned_less [of w, where 'a = nat] by simp

definition f64_mag :: "float64 \<Rightarrow> nat" where
  "f64_mag w = unat w mod 2 ^ 63"

definition f64_key :: "float64 \<Rightarrow> int" where
  "f64_key w = (if unat w < 2 ^ 63 then int (f64_mag w) else - int (f64_mag w))"

definition IsNaN :: "float64 \<Rightarrow> bool" where
  "IsNaN w \<longleftrightarrow> 0x7FF0000000000000 < f64_mag w"

definition IsInf :: "float64 \<Rightarrow> bool" where
  "IsInf w \<longleftrightarrow> f64_mag w = 0x7FF0000000000000"

definition f64_lt :: "float64 \<Rightarrow> float64 \<Rightarrow> bool" where
  "f64_lt a b \<longleftrightarrow> \<not> IsNaN a \<and> \<not> IsNaN b \<and> f64_key a < f64_key b"

definition f64_eq :: "float64 \<Rightarrow> float64 \<Rightarrow> bool" where
  "f64_eq a b \<longleftrightarrow> \<not> IsNaN a \<and> \<not> IsNaN b \<and> f64_key a = f64_key b"

definition zset_less :: "bytes \<times> float64 \<Rightarrow> bytes \<times> float64 \<Rightarrow> bool" where
  "zset_less p q \<longleftrightarrow>
     f64_lt (snd p) (snd q) \<or> (f64_eq (snd p) (snd q) \<and> fst p < fst q)"

definition sortZSetPairs :: "(bytes \<times> float64) list \<Rightarrow> (bytes \<times> float64) list" where
  "sortZSetPairs ps = insertion_sort zset_less ps"

definition EncodeZSet :: "(bytes \<times> float64) list \<Rightarrow> bytes" where
  "EncodeZSet z =
     (let enc = (if 128 < length z then byte 1
                 else if list_ex (\<lambda>(m, _). 64 < length m) z then byte 1 else byte 0);
          pairs = sortZSetPairs z
      in enc # AppendUvarint (length pairs)
           @ concat (map (\<lambda>(m, s). enc_str m @ be_bytes 8 (unat s)) pairs))"

text \<open>\<^verbatim>\<open>mlen+8\<close> wraps around, and \<^verbatim>\<open>int(mlen)\<close> is negative from \<open>2 ^ 63\<close> on: the slice
  expression then panics.\<close>

definition zset_pair :: "nat \<Rightarrow> bytes \<Rightarrow> (ds_error, (bytes \<times> float64) \<times> bytes) res" where
  "zset_pair i rest =
     (case Uvarint rest of (mlen, adv) \<Rightarrow>
        if adv \<le> 0 \<or> length (drop (nat adv) rest) < (mlen + 8) mod 2 ^ 64
        then Err (TruncatedElem ''zset member'' i)
        else let hi = adv + wrap64 (int mlen) in
          if hi < adv \<or> int (length rest) < hi then Panic
          else let m = take mlen (drop (nat adv) rest); rest = drop (nat adv + mlen) rest
               in if length rest < 8 then Panic
                  else Ok ((m, of_nat (be_val (take 8 rest))), drop 8 rest))"

definition DecodeZSet :: "bytes \<Rightarrow> (ds_error, (bytes \<times> float64) list \<times> char) res" where
  "DecodeZSet raw =
     (case raw of [] \<Rightarrow> Err (TruncatedPayload ''zset'')
      | enc # rest \<Rightarrow>
          (case uv rest of None \<Rightarrow> Err (BadCount ''zset'')
           | Some (n, rest) \<Rightarrow>
               bind_res (decode_loop zset_pair 0 n rest) (\<lambda>(ps, _). Ok (gomap_of ps, enc))))"

interpretation zset_order: strict_weak_order "\<lambda>p. \<not> IsNaN (snd p)" zset_less
  by unfold_locales (auto simp: zset_less_def f64_lt_def f64_eq_def)

definition enc_zset_pair :: "bytes \<times> float64 \<Rightarrow> bytes" where
  "enc_zset_pair p = enc_str (fst p) @ be_bytes 8 (unat (snd p))"

abbreviation go_zpair :: "bytes \<times> float64 \<Rightarrow> bool" where
  "go_zpair p \<equiv> go_str (fst p)"

lemma Uvarint_append: "v < 2 ^ 64 \<Longrightarrow> Uvarint (AppendUvarint v @ r) = (v, int (length (AppendUvarint v)))"
  using uvarint_loop_append [of v 0 0 r] by (simp add: Uvarint_def)

lemma Uvarint_truncated:
  "v < 2 ^ 64 \<Longrightarrow> k < length (AppendUvarint v) \<Longrightarrow> Uvarint (take k (AppendUvarint v)) = (0, 0)"
  using uvarint_loop_truncated [of v 0 k 0] by (simp add: Uvarint_def)

lemma wrap64_length: "n < 2 ^ 63 \<Longrightarrow> wrap64 (int n) = int n"
  by (simp add: wrap64_id int64_range_def)

lemma zset_pair_append:
  assumes "go_str m" and "length m + 8 \<le> length r"
  shows "zset_pair i (AppendUvarint (length m) @ r) =
    Ok ((take (length m) r, of_nat (be_val (take 8 (drop (length m) r)))), drop (length m + 8) r)"
proof -
  have "length m < 2 ^ 63" using assms(1) by (simp add: go_str_def)
  then show ?thesis using assms(2)
    by (simp add: zset_pair_def Uvarint_append wrap64_length Let_def add.commute)
qed

lemma zset_pair_short:
  assumes "go_str m" and "length r < length m + 8"
  shows "zset_pair i (AppendUvarint (length m) @ r) = Err (TruncatedElem ''zset member'' i)"
  using assms by (simp add: zset_pair_def Uvarint_append go_str_def)

interpretation zset_codec: trunc_codec enc_zset_pair zset_pair go_zpair
proof
  fix p :: "bytes \<times> float64" and i k r
  assume ok: "go_zpair p"
  have "unat (snd p) mod 256 ^ 8 = unat (snd p)" using unat64_less [of "snd p"] by simp
  with zset_pair_append [OF ok, of "fst p @ be_bytes 8 (unat (snd p)) @ r"]
  show "zset_pair i (enc_zset_pair p @ r) = Ok (p, r)"
    by (simp add: enc_zset_pair_def enc_str_def)
  assume k: "k < length (enc_zset_pair p)"
  let ?u = "AppendUvarint (length (fst p))"
  show "\<exists>e. zset_pair i (take k (enc_zset_pair p)) = Err e"
  proof (cases "k < length ?u")
    case True
    with ok show ?thesis
      by (simp add: enc_zset_pair_def enc_str_def zset_pair_def go_str_def Uvarint_truncated)
  next
    case False
    with k zset_pair_short [OF ok, of "take (k - length ?u) (fst p @ be_bytes 8 (unat (snd p)))"]
    show ?thesis by (auto simp: enc_zset_pair_def enc_str_def)
  qed
qed

definition go_zset :: "(bytes \<times> float64) list \<Rightarrow> bool" where
  "go_zset z \<longleftrightarrow> gomap z \<and> length z < 2 ^ 63 \<and> list_all go_zpair z"

definition zset_encoding :: "(bytes \<times> float64) list \<Rightarrow> char" where
  "zset_encoding z =
     (if 128 < length z then byte 1
      else if list_ex (\<lambda>(m, _). 64 < length m) z then byte 1 else byte 0)"

lemma EncodeZSet_pairs:
  "EncodeZSet z = zset_encoding z # AppendUvarint (length (sortZSetPairs z))
     @ concat (map enc_zset_pair (sortZSetPairs z))"
proof -
  have "(\<lambda>(m, s). enc_str m @ be_bytes 8 (unat s)) = enc_zset_pair"
    by (simp add: fun_eq_iff enc_zset_pair_def)
  then show ?thesis by (simp add: EncodeZSet_def zset_encoding_def Let_def)
qed

lemma sortZSetPairs_props [simp]:
  "mset (sortZSetPairs z) = mset z" "set (sortZSetPairs z) = set z" "length (sortZSetPairs z) = length z"
  by (simp_all add: sortZSetPairs_def)

lemma distinct_keys_sort_zset: "gomap z \<Longrightarrow> distinct (keys_of (sortZSetPairs z))"
proof -
  assume "gomap z"
  moreover have "mset (keys_of (sortZSetPairs z)) = mset (keys_of z)" by (simp add: mset_map)
  then have "distinct (keys_of (sortZSetPairs z)) = distinct (keys_of z)"
    by (rule mset_eq_imp_distinct_iff)
  ultimately show ?thesis by (simp add: gomap_def)
qed

lemma DecodeZSet_EncodeZSet [codec_simps]:
  assumes "go_zset z"
  shows "DecodeZSet (EncodeZSet z @ junk) = Ok (gomap_of (sortZSetPairs z), zset_encoding z)"
proof -
  have "list_all go_zpair (sortZSetPairs z)" using assms by (simp add: go_zset_def list_all_iff)
  with assms show ?thesis
    using zset_codec.decode_loop_concat [of "sortZSetPairs z" 0 junk]
    by (simp add: DecodeZSet_def EncodeZSet_pairs go_zset_def uv_append)
qed

lemma map_of_decoded_zset:
  assumes "gomap z"
  shows "map_of (gomap_of (sortZSetPairs z)) = map_of z"
proof -
  have "map_of (sortZSetPairs z) = map_of z"
    using assms distinct_keys_sort_zset [OF assms]
    by (intro map_of_inject_set [THEN iffD2]) (simp_all add: gomap_def)
  with distinct_keys_sort_zset [OF assms] show ?thesis by (simp add: map_of_gomap_of)
qed

lemma sortZSetPairs_cong:
  assumes "gomap z" and "mset z = mset z'" and "list_all (\<lambda>p. \<not> IsNaN (snd p)) z"
  shows "sortZSetPairs z = sortZSetPairs z'"
  unfolding sortZSetPairs_def
proof (rule zset_order.insertion_sort_unique [OF assms(3,2)])
  fix a b
  assume ab: "a \<in> set z" "b \<in> set z" "\<not> zset_less a b" "\<not> zset_less b a"
  with assms(3) have "fst a = fst b"
    by (auto simp: zset_less_def f64_lt_def f64_eq_def list_all_iff)
  with ab(1,2) assms(1) show "a = b"
    by (metis eq_key_imp_eq_value gomap_def prod.collapse)
qed

subsection \<open>Vector sets (\<^verbatim>\<open>vector.go\<close>)\<close>

record VEntry =
  Vec :: "float64 list"
  Attr :: bytes

definition empty_VEntry :: VEntry where
  "empty_VEntry = \<lparr> Vec = [], Attr = [] \<rparr>"

fun check_dims :: "int \<Rightarrow> nat list \<Rightarrow> (ds_error, unit) res" where
  "check_dims dim [] = Ok ()"
| "check_dims dim (d # ds) =
     (if dim < 0 then check_dims (int d) ds
      else if int d \<noteq> dim then Err (DimMismatch d dim)
      else check_dims dim ds)"

definition enc_vector_entry :: "bytes \<times> VEntry \<Rightarrow> bytes" where
  "enc_vector_entry p =
     AppendUvarint (length (Vec (snd p))) @ concat (map (\<lambda>v. AppendUvarint (unat v)) (Vec (snd p)))
       @ enc_str (fst p) @ enc_str (Attr (snd p))"

definition EncodeVector :: "(bytes \<times> VEntry) list \<Rightarrow> (ds_error, bytes) res" where
  "EncodeVector m =
     (let names = sort (keys_of m)
      in bind_res (check_dims (-1) (map (\<lambda>n. length (Vec (getd empty_VEntry m n))) names)) (\<lambda>_.
           Ok (AppendUvarint (length names)
               @ concat (map (\<lambda>n. enc_vector_entry (n, getd empty_VEntry m n)) names))))"

definition vector_value :: "nat \<Rightarrow> bytes \<Rightarrow> (ds_error, float64 \<times> bytes) res" where
  "vector_value j rest =
     (case uv rest of None \<Rightarrow> Err (TruncatedVector ''value'')
      | Some (bits, rest) \<Rightarrow> Ok (of_nat bits, rest))"

definition vector_entry ::
  "int \<Rightarrow> bytes \<Rightarrow> (ds_error, ((bytes \<times> VEntry) \<times> int) \<times> bytes) res" where
  "vector_entry dim rest =
     bind_res (or_err (TruncatedVector ''dim'') (uv rest)) (\<lambda>(d, rest).
     let di = wrap64 (int d) in
     if 0 \<le> dim \<and> di \<noteq> dim then Err (DimMismatch d dim)
     else let dim = (if dim < 0 then di else dim) in
     if \<not> makeslice_ok 8 d then Panic else
     bind_res (decode_loop vector_value 0 d rest) (\<lambda>(vec, rest).
     bind_res (or_err (TruncatedVector ''name'') (dec_str rest)) (\<lambda>(name, rest).
     bind_res (or_err (TruncatedVector ''attr'') (dec_str rest)) (\<lambda>(attr, rest).
       Ok (((name, \<lparr> Vec = vec, Attr = attr \<rparr>), dim), rest)))))"

fun vector_loop :: "int \<Rightarrow> nat \<Rightarrow> bytes \<Rightarrow> (ds_error, (bytes \<times> VEntry) list) res" where
  "vector_loop dim 0 rest = Ok []"
| "vector_loop dim (Suc n) rest =
     bind_res (vector_entry dim rest) (\<lambda>((p, dim), rest).
       bind_res (vector_loop dim n rest) (\<lambda>ps. Ok (p # ps)))"

definition DecodeVector :: "bytes \<Rightarrow> (ds_error, (bytes \<times> VEntry) list) res" where
  "DecodeVector raw =
     (case uv raw of None \<Rightarrow> Err (TruncatedVector ''count'')
      | Some (cnt, rest) \<Rightarrow> bind_res (vector_loop (-1) cnt rest) (\<lambda>ps. Ok (gomap_of ps)))"

interpretation vector_values: trunc_codec "\<lambda>v. AppendUvarint (unat v)" vector_value "\<lambda>_. True"
proof
  fix v :: float64 and i k r
  show "vector_value i (AppendUvarint (unat v) @ r) = Ok (v, r)"
    using unat64_less [of v] by (simp add: vector_value_def uv_append)
  assume "k < length (AppendUvarint (unat v))"
  with unat64_less [of v] show "\<exists>e. vector_value i (take k (AppendUvarint (unat v))) = Err e"
    by (simp add: vector_value_def uv_truncated)
qed

definition go_vec :: "nat \<Rightarrow> bytes \<times> VEntry \<Rightarrow> bool" where
  "go_vec d p \<longleftrightarrow> length (Vec (snd p)) = d \<and> makeslice_ok 8 d \<and> go_str (fst p) \<and> go_str (Attr (snd p))"

lemma vector_entry_append:
  assumes "go_vec d p" and "dim < 0 \<or> dim = int d"
  shows "vector_entry dim (enc_vector_entry p @ r) = Ok ((p, int d), r)"
proof -
  from assms(1) have d: "length (Vec (snd p)) = d" "makeslice_ok 8 d" "d < 2 ^ 63"
    by (auto simp: go_vec_def makeslice_ok_def)
  let ?t = "enc_str (fst p) @ enc_str (Attr (snd p)) @ r"
  have "decode_loop vector_value 0 d (concat (map (\<lambda>v. AppendUvarint (unat v)) (Vec (snd p))) @ ?t)
      = Ok (Vec (snd p), ?t)"
    using vector_values.decode_loop_concat [of "Vec (snd p)" 0 ?t] d(1) by (simp add: list_all_iff)
  with assms d show ?thesis
    by (cases p) (auto simp: vector_entry_def enc_vector_entry_def uv_append wrap64_length Let_def
        codec_simps go_vec_def)
qed

lemma vector_loop_concat:
  assumes "list_all (go_vec d) ps" and "dim < 0 \<or> dim = int d"
  shows "vector_loop dim (length ps) (concat (map enc_vector_entry ps)) = Ok ps"
  using assms by (induction ps arbitrary: dim) (simp_all add: vector_entry_append [where d = d])

lemma check_dims_ok:
  assumes "dim < 0 \<or> dim = int d" and "list_all (\<lambda>x. x = d) ds"
  shows "check_dims dim ds = Ok ()"
  using assms by (induction ds arbitrary: dim) auto

definition go_vectorset :: "nat \<Rightarrow> (bytes \<times> VEntry) list \<Rightarrow> bool" where
  "go_vectorset d m \<longleftrightarrow> gomap m \<and> length m < 2 ^ 63 \<and> list_all (go_vec d) m"

lemma EncodeVector_Ok:
  assumes "go_vectorset d m"
  defines "ps \<equiv> map (\<lambda>n. (n, getd empty_VEntry m n)) (sort (keys_of m))"
  shows "EncodeVector m = Ok (AppendUvarint (length ps) @ concat (map enc_vector_entry ps))"
    and "list_all (go_vec d) ps" and "distinct (keys_of ps)" and "map_of ps = map_of m"
proof -
  show ok: "list_all (go_vec d) ps"
    using assms(1) by (auto simp: ps_def go_vectorset_def list_all_iff getd_in)
  then have "check_dims (-1) (map (\<lambda>n. length (Vec (getd empty_VEntry m n))) (sort (keys_of m))) = Ok ()"
    by (intro check_dims_ok [where d = d]) (auto simp: ps_def list_all_iff go_vec_def)
  then show "EncodeVector m = Ok (AppendUvarint (length ps) @ concat (map enc_vector_entry ps))"
    by (simp add: EncodeVector_def Let_def ps_def comp_def)
  show "distinct (keys_of ps)" using assms(1) by (simp add: ps_def go_vectorset_def gomap_def comp_def)
  show "map_of ps = map_of m" by (simp add: ps_def map_of_map_getd)
qed

lemma DecodeVector_EncodeVector:
  assumes "go_vectorset d m"
  shows "\<exists>raw m'. EncodeVector m = Ok raw \<and> DecodeVector raw = Ok m' \<and> gomap m' \<and> map_of m' = map_of m"
proof -
  define ps where "ps = map (\<lambda>n. (n, getd empty_VEntry m n)) (sort (keys_of m))"
  note enc = EncodeVector_Ok [OF assms, folded ps_def]
  have "length ps < 2 ^ 64" using assms by (simp add: ps_def go_vectorset_def)
  then have "DecodeVector (AppendUvarint (length ps) @ concat (map enc_vector_entry ps)) = Ok (gomap_of ps)"
    using vector_loop_concat [OF enc(2), of "-1"] by (simp add: DecodeVector_def uv_append)
  with enc show ?thesis by (simp add: map_of_gomap_of)
qed

subsection \<open>Key prefixes\<close>

definition StringKey :: "bytes \<Rightarrow> bytes" where "StringKey key = ''s:'' @ key"
definition ListKey :: "bytes \<Rightarrow> bytes" where "ListKey key = ''l:'' @ key"
definition HashKey :: "bytes \<Rightarrow> bytes" where "HashKey key = ''h:'' @ key"
definition HashExpKey :: "bytes \<Rightarrow> bytes" where "HashExpKey key = ''x:'' @ key"
definition SetKey :: "bytes \<Rightarrow> bytes" where "SetKey key = ''st:'' @ key"
definition ZSetKey :: "bytes \<Rightarrow> bytes" where "ZSetKey key = ''z:'' @ key"
definition VectorKey :: "bytes \<Rightarrow> bytes" where "VectorKey key = ''vs:'' @ key"

lemmas key_defs = StringKey_def ListKey_def HashKey_def HashExpKey_def SetKey_def ZSetKey_def
  VectorKey_def

lemma key_inj [simp]:
  "StringKey a = StringKey b \<longleftrightarrow> a = b" "ListKey a = ListKey b \<longleftrightarrow> a = b"
  "HashKey a = HashKey b \<longleftrightarrow> a = b" "HashExpKey a = HashExpKey b \<longleftrightarrow> a = b"
  "SetKey a = SetKey b \<longleftrightarrow> a = b" "ZSetKey a = ZSetKey b \<longleftrightarrow> a = b"
  "VectorKey a = VectorKey b \<longleftrightarrow> a = b"
  by (simp_all add: key_defs)

subsection \<open>The formats are sound\<close>

lemma go_str_code [code]: "go_str s \<longleftrightarrow> length s < 9223372036854775808"
  by (simp add: go_str_def)

text \<open>
  C11. A storage cell and its decoded form determine each other: decoding what \<^verbatim>\<open>Encode\<close> wrote gives
  back type, expiry and payload, whatever the expiry in the range of \<^verbatim>\<open>int64\<close>, and every cell
  that decodes is the encoding of what it decodes to.
\<close>

theorem entry_bijection:
  "(int64_range e \<longrightarrow> Decode (Encode t e p) = Ok \<lparr> Type = t, Expiry = e, Payload = p \<rparr>)
   \<and> (Decode raw = Ok c \<longrightarrow> Encode (Type c) (Expiry c) (Payload c) = raw)"
  by (simp add: Decode_Encode Encode_Decode)

theorem entry_bijection_witness:
  "Decode (Encode TypeHash (-5) ''pay'') = Ok \<lparr> Type = TypeHash, Expiry = -5, Payload = ''pay'' \<rparr>
   \<and> Encode TypeHash (-5) ''pay'' \<noteq> Encode TypeHash 5 ''pay''"
proof -
  have r: "int64_range (-5)" "int64_range 5" by (simp_all add: int64_range_def)
  note one = entry_bijection [of "-5" TypeHash "''pay''" "[]" undefined]
  note two = entry_bijection [of 5 TypeHash "''pay''" "[]" undefined]
  from one two r have "Decode (Encode TypeHash (-5) ''pay'') \<noteq> Decode (Encode TypeHash 5 ''pay'')" by simp
  with one r show ?thesis by auto
qed

lemma DecodeList_truncated:
  assumes "go_list xs" and "k < length (EncodeList xs)"
  shows "\<exists>e. DecodeList (take k (EncodeList xs)) = Err e"
proof (cases k)
  case 0
  then show ?thesis by (simp add: DecodeList_def)
next
  case (Suc k')
  from assms Suc have "k' < length (AppendUvarint (length xs) @ concat (map enc_str xs))"
    by (simp add: EncodeList_def Let_def)
  from list_codec.counted_truncated [OF _ go_list_length [OF assms(1)] this] assms(1)
  have "case uv (take k' (AppendUvarint (length xs) @ concat (map enc_str xs))) of None \<Rightarrow> True
         | Some (n, b) \<Rightarrow> n = length xs \<and> (\<exists>e. decode_loop list_elem 0 n b = Err e)"
    by (simp add: go_list_def)
  with Suc assms(1) show ?thesis
    by (auto simp: DecodeList_def EncodeList_def go_list_def Let_def split: option.splits)
qed

text \<open>
  The list format loses nothing and detects every truncation: decoding an encoded list gives
  its elements in order, bytes after it are ignored, and a payload cut off at any position is
  reported as an error instead of a shorter list.
\<close>

theorem list_roundtrip:
  assumes "go_list xs"
  shows "DecodeList (EncodeList xs @ junk) = Ok xs
    \<and> (k < length (EncodeList xs) \<longrightarrow> (\<exists>e. DecodeList (take k (EncodeList xs)) = Err e))"
  using assms by (simp add: DecodeList_EncodeList DecodeList_truncated)

theorem list_roundtrip_witness:
  "DecodeList (EncodeList [''a'', '''', ''bc''] @ ''!'') = Ok [''a'', '''', ''bc'']
   \<and> (\<exists>e. DecodeList (take 3 (EncodeList [''a'', '''', ''bc''])) = Err e)"
  using list_roundtrip [of "[''a'', '''', ''bc'']" "''!''" 3]
  by (simp add: go_list_def makeslice_ok_def go_str_def EncodeList_def AppendUvarint.simps enc_str_def)

lemma EncodeHash_cong:
  assumes "gomap m2" and "gomap m" and "map_of m2 = map_of m"
  shows "EncodeHash m2 = EncodeHash m"
proof -
  from assms have "mset m2 = mset m" by (rule gomap_mset_eq)
  with assms(3) show ?thesis
    using hash_encoding_cong [of m2 m] hash_pairs_cong [of m2 m] by (simp add: EncodeHash_pairs)
qed

lemma DecodeHash_truncated:
  assumes "go_hash m" and "k < length (EncodeHash m)"
  shows "\<exists>e. DecodeHash (take k (EncodeHash m)) = Err e"
proof (cases k)
  case 0
  then show ?thesis by (simp add: DecodeHash_def)
next
  case (Suc k')
  let ?b = "AppendUvarint (length (hash_pairs m)) @ concat (map enc_hash_pair (hash_pairs m))"
  from assms Suc have "k' < length ?b" by (simp add: EncodeHash_pairs)
  moreover from assms have "length (hash_pairs m) < 2 ^ 64" by (simp add: go_hash_def)
  ultimately have "case uv (take k' ?b) of None \<Rightarrow> True
      | Some (n, b) \<Rightarrow> n = length (hash_pairs m) \<and> (\<exists>e. decode_loop hash_pair 0 n b = Err e)"
    using hash_codec.counted_truncated [OF hash_pairs_ok [OF assms(1)]] by blast
  with Suc show ?thesis
    by (auto simp: DecodeHash_def EncodeHash_pairs split: option.splits)
qed

text \<open>
  C13. The hash format is a function of the map alone: decoding gives back a map with the same
  lookups, two Go maps with the same lookups are encoded to the same bytes whatever order Go
  iterates over them in, and every truncation is reported.
\<close>

theorem hash_roundtrip:
  assumes "go_hash m"
  shows "(\<exists>m'. DecodeHash (EncodeHash m @ junk) = Ok (m', hash_encoding m)
               \<and> gomap m' \<and> map_of m' = map_of m)
    \<and> (gomap m2 \<and> map_of m2 = map_of m \<longrightarrow> EncodeHash m2 = EncodeHash m)
    \<and> (k < length (EncodeHash m) \<longrightarrow> (\<exists>e. DecodeHash (take k (EncodeHash m)) = Err e))"
  using assms EncodeHash_cong [of m2 m]
  by (simp add: DecodeHash_EncodeHash map_of_decoded_hash DecodeHash_truncated go_hash_def)

theorem hash_roundtrip_witness:
  "(\<exists>m'. DecodeHash (EncodeHash [(''f'', ''1''), (''a'', '''')] @ ''!'') = Ok (m', byte 0)
         \<and> gomap m' \<and> map_of m' = map_of [(''f'', ''1''), (''a'', '''')])
   \<and> EncodeHash [(''a'', ''''), (''f'', ''1'')] = EncodeHash [(''f'', ''1''), (''a'', '''')]
   \<and> (\<exists>e. DecodeHash (take 3 (EncodeHash [(''f'', ''1''), (''a'', '''')])) = Err e)"
proof -
  have h: "go_hash [(''f'', ''1''), (''a'', '''')]" by (simp add: go_hash_def gomap_def go_str_def)
  have "3 < length (EncodeHash [(''f'', ''1''), (''a'', '''')])"
    by (simp add: EncodeHash_pairs hash_pairs_def AppendUvarint.simps enc_hash_pair_def enc_str_def)
  moreover have "gomap [(''a'', ''''), (''f'', ''1'')]" by (simp add: gomap_def)
  moreover have "map_of [(''a'', ''''), (''f'', ''1'')] = map_of [(''f'', ''1''), (''a'', '''')]"
    by (simp add: fun_eq_iff)
  moreover have "hash_encoding [(''f'', ''1''), (''a'', '''')] = byte 0" by (simp add: hash_encoding_def)
  ultimately show ?thesis
    using hash_roundtrip [OF h, of "''!''" "[(''a'', ''''), (''f'', ''1'')]" 3] by simp
qed

lemma DecodeZSet_truncated:
  assumes "go_zset z" and "k < length (EncodeZSet z)"
  shows "\<exists>e. DecodeZSet (take k (EncodeZSet z)) = Err e"
proof (cases k)
  case 0
  then show ?thesis by (simp add: DecodeZSet_def)
next
  case (Suc k')
  let ?ps = "sortZSetPairs z"
  let ?b = "AppendUvarint (length ?ps) @ concat (map enc_zset_pair ?ps)"
  from assms Suc have "k' < length ?b" by (simp add: EncodeZSet_pairs)
  moreover from assms have "length ?ps < 2 ^ 64" "list_all go_zpair ?ps"
    by (simp_all add: go_zset_def list_all_iff)
  ultimately have "case uv (take k' ?b) of None \<Rightarrow> True
      | Some (n, b) \<Rightarrow> n = length ?ps \<and> (\<exists>e. decode_loop zset_pair 0 n b = Err e)"
    using zset_codec.counted_truncated by blast
  with Suc show ?thesis
    by (auto simp: DecodeZSet_def EncodeZSet_pairs split: option.splits)
qed

lemma EncodeZSet_cong:
  assumes "gomap z" and "gomap z2" and "map_of z2 = map_of z" and "list_all (\<lambda>p. \<not> IsNaN (snd p)) z"
  shows "EncodeZSet z2 = EncodeZSet z"
proof -
  have m: "mset z = mset z2" using assms by (intro gomap_mset_eq) simp_all
  then have "zset_encoding z2 = zset_encoding z"
    using mset_eq_setD [OF m] mset_eq_length [OF m] by (simp add: zset_encoding_def list_ex_iff)
  with sortZSetPairs_cong [OF assms(1) m assms(4)] show ?thesis by (simp add: EncodeZSet_pairs)
qed

text \<open>
  C12. The sorted-set format: decoding gives back the same scores bit for bit, the pairs are written
  in the order of score and then member, the bytes do not depend on Go's iteration order as long
  as no score is NaN, and every truncation is reported.
\<close>

theorem zset_roundtrip:
  assumes "go_zset z" and "list_all (\<lambda>p. \<not> IsNaN (snd p)) z"
  shows "(\<exists>z'. DecodeZSet (EncodeZSet z @ junk) = Ok (z', zset_encoding z)
               \<and> gomap z' \<and> map_of z' = map_of z)
    \<and> sorted_wrt (\<lambda>p q. \<not> zset_less q p) (sortZSetPairs z)
    \<and> (gomap z2 \<and> map_of z2 = map_of z \<longrightarrow> EncodeZSet z2 = EncodeZSet z)
    \<and> (k < length (EncodeZSet z) \<longrightarrow> (\<exists>e. DecodeZSet (take k (EncodeZSet z)) = Err e))"
  using assms EncodeZSet_cong [of z z2] zset_order.insertion_sort_sorted [OF assms(2), folded sortZSetPairs_def]
  by (simp add: DecodeZSet_EncodeZSet map_of_decoded_zset DecodeZSet_truncated go_zset_def)

theorem zset_roundtrip_witness:
  "(\<exists>z'. DecodeZSet (EncodeZSet [(''b'', 0x3FF0000000000000), (''a'', 0xBFF0000000000000)])
           = Ok (z', byte 0) \<and> map_of z' ''a'' = Some 0xBFF0000000000000)
   \<and> sortZSetPairs [(''b'', 0x3FF0000000000000), (''a'', 0xBFF0000000000000)]
       = [(''a'', 0xBFF0000000000000), (''b'', 0x3FF0000000000000)]"
proof -
  let ?z = "[(''b'', 0x3FF0000000000000), (''a'', 0xBFF0000000000000)] :: (bytes \<times> float64) list"
  have h: "go_zset ?z" by (simp add: go_zset_def gomap_def go_str_def)
  have n: "list_all (\<lambda>p. \<not> IsNaN (snd p)) ?z" by (simp add: IsNaN_def f64_mag_def)
  have "zset_encoding ?z = byte 0" by (simp add: zset_encoding_def)
  moreover have "sortZSetPairs ?z = [(''a'', 0xBFF0000000000000), (''b'', 0x3FF0000000000000)]"
    by (simp add: sortZSetPairs_def insertion_sort_def zset_less_def f64_lt_def f64_eq_def
        IsNaN_def f64_mag_def f64_key_def)
  ultimately show ?thesis
    using zset_roundtrip [OF h n, of "[]" "[]" 0] by auto
qed

text \<open>
  The set format: whatever the order and the repetitions in the argument, encoding the same set
  of members gives the same bytes, and decoding them gives exactly those members, each once.
\<close>

theorem set_roundtrip:
  assumes "go_set ms"
  shows "(\<exists>s enc. DecodeSet (EncodeSet ms @ junk) = Ok (s, enc) \<and> set s = set ms \<and> distinct s)
    \<and> (set ms2 = set ms \<longrightarrow> EncodeSet ms2 = EncodeSet ms)"
  using DecodeSet_EncodeSet [OF assms, of junk] EncodeSet_cong [of ms2 ms] by simp

theorem set_roundtrip_witness:
  "(\<exists>s enc. DecodeSet (EncodeSet [''7'', ''10'', ''7''] @ ''!'') = Ok (s, enc)
            \<and> set s = {''7'', ''10''} \<and> distinct s)
   \<and> EncodeSet [''10'', ''7''] = EncodeSet [''7'', ''10'', ''7'']"
  using set_roundtrip [of "[''7'', ''10'', ''7'']" "''!''" "[''10'', ''7'']"]
  by (simp add: go_set_def go_str_def insert_commute)

text \<open>
  A vector set whose vectors share one dimension encodes without error, and decoding it gives
  back every vector, bit for bit, and every attribute.
\<close>

theorem vector_roundtrip:
  assumes "go_vectorset d m"
  shows "\<exists>raw m'. EncodeVector m = Ok raw \<and> DecodeVector raw = Ok m' \<and> gomap m' \<and> map_of m' = map_of m"
  by (rule DecodeVector_EncodeVector [OF assms])

theorem vector_roundtrip_witness:
  "\<exists>raw m'. EncodeVector [(''e'', \<lparr> Vec = [0, 0x3FF0000000000000], Attr = ''{}'' \<rparr>)] = Ok raw
     \<and> DecodeVector raw = Ok m'
     \<and> map_of m' ''e'' = Some \<lparr> Vec = [0, 0x3FF0000000000000], Attr = ''{}'' \<rparr>"
  using vector_roundtrip [of 2 "[(''e'', \<lparr> Vec = [0, 0x3FF0000000000000], Attr = ''{}'' \<rparr>)]"]
  by (fastforce simp: go_vectorset_def gomap_def go_vec_def makeslice_ok_def go_str_def)

text \<open>
  C25. The length check of \<^verbatim>\<open>DecodeZSet\<close> is passed by a member length whose sum with 8 wraps around:
  a payload that announces one member of \<open>2 ^ 64 - 1\<close> bytes and has seven or more bytes after
  it makes the decoder panic instead of returning an error.
\<close>

theorem zset_length_wraps:
  assumes "7 \<le> length r"
  shows "DecodeZSet (enc # AppendUvarint 1 @ AppendUvarint (2 ^ 64 - 1) @ r) = Panic"
proof -
  have u: "Uvarint (AppendUvarint (2 ^ 64 - 1) @ r) = (2 ^ 64 - 1, int (length (AppendUvarint (2 ^ 64 - 1))))"
    by (rule Uvarint_append) simp
  have "zset_pair 0 (AppendUvarint (2 ^ 64 - 1) @ r) = Panic"
    unfolding zset_pair_def u using assms by (simp add: wrap64_def)
  then show ?thesis
    using decode_loop.simps(2) [of zset_pair 0 0] by (simp add: DecodeZSet_def uv_append)
qed

theorem zset_length_wraps_witness:
  "DecodeZSet (byte 0 # AppendUvarint 1 @ AppendUvarint (2 ^ 64 - 1) @ ''1234567'') = Panic"
  by (rule zset_length_wraps) simp

end
