(* ===== verification/StreamDS.thy ===== *)
theory StreamDS
  imports Codec
begin

text \<open>
  Streams as \<^verbatim>\<open>internal/datastruct/stream.go\<close> keeps them: entry identifiers and their order, consumer
  groups with their pending entries lists (PEL), and the payload format. A \<^verbatim>\<open>uint64\<close> is a natural
  number below \<open>2 ^ 64\<close>.
\<close>

subsection \<open>Entry identifiers\<close>

datatype StreamID = SID (Ms: nat) (Seq: nat)

definition Less :: "StreamID \<Rightarrow> StreamID \<Rightarrow> bool" where
  "Less i j = (if Ms i \<noteq> Ms j then Ms i < Ms j else Seq i < Seq j)"

definition Compare :: "StreamID \<Rightarrow> StreamID \<Rightarrow> int" where
  "Compare i j = (if Less i j then -1 else if Less j i then 1 else 0)"

text \<open>The library's order on identifiers is the \<^verbatim>\<open>Less\<close> of the source.\<close>

instantiation StreamID :: linorder
begin

definition less_StreamID :: "StreamID \<Rightarrow> StreamID \<Rightarrow> bool" where
  "i < j \<longleftrightarrow> Less i j"

definition less_eq_StreamID :: "StreamID \<Rightarrow> StreamID \<Rightarrow> bool" where
  "i \<le> j \<longleftrightarrow> \<not> Less j i"

instance
proof
  fix x y z :: StreamID
  show "(x < y) = (x \<le> y \<and> \<not> y \<le> x)" "x \<le> x" "x \<le> y \<or> y \<le> x"
    by (auto simp: less_StreamID_def less_eq_StreamID_def Less_def split: if_splits)
  show "x \<le> y \<Longrightarrow> y \<le> z \<Longrightarrow> x \<le> z"
    by (auto simp: less_eq_StreamID_def Less_def split: if_splits)
  show "x \<le> y \<Longrightarrow> y \<le> x \<Longrightarrow> x = y"
    by (cases x; cases y) (auto simp: less_eq_StreamID_def Less_def split: if_splits)
qed

end

definition StreamID_String :: "StreamID \<Rightarrow> string" where
  "StreamID_String i = FormatUint (Ms i) @ ''-'' @ FormatUint (Seq i)"

text \<open>The boolean says that the sequence number (or the whole identifier) is left to the server.\<close>

definition StreamParseID :: "string \<Rightarrow> (StreamID \<times> bool) option" where
  "StreamParseID s =
     (if s = ''*'' then Some (SID 0 0, True)
      else case Cut s (CHR ''-'') of
        None \<Rightarrow> (case ParseUint s of None \<Rightarrow> None | Some ms \<Rightarrow> Some (SID ms 0, False))
      | Some (msStr, seqStr) \<Rightarrow>
          (case ParseUint msStr of None \<Rightarrow> None
           | Some ms \<Rightarrow>
               if seqStr = ''*'' then Some (SID ms 0, True)
               else (case ParseUint seqStr of None \<Rightarrow> None
                     | Some seq \<Rightarrow> if CHR ''-'' \<in> set seqStr then None else Some (SID ms seq, False))))"

definition StreamMinID :: StreamID where "StreamMinID = SID 0 0"
definition StreamMaxID :: StreamID where "StreamMaxID = SID (2 ^ 64 - 1) (2 ^ 64 - 1)"

definition go_id :: "StreamID \<Rightarrow> bool" where
  "go_id i \<longleftrightarrow> Ms i < 2 ^ 64 \<and> Seq i < 2 ^ 64"

subsection \<open>Entries, groups, pending entries\<close>

record StreamEntry =
  entID :: StreamID
  Fields_of :: "bytes list"

record StreamPEL =
  pelID :: StreamID
  Consumer :: bytes
  DeliveryMs :: nat
  Cnt :: nat

record StreamConsumer =
  ConName :: bytes
  SeenMs :: nat
  ActiveMs :: nat
  HasActive :: bool

record StreamGroup =
  GrpName :: bytes
  LastID :: StreamID
  EntriesRead :: nat
  HasRead :: bool
  Consumers :: "StreamConsumer list"
  PEL :: "StreamPEL list"

record Strm =
  Entries :: "StreamEntry list"
  Last :: StreamID
  HasLast :: bool
  Added :: nat
  MaxDeleted :: StreamID
  Groups :: "StreamGroup list"

fun find_index :: "('a \<Rightarrow> bool) \<Rightarrow> 'a list \<Rightarrow> int" where
  "find_index P [] = -1"
| "find_index P (x # xs) = (if P x then 0 else let i = find_index P xs in if i < 0 then -1 else i + 1)"

definition FindConsumer :: "StreamGroup \<Rightarrow> bytes \<Rightarrow> int" where
  "FindConsumer g name = find_index (\<lambda>c. ConName c = name) (Consumers g)"

definition EnsureConsumer :: "StreamGroup \<Rightarrow> bytes \<Rightarrow> nat \<Rightarrow> StreamGroup \<times> int" where
  "EnsureConsumer g name nowMs =
     (let i = FindConsumer g name in
      if 0 \<le> i then (g, i)
      else let cs = Consumers g @ [\<lparr> ConName = name, SeenMs = nowMs, ActiveMs = 0, HasActive = False \<rparr>]
           in (g\<lparr> Consumers := cs \<rparr>, int (length cs) - 1))"

definition FindPEL :: "StreamGroup \<Rightarrow> StreamID \<Rightarrow> StreamPEL option" where
  "FindPEL g i = find (\<lambda>p. pelID p = i) (PEL g)"

fun upsert_pel :: "StreamPEL \<Rightarrow> StreamPEL list \<Rightarrow> StreamPEL list" where
  "upsert_pel p [] = [p]"
| "upsert_pel p (e # es) =
     (if pelID e = pelID p then p # es
      else if Less (pelID p) (pelID e) then p # e # es
      else e # upsert_pel p es)"

definition UpsertPEL :: "StreamGroup \<Rightarrow> StreamPEL \<Rightarrow> StreamGroup" where
  "UpsertPEL g p = g\<lparr> PEL := upsert_pel p (PEL g) \<rparr>"

fun del_pel :: "StreamID \<Rightarrow> StreamPEL list \<Rightarrow> StreamPEL list \<times> bool" where
  "del_pel i [] = ([], False)"
| "del_pel i (e # es) =
     (if pelID e = i then (es, True) else case del_pel i es of (es', b) \<Rightarrow> (e # es', b))"

definition DelPEL :: "StreamGroup \<Rightarrow> StreamID \<Rightarrow> StreamGroup \<times> bool" where
  "DelPEL g i = (case del_pel i (PEL g) of (pel, hit) \<Rightarrow> (g\<lparr> PEL := pel \<rparr>, hit))"

definition StreamNew :: Strm where
  "StreamNew = \<lparr> Entries = [], Last = SID 0 0, HasLast = False, Added = 0, MaxDeleted = SID 0 0, Groups = [] \<rparr>"

definition StreamAdd :: "Strm \<Rightarrow> StreamID \<Rightarrow> bytes list \<Rightarrow> Strm" where
  "StreamAdd s i fs = s\<lparr> Entries := Entries s @ [\<lparr> entID = i, Fields_of = fs \<rparr>] \<rparr>"

definition Top :: "Strm \<Rightarrow> StreamID \<times> bool" where
  "Top s = (if Entries s = [] then (SID 0 0, False) else (entID (last (Entries s)), True))"

definition StreamKey :: "bytes \<Rightarrow> bytes" where
  "StreamKey key = ''x:'' @ key"

subsection \<open>The payload format\<close>

definition enc_bool :: "bool \<Rightarrow> bytes" where
  "enc_bool b = AppendUvarint (if b then 1 else 0)"

definition enc_id :: "StreamID \<Rightarrow> bytes" where
  "enc_id i = AppendUvarint (Ms i) @ AppendUvarint (Seq i)"

definition enc_entry :: "StreamEntry \<Rightarrow> bytes" where
  "enc_entry e = enc_id (entID e) @ AppendUvarint (length (Fields_of e)) @ concat (map enc_str (Fields_of e))"

definition enc_consumer :: "StreamConsumer \<Rightarrow> bytes" where
  "enc_consumer c = enc_str (ConName c) @ AppendUvarint (SeenMs c) @ enc_bool (HasActive c) @ AppendUvarint (ActiveMs c)"

definition enc_pel :: "StreamPEL \<Rightarrow> bytes" where
  "enc_pel p = enc_id (pelID p) @ enc_str (Consumer p) @ AppendUvarint (DeliveryMs p) @ AppendUvarint (Cnt p)"

definition enc_group :: "StreamGroup \<Rightarrow> bytes" where
  "enc_group g = enc_str (GrpName g) @ enc_id (LastID g) @ enc_bool (HasRead g)
     @ AppendUvarint (EntriesRead g)
     @ AppendUvarint (length (Consumers g)) @ concat (map enc_consumer (Consumers g))
     @ AppendUvarint (length (PEL g)) @ concat (map enc_pel (PEL g))"

definition EncodeStream :: "Strm \<Rightarrow> bytes" where
  "EncodeStream s =
     AppendUvarint (length (Entries s)) @ concat (map enc_entry (Entries s))
     @ enc_id (Last s) @ enc_bool (HasLast s) @ AppendUvarint (Added s) @ enc_id (MaxDeleted s)
     @ AppendUvarint (length (Groups s)) @ concat (map enc_group (Groups s))"

definition readUvarint :: "bytes \<Rightarrow> nat \<times> bytes \<times> bool" where
  "readUvarint b = (case Uvarint b of (n, adv) \<Rightarrow>
     if adv \<le> 0 then (0, b, False) else (n, drop (nat adv) b, True))"

definition readStreamStr :: "bytes \<Rightarrow> bytes \<times> bytes \<times> bool" where
  "readStreamStr b = (case Uvarint b of (n, adv) \<Rightarrow>
     if adv \<le> 0 \<or> length (drop (nat adv) b) < n then ([], b, False)
     else (take n (drop (nat adv) b), drop (nat adv + n) b, True))"

text \<open>\<^verbatim>\<open>if x, rest, ok = read(rest); !ok { return bad() }\<close>.\<close>

definition orbad :: "'a \<times> bytes \<times> bool \<Rightarrow> (ds_error, 'a \<times> bytes) res" where
  "orbad t = (case t of (x, rest, ok) \<Rightarrow> if ok then Ok (x, rest) else Err (BadStream ''payload''))"

definition getU :: "bytes \<Rightarrow> (ds_error, nat \<times> bytes) res" where
  "getU rest = orbad (readUvarint rest)"

definition getS :: "nat \<Rightarrow> bytes \<Rightarrow> (ds_error, bytes \<times> bytes) res" where
  "getS j rest = orbad (readStreamStr rest)"

definition getID :: "bytes \<Rightarrow> (ds_error, StreamID \<times> bytes) res" where
  "getID rest = bind_res (getU rest) (\<lambda>(ms, rest). bind_res (getU rest) (\<lambda>(seq, rest). Ok (SID ms seq, rest)))"

definition dec_entry :: "nat \<Rightarrow> bytes \<Rightarrow> (ds_error, StreamEntry \<times> bytes) res" where
  "dec_entry i rest =
     bind_res (getID rest) (\<lambda>(sid, rest).
     bind_res (getU rest) (\<lambda>(nf, rest).
     bind_res (decode_loop getS 0 nf rest) (\<lambda>(fs, rest).
       if length fs mod 2 \<noteq> 0 then Err (BadStream ''payload'')
       else Ok (\<lparr> entID = sid, Fields_of = fs \<rparr>, rest))))"

definition dec_consumer :: "nat \<Rightarrow> bytes \<Rightarrow> (ds_error, StreamConsumer \<times> bytes) res" where
  "dec_consumer j rest =
     bind_res (getS 0 rest) (\<lambda>(name, rest).
     bind_res (getU rest) (\<lambda>(seen, rest).
     bind_res (getU rest) (\<lambda>(ha, rest).
     bind_res (getU rest) (\<lambda>(act, rest).
       Ok (\<lparr> ConName = name, SeenMs = seen, ActiveMs = act, HasActive = (ha \<noteq> 0) \<rparr>, rest)))))"

definition dec_pel :: "nat \<Rightarrow> bytes \<Rightarrow> (ds_error, StreamPEL \<times> bytes) res" where
  "dec_pel j rest =
     bind_res (getID rest) (\<lambda>(sid, rest).
     bind_res (getS 0 rest) (\<lambda>(con, rest).
     bind_res (getU rest) (\<lambda>(del, rest).
     bind_res (getU rest) (\<lambda>(n, rest).
       Ok (\<lparr> pelID = sid, Consumer = con, DeliveryMs = del, Cnt = n \<rparr>, rest)))))"

definition dec_group :: "nat \<Rightarrow> bytes \<Rightarrow> (ds_error, StreamGroup \<times> bytes) res" where
  "dec_group i rest =
     bind_res (getS 0 rest) (\<lambda>(name, rest).
     bind_res (getID rest) (\<lambda>(lastid, rest).
     bind_res (getU rest) (\<lambda>(hr, rest).
     bind_res (getU rest) (\<lambda>(er, rest).
     bind_res (getU rest) (\<lambda>(nc, rest).
     bind_res (decode_loop dec_consumer 0 nc rest) (\<lambda>(cs, rest).
     bind_res (getU rest) (\<lambda>(np, rest).
     bind_res (decode_loop dec_pel 0 np rest) (\<lambda>(ps, rest).
       Ok (\<lparr> GrpName = name, LastID = lastid, EntriesRead = er, HasRead = (hr \<noteq> 0),
             Consumers = cs, PEL = ps \<rparr>, rest)))))))))"

text \<open>The two reads of \<^verbatim>\<open>Last\<close> discard the flag and test \<^verbatim>\<open>rest == nil\<close>, which never holds: on a
  failed read \<open>rest\<close> stays as it is and the next read sees the same bytes.\<close>

definition DecodeStream :: "bytes \<Rightarrow> (ds_error, Strm) res" where
  "DecodeStream raw =
     bind_res (getU raw) (\<lambda>(n, rest).
     bind_res (decode_loop dec_entry 0 n rest) (\<lambda>(es, rest).
     case readUvarint rest of (lms, rest, _) \<Rightarrow>
     case readUvarint rest of (lseq, rest, _) \<Rightarrow>
     bind_res (getU rest) (\<lambda>(hasLast, rest).
     bind_res (getU rest) (\<lambda>(added, rest).
     bind_res (getID rest) (\<lambda>(md, rest).
     bind_res (getU rest) (\<lambda>(ng, rest).
     bind_res (decode_loop dec_group 0 ng rest) (\<lambda>(gs, rest).
       Ok \<lparr> Entries = es, Last = SID lms lseq, HasLast = (hasLast \<noteq> 0), Added = added,
            MaxDeleted = md, Groups = gs \<rparr>)))))))"

subsection \<open>Round trip\<close>

lemma getU_append [codec_simps]: "n < 2 ^ 64 \<Longrightarrow> getU (AppendUvarint n @ r) = Ok (n, r)"
  by (simp add: getU_def orbad_def readUvarint_def Uvarint_append)

lemma getS_append [codec_simps]: "go_str s \<Longrightarrow> getS j (enc_str s @ r) = Ok (s, r)"
  by (simp add: getS_def orbad_def readStreamStr_def enc_str_def Uvarint_append go_str_def)

lemma getU_bool [codec_simps]: "getU (enc_bool b @ r) = Ok ((if b then 1 else 0), r)"
  by (simp add: enc_bool_def getU_append)

lemma getID_append [codec_simps]: "go_id i \<Longrightarrow> getID (enc_id i @ r) = Ok (i, r)"
  by (simp add: getID_def enc_id_def go_id_def getU_append)

definition go_entry :: "StreamEntry \<Rightarrow> bool" where
  "go_entry e \<longleftrightarrow> go_id (entID e) \<and> length (Fields_of e) < 2 ^ 63 \<and> list_all go_str (Fields_of e)
     \<and> even (length (Fields_of e))"

definition go_consumer :: "StreamConsumer \<Rightarrow> bool" where
  "go_consumer c \<longleftrightarrow> go_str (ConName c) \<and> SeenMs c < 2 ^ 64 \<and> ActiveMs c < 2 ^ 64"

definition go_pel :: "StreamPEL \<Rightarrow> bool" where
  "go_pel p \<longleftrightarrow> go_id (pelID p) \<and> go_str (Consumer p) \<and> DeliveryMs p < 2 ^ 64 \<and> Cnt p < 2 ^ 64"

definition go_group :: "StreamGroup \<Rightarrow> bool" where
  "go_group g \<longleftrightarrow> go_str (GrpName g) \<and> go_id (LastID g) \<and> EntriesRead g < 2 ^ 64
     \<and> length (Consumers g) < 2 ^ 63 \<and> list_all go_consumer (Consumers g)
     \<and> length (PEL g) < 2 ^ 63 \<and> list_all go_pel (PEL g)"

definition go_stream :: "Strm \<Rightarrow> bool" where
  "go_stream s \<longleftrightarrow> length (Entries s) < 2 ^ 63 \<and> list_all go_entry (Entries s) \<and> go_id (Last s)
     \<and> Added s < 2 ^ 64 \<and> go_id (MaxDeleted s) \<and> length (Groups s) < 2 ^ 63 \<and> list_all go_group (Groups s)"

interpretation field_codec: prefix_codec enc_str getS go_str
  by unfold_locales (rule getS_append)

interpretation entry_codec: prefix_codec enc_entry dec_entry go_entry
  by unfold_locales
    (simp add: go_entry_def dec_entry_def enc_entry_def getID_append getU_append
      field_codec.decode_loop_concat even_iff_mod_2_eq_zero)

interpretation consumer_codec: prefix_codec enc_consumer dec_consumer go_consumer
  by unfold_locales (simp add: go_consumer_def dec_consumer_def enc_consumer_def codec_simps)

interpretation pel_codec: prefix_codec enc_pel dec_pel go_pel
  by unfold_locales (simp add: go_pel_def dec_pel_def enc_pel_def codec_simps)

interpretation group_codec: prefix_codec enc_group dec_group go_group
  by unfold_locales
    (simp add: go_group_def dec_group_def enc_group_def codec_simps consumer_codec.decode_loop_concat
      pel_codec.decode_loop_concat)

lemma readUvarint_append: "n < 2 ^ 64 \<Longrightarrow> readUvarint (AppendUvarint n @ r) = (n, r, True)"
  by (simp add: readUvarint_def Uvarint_append)

lemma DecodeStream_EncodeStream [codec_simps]:
  assumes "go_stream s"
  shows "DecodeStream (EncodeStream s @ junk) = Ok s"
proof -
  have "enc_id (Last s) = AppendUvarint (Ms (Last s)) @ AppendUvarint (Seq (Last s))"
    by (simp add: enc_id_def)
  with assms show ?thesis
    by (simp add: go_stream_def go_id_def [of "Last s"] DecodeStream_def EncodeStream_def getU_append
        getU_bool getID_append readUvarint_append entry_codec.decode_loop_concat
        group_codec.decode_loop_concat)
qed

subsection \<open>Pending entries lists\<close>

text \<open>The list is kept strictly ascending by identifier; under this invariant it is a map.\<close>

definition pel_sorted :: "StreamPEL list \<Rightarrow> bool" where
  "pel_sorted ps \<longleftrightarrow> sorted_wrt (<) (map pelID ps)"

definition find_pel :: "StreamPEL list \<Rightarrow> StreamID \<Rightarrow> StreamPEL option" where
  "find_pel ps i = find (\<lambda>p. pelID p = i) ps"

lemma set_upsert_pel: "set (map pelID (upsert_pel p ps)) = insert (pelID p) (set (map pelID ps))"
  by (induction ps) auto

lemma pel_sorted_upsert: "pel_sorted ps \<Longrightarrow> pel_sorted (upsert_pel p ps)"
proof (induction ps)
  case (Cons e ps)
  show ?case
  proof (cases "pelID e = pelID p \<or> Less (pelID p) (pelID e)")
    case True
    with Cons.prems show ?thesis
      by (auto simp: pel_sorted_def less_StreamID_def [symmetric] intro: less_trans)
  next
    case False
    then have "pelID e < pelID p" by (auto simp: less_StreamID_def [symmetric] not_less order_le_less)
    with False Cons set_upsert_pel [of p ps] show ?thesis
      by (simp add: pel_sorted_def)
  qed
qed (simp add: pel_sorted_def)

lemma find_pel_upsert:
  "pel_sorted ps \<Longrightarrow> find_pel (upsert_pel p ps) i = (if i = pelID p then Some p else find_pel ps i)"
proof (induction ps)
  case (Cons e ps)
  then show ?case
    by (auto simp: pel_sorted_def find_pel_def)
qed (simp add: find_pel_def)

lemma find_pel_None: "find_pel ps i = None \<longleftrightarrow> i \<notin> set (map pelID ps)"
  by (induction ps) (auto simp: find_pel_def)

lemma del_pel_eq: "pel_sorted ps \<Longrightarrow> del_pel i ps = (filter (\<lambda>p. pelID p \<noteq> i) ps, i \<in> set (map pelID ps))"
proof (induction ps)
  case (Cons e ps)
  then have "pel_sorted ps" by (simp add: pel_sorted_def)
  moreover have "filter (\<lambda>p. pelID p \<noteq> pelID e) ps = ps"
    using Cons.prems by (auto simp: pel_sorted_def filter_id_conv)
  ultimately show ?case using Cons.IH by auto
qed simp

lemma pel_sorted_del: "pel_sorted ps \<Longrightarrow> pel_sorted (fst (del_pel i ps))"
  by (simp add: del_pel_eq pel_sorted_def sorted_wrt_map sorted_wrt_filter)

lemma find_pel_del:
  assumes "pel_sorted ps"
  shows "find_pel (fst (del_pel i ps)) j = (if j = i then None else find_pel ps j)"
proof -
  have "find_pel (filter (\<lambda>p. pelID p \<noteq> i) ps) j = (if j = i then None else find_pel ps j)"
    by (induction ps) (auto simp: find_pel_def)
  then show ?thesis using assms by (simp add: del_pel_eq)
qed

interpretation pel_map: keyed pel_sorted find_pel "\<lambda>_. upsert_pel" "\<lambda>i ps. fst (del_pel i ps)"
  "\<lambda>i p. pelID p = i"
  by unfold_locales (auto simp: pel_sorted_upsert find_pel_upsert pel_sorted_del find_pel_del)

subsection \<open>Streams are sound\<close>

text \<open>
  C14. The stream format loses nothing: entries with their fields, the last and the greatest deleted
  identifier, the counters, and every group with its consumers and its pending entries come back.
\<close>

theorem stream_roundtrip:
  assumes "go_stream s"
  shows "DecodeStream (EncodeStream s @ junk) = Ok s"
  by (rule DecodeStream_EncodeStream [OF assms])

definition stream_example :: Strm where
  "stream_example = \<lparr> Entries = [\<lparr> entID = SID 5 1, Fields_of = [''f'', ''v''] \<rparr>], Last = SID 5 1,
     HasLast = True, Added = 1, MaxDeleted = SID 0 0,
     Groups = [\<lparr> GrpName = ''g'', LastID = SID 5 1, EntriesRead = 1, HasRead = True,
        Consumers = [\<lparr> ConName = ''c'', SeenMs = 7, ActiveMs = 300, HasActive = True \<rparr>],
        PEL = [\<lparr> pelID = SID 5 1, Consumer = ''c'', DeliveryMs = 300, Cnt = 2 \<rparr>] \<rparr>] \<rparr>"

theorem stream_roundtrip_witness:
  "DecodeStream (EncodeStream stream_example @ ''x'') = Ok stream_example"
  by (rule stream_roundtrip)
    (simp add: go_stream_def stream_example_def go_entry_def go_id_def go_group_def
      go_consumer_def go_pel_def go_str_def)

text \<open>
  C15. A pending entries list that is strictly ascending stays so under \<^verbatim>\<open>UpsertPEL\<close> and \<^verbatim>\<open>DelPEL\<close>;
  after an upsert \<^verbatim>\<open>FindPEL\<close> finds the new record under its identifier and everything else as
  before, after a deletion it finds everything but the deleted identifier, and the flag of
  \<^verbatim>\<open>DelPEL\<close> says whether there was something to delete.
\<close>

theorem pel_operations:
  assumes "pel_sorted (PEL g)"
  shows "pel_sorted (PEL (UpsertPEL g p)) \<and> pel_sorted (PEL (fst (DelPEL g i)))
    \<and> FindPEL (UpsertPEL g p) j = (if j = pelID p then Some p else FindPEL g j)
    \<and> FindPEL (fst (DelPEL g i)) j = (if j = i then None else FindPEL g j)
    \<and> snd (DelPEL g i) = (FindPEL g i \<noteq> None)"
proof -
  have f: "FindPEL h k = find_pel (PEL h) k" for h k by (simp add: FindPEL_def find_pel_def)
  have d: "PEL (fst (DelPEL g i)) = fst (del_pel i (PEL g))" "snd (DelPEL g i) = snd (del_pel i (PEL g))"
    by (simp_all add: DelPEL_def split: prod.split)
  from assms show ?thesis
    using pel_map.inv_upd [of "PEL g" p "pelID p"] pel_map.find_upd [of "PEL g" p "pelID p" j]
      pel_map.inv_del [of "PEL g" i] pel_map.find_del [of "PEL g" i j] find_pel_None [of "PEL g" i]
    by (auto simp: f d UpsertPEL_def del_pel_eq)
qed

definition pel_example :: StreamGroup where
  "pel_example = \<lparr> GrpName = ''g'', LastID = SID 9 0, EntriesRead = 2, HasRead = True, Consumers = [],
     PEL = [\<lparr> pelID = SID 3 0, Consumer = ''a'', DeliveryMs = 1, Cnt = 1 \<rparr>,
            \<lparr> pelID = SID 9 0, Consumer = ''b'', DeliveryMs = 1, Cnt = 1 \<rparr>] \<rparr>"

theorem pel_operations_witness:
  "map pelID (PEL (UpsertPEL pel_example \<lparr> pelID = SID 3 7, Consumer = ''c'', DeliveryMs = 2, Cnt = 1 \<rparr>))
     = [SID 3 0, SID 3 7, SID 9 0]
   \<and> pel_sorted (PEL (UpsertPEL pel_example \<lparr> pelID = SID 3 7, Consumer = ''c'', DeliveryMs = 2, Cnt = 1 \<rparr>))
   \<and> snd (DelPEL pel_example (SID 9 0)) \<and> \<not> snd (DelPEL pel_example (SID 9 1))"
proof -
  have "pel_sorted (PEL pel_example)"
    by (simp add: pel_sorted_def pel_example_def less_StreamID_def Less_def)
  from pel_operations [OF this, of "\<lparr> pelID = SID 3 7, Consumer = ''c'', DeliveryMs = 2, Cnt = 1 \<rparr>" "SID 9 0" "SID 0 0"]
    pel_operations [OF this, of "\<lparr> pelID = SID 3 7, Consumer = ''c'', DeliveryMs = 2, Cnt = 1 \<rparr>" "SID 9 1" "SID 0 0"]
  show ?thesis by (simp add: UpsertPEL_def pel_example_def Less_def FindPEL_def)
qed

text \<open>
  Identifiers print and parse back: the text of an identifier parses to that identifier, with
  nothing left to the server, and \<^verbatim>\<open>Compare\<close> is the sign of the lexicographic order.
\<close>

theorem stream_id_roundtrip:
  assumes "go_id i"
  shows "StreamParseID (StreamID_String i) = Some (i, False)
    \<and> Compare i j = (if (Ms i, Seq i) = (Ms j, Seq j) then 0
                     else if Ms i < Ms j \<or> (Ms i = Ms j \<and> Seq i < Seq j) then -1 else 1)"
proof -
  have nd: "CHR ''-'' \<notin> set (FormatUint n)" for n
    using FormatUint_chars is_digit_not_sign by blast
  obtain c t where c: "FormatUint (Ms i) = c # t" "is_digit c" using FormatUint_Cons by blast
  have "StreamID_String i \<noteq> ''*''" "FormatUint (Seq i) \<noteq> ''*''"
    using FormatUint_chars [of "CHR ''*''" "Seq i"] c
    by (auto simp: StreamID_String_def is_digit_def ord_def)
  moreover have "Cut (StreamID_String i) (CHR ''-'') = Some (FormatUint (Ms i), FormatUint (Seq i))"
    using Cut_append [OF nd] by (simp add: StreamID_String_def)
  ultimately have "StreamParseID (StreamID_String i) = Some (SID (Ms i) (Seq i), False)"
    using assms nd by (simp add: StreamParseID_def go_id_def)
  then show ?thesis by (auto simp: Compare_def Less_def)
qed

theorem stream_id_roundtrip_witness:
  "StreamParseID ''1526919030474-55'' = Some (SID 1526919030474 55, False)
   \<and> Compare (SID 1526919030474 55) (SID 1526919030474 56) = -1"
proof -
  have "StreamID_String (SID 1526919030474 55) = ''1526919030474-55''"
    by (simp add: StreamID_String_def FormatUint.simps digit_char_def byte_char_iff ord_def)
  with stream_id_roundtrip [of "SID 1526919030474 55" "SID 1526919030474 56"]
  show ?thesis by (simp add: go_id_def)
qed

end
