(* ===== verification/GoFloat.thy ===== *)
theory GoFloat
  imports Codec
begin

text \<open>
  Floating-point numbers of Go as the commands use them: the value of a bit pattern, correctly rounded
  conversion (nearest, ties to even), addition and multiplication, and the conversions of \<^verbatim>\<open>strconv\<close>:
  \<^verbatim>\<open>ParseFloat\<close> and the shortest forms of \<^verbatim>\<open>FormatFloat\<close>. The last section shows that \<^verbatim>\<open>ParseFloat\<close> reads
  back what \<^verbatim>\<open>FormatFloat\<close> prints.
\<close>

subsection \<open>Values and rounding\<close>

text \<open>A finite magnitude \<open>n\<close> (the pattern without its sign bit) has the value \<open>f64_mant n * 2 ^ (f64_exp n - 1075)\<close>.\<close>

abbreviation inf_mag :: nat where
  "inf_mag \<equiv> 0x7FF0000000000000"

definition f64_neg :: "float64 \<Rightarrow> bool" where
  "f64_neg f \<longleftrightarrow> 2 ^ 63 \<le> unat f"

definition f64_exp :: "nat \<Rightarrow> nat" where
  "f64_exp n = max 1 (n div 2 ^ 52)"

definition f64_mant :: "nat \<Rightarrow> nat" where
  "f64_mant n = n mod 2 ^ 52 + (if n div 2 ^ 52 = 0 then 0 else 2 ^ 52)"

definition f64_frac :: "nat \<Rightarrow> nat \<times> nat" where
  "f64_frac n =
     (if 1075 \<le> f64_exp n then (f64_mant n * 2 ^ (f64_exp n - 1075), 1) else (f64_mant n, 2 ^ (1075 - f64_exp n)))"

definition f64_of :: "bool \<Rightarrow> nat \<Rightarrow> float64" where
  "f64_of neg n = of_nat (n + (if neg then 2 ^ 63 else 0))"

definition f64_nan :: float64 where
  "f64_nan = 0x7FF8000000000001"

fun nbits :: "nat \<Rightarrow> nat" where
  "nbits n = (if n = 0 then 0 else Suc (nbits (n div 2)))"

declare nbits.simps [simp del]

definition round_div :: "nat \<Rightarrow> nat \<Rightarrow> nat" where
  "round_div a b =
     (let q = a div b; r = a mod b in if 2 * r < b \<or> (2 * r = b \<and> even q) then q else q + 1)"

text \<open>The magnitude nearest to \<open>p / q\<close>: \<open>s\<close> is the exponent, counted from that of the subnormal numbers, at
  which the quotient has 53 bits. A mantissa that rounds up to \<open>2 ^ 53\<close> carries into the exponent, and
  what does not fit is infinite.\<close>

definition f64_scale :: "nat \<Rightarrow> nat \<Rightarrow> nat" where
  "f64_scale p q =
     (let A = nbits p; B = nbits q
      in (A + 1074 - B) + (if q * 2 ^ A \<le> p * 2 ^ B then 1 else 0) - 53)"

definition f64_round :: "nat \<Rightarrow> nat \<Rightarrow> nat" where
  "f64_round p q =
     (if p = 0 then 0
      else let s = f64_scale p q;
               m = (if s \<le> 1074 then round_div (p * 2 ^ (1074 - s)) q else round_div p (q * 2 ^ (s - 1074)))
           in min inf_mag (s * 2 ^ 52 + m))"

subsection \<open>Arithmetic\<close>

text \<open>The sign of an exact zero sum is negative only when both operands are; a NaN result is represented by the
  pattern of \<^verbatim>\<open>math.NaN()\<close>.\<close>

definition f64_add :: "float64 \<Rightarrow> float64 \<Rightarrow> float64" where
  "f64_add a b =
     (if IsNaN a \<or> IsNaN b \<or> (IsInf a \<and> IsInf b \<and> f64_neg a \<noteq> f64_neg b) then f64_nan
      else if IsInf a then a else if IsInf b then b
      else case (f64_frac (f64_mag a), f64_frac (f64_mag b)) of ((p, q), (p', q')) \<Rightarrow>
        let x = int (p * q'); y = int (p' * q);
            z = (if f64_neg a then - x else x) + (if f64_neg b then - y else y)
        in if z = 0 then f64_of (f64_neg a \<and> f64_neg b) 0 else f64_of (z < 0) (f64_round (nat \<bar>z\<bar>) (q * q')))"

definition f64_mul :: "float64 \<Rightarrow> float64 \<Rightarrow> float64" where
  "f64_mul a b =
     (let neg = (f64_neg a \<noteq> f64_neg b)
      in if IsNaN a \<or> IsNaN b \<or> (IsInf a \<and> f64_mag b = 0) \<or> (IsInf b \<and> f64_mag a = 0) then f64_nan
         else if IsInf a \<or> IsInf b then f64_of neg inf_mag
         else case (f64_frac (f64_mag a), f64_frac (f64_mag b)) of ((p, q), (p', q')) \<Rightarrow>
           f64_of neg (f64_round (p * p') (q * q')))"

definition f64_le :: "float64 \<Rightarrow> float64 \<Rightarrow> bool" where
  "f64_le a b \<longleftrightarrow> f64_lt a b \<or> f64_eq a b"

subsection \<open>\<^verbatim>\<open>strconv.ParseFloat\<close>\<close>

definition dec_round :: "nat \<Rightarrow> int \<Rightarrow> nat" where
  "dec_round c t = (if 0 \<le> t then f64_round (c * 10 ^ nat t) 1 else f64_round c (10 ^ nat (- t)))"

definition hex_round :: "nat \<Rightarrow> int \<Rightarrow> nat" where
  "hex_round c t = (if 0 \<le> t then f64_round (c * 2 ^ nat t) 1 else f64_round c (2 ^ nat (- t)))"

definition fdigit :: "bool \<Rightarrow> char \<Rightarrow> nat option" where
  "fdigit hex c =
     (if is_digit c then Some (digit_val c)
      else if hex \<and> 97 \<le> ord c \<and> ord c \<le> 102 then Some (ord c - 87)
      else if hex \<and> 65 \<le> ord c \<and> ord c \<le> 70 then Some (ord c - 55)
      else None)"

text \<open>The digits read so far, how many of them follow the point, and the rest of the text.\<close>

fun read_mant :: "bool \<Rightarrow> bool \<Rightarrow> bool \<Rightarrow> nat \<Rightarrow> nat \<Rightarrow> string \<Rightarrow> bool \<times> nat \<times> nat \<times> string" where
  "read_mant hex dot dig m f [] = (dig, m, f, [])"
| "read_mant hex dot dig m f (c # s) =
     (if c = CHR ''_'' then read_mant hex dot dig m f s
      else if c = CHR ''.'' then if dot then (dig, m, f, c # s) else read_mant hex True dig m f s
      else case fdigit hex c of None \<Rightarrow> (dig, m, f, c # s)
        | Some d \<Rightarrow> read_mant hex dot True ((if hex then 16 else 10) * m + d) (if dot then Suc f else f) s)"

fun read_exp :: "nat \<Rightarrow> string \<Rightarrow> nat \<times> string" where
  "read_exp e [] = (e, [])"
| "read_exp e (c # s) =
     (if c = CHR ''_'' then read_exp e s
      else if is_digit c then read_exp (if e < 10000 then 10 * e + digit_val c else e) s
      else (e, c # s))"

definition split_sign :: "string \<Rightarrow> bool \<times> string" where
  "split_sign s = (case s of c # t \<Rightarrow> if c = CHR ''-'' then (True, t) else if c = CHR ''+'' then (False, t) else (False, s)
     | [] \<Rightarrow> (False, s))"

text \<open>The exponent part: absent in a decimal number it is 0, a hexadecimal one must have it.\<close>

definition read_exponent :: "bool \<Rightarrow> string \<Rightarrow> (int \<times> string) option" where
  "read_exponent hex s =
     (case s of c # t \<Rightarrow>
        if c \<in> (if hex then {CHR ''p'', CHR ''P''} else {CHR ''e'', CHR ''E''})
        then (case split_sign t of (neg, u) \<Rightarrow>
                if u = [] \<or> \<not> is_digit (hd u) then None
                else case read_exp 0 u of (e, r) \<Rightarrow> Some (if neg then - int e else int e, r))
        else if hex then None else Some (0, s)
      | [] \<Rightarrow> if hex then None else Some (0, s))"

text \<open>\<open>underscoreOK\<close>: an underscore stands between two digits, where a base prefix counts as a digit.\<close>

fun underscores :: "bool \<Rightarrow> char \<Rightarrow> string \<Rightarrow> bool" where
  "underscores hex saw [] \<longleftrightarrow> saw \<noteq> CHR ''_''"
| "underscores hex saw (c # s) \<longleftrightarrow>
     (if fdigit hex c \<noteq> None then underscores hex CHR ''0'' s
      else if c = CHR ''_'' then saw = CHR ''0'' \<and> underscores hex CHR ''_'' s
      else saw \<noteq> CHR ''_'' \<and> underscores hex CHR ''!'' s)"

definition underscoreOK :: "string \<Rightarrow> bool" where
  "underscoreOK s =
     (let t = snd (split_sign s)
      in case t of z # x # u \<Rightarrow>
           if z = CHR ''0'' \<and> x \<in> set ''bBoOxX'' then underscores (x \<in> set ''xX'') CHR ''0'' u
           else underscores False CHR ''^'' t
         | _ \<Rightarrow> underscores False CHR ''^'' t)"

definition parse_special :: "string \<Rightarrow> float64 option" where
  "parse_special s =
     (let t = split_sign s; u = lower_ascii (snd t)
      in if u = ''inf'' \<or> u = ''infinity'' then Some (f64_of (fst t) inf_mag)
         else if lower_ascii s = ''nan'' then Some f64_nan else None)"

text \<open>A result that overflows is \<^verbatim>\<open>ErrRange\<close>, which every caller treats as any other error.\<close>

definition ParseFloat :: "string \<Rightarrow> float64 option" where
  "ParseFloat s =
     (case parse_special s of Some w \<Rightarrow> Some w
      | None \<Rightarrow>
          (case split_sign s of (neg, t) \<Rightarrow>
             let hex = (2 < length t \<and> t ! 0 = CHR ''0'' \<and> t ! 1 \<in> {CHR ''x'', CHR ''X''})
             in case read_mant hex False False 0 0 (if hex then drop 2 t else t) of (dig, m, f, r) \<Rightarrow>
                  if \<not> dig then None
                  else case read_exponent hex r of None \<Rightarrow> None
                    | Some (e, r) \<Rightarrow>
                        if r \<noteq> [] \<or> \<not> underscoreOK s then None
                        else let n = (if hex then hex_round m (e - 4 * int f) else dec_round m (e - int f))
                             in if n = inf_mag then None else Some (f64_of neg n)))"

subsection \<open>The shortest forms of \<^verbatim>\<open>strconv.FormatFloat\<close>\<close>

text \<open>The decimal with \<open>n\<close> digits that converts back to the magnitude, the nearest one if there are two. The
  value lies between \<open>10 ^ (L - 1)\<close> and \<open>10 ^ L\<close> when multiplied with \<open>10 ^ K\<close>.\<close>

definition dec_shift :: "nat \<Rightarrow> nat \<Rightarrow> nat" where
  "dec_shift p q = nbits q + 1 - nbits p"

definition dec_point :: "nat \<Rightarrow> nat \<Rightarrow> int" where
  "dec_point p q = int (length (FormatUint (p * 10 ^ dec_shift p q div q))) - int (dec_shift p q)"

definition short_at :: "nat \<Rightarrow> int \<Rightarrow> nat \<Rightarrow> nat option" where
  "short_at mag L n =
     (case f64_frac mag of (p, q) \<Rightarrow>
        let t = L - int n;
            a = (if 0 \<le> t then p else p * 10 ^ nat (- t));
            b = (if 0 \<le> t then q * 10 ^ nat t else q);
            lo = a div b; down = (dec_round lo t = mag); up = (dec_round (lo + 1) t = mag)
        in if down \<and> up then Some (round_div a b) else if down then Some lo else if up then Some (lo + 1) else None)"

function short_search :: "nat \<Rightarrow> int \<Rightarrow> nat \<Rightarrow> nat \<times> nat" where
  "short_search mag L n =
     (case short_at mag L n of Some c \<Rightarrow> (n, c)
      | None \<Rightarrow> if 1400 \<le> n then (n, 0) else short_search mag L (Suc n))"
  by pat_completeness auto

termination
  by (relation "measure (\<lambda>(_, _, n). 1400 - n)") auto

declare short_search.simps [simp del]

text \<open>The digits without trailing zeros and the position of the decimal point.\<close>

definition rstrip0 :: "string \<Rightarrow> string" where
  "rstrip0 s = rev (dropWhile (\<lambda>c. c = CHR ''0'') (rev s))"

definition shortest :: "nat \<Rightarrow> string \<times> int" where
  "shortest mag =
     (if mag = 0 then ([], 0)
      else case f64_frac mag of (p, q) \<Rightarrow>
        let L = dec_point p q
        in case short_search mag L 1 of (n, c) \<Rightarrow> (rstrip0 (FormatUint c), L - int n + int (length (FormatUint c))))"

definition fmtF :: "string \<Rightarrow> int \<Rightarrow> string" where
  "fmtF ds dp =
     (if ds = [] then ''0''
      else if dp \<le> 0 then ''0.'' @ replicate (nat (- dp)) CHR ''0'' @ ds
      else let k = nat dp in
        if length ds \<le> k then ds @ replicate (k - length ds) CHR ''0'' else take k ds @ ''.'' @ drop k ds)"

definition fmtE :: "string \<Rightarrow> int \<Rightarrow> string" where
  "fmtE ds dp =
     (let x = (if ds = [] then 0 else dp - 1); ax = nat \<bar>x\<bar>
      in (case ds of [] \<Rightarrow> ''0'' | [c] \<Rightarrow> [c] | c # cs \<Rightarrow> c # ''.'' @ cs)
         @ (if x < 0 then ''e-'' else ''e+'') @ (if ax < 10 then ''0'' else []) @ FormatUint ax)"

definition fmtG :: "string \<Rightarrow> int \<Rightarrow> string" where
  "fmtG ds dp = (if ds \<noteq> [] \<and> (dp - 1 < -4 \<or> 6 \<le> dp - 1) then fmtE ds dp else fmtF ds dp)"

text \<open>\<^verbatim>\<open>FormatFloat(f, fmt, -1, 64)\<close>, with \<open>fmt\<close> one of \<^const>\<open>fmtF\<close>, \<^const>\<open>fmtE\<close> and \<^const>\<open>fmtG\<close>.\<close>

definition FormatFloat :: "(string \<Rightarrow> int \<Rightarrow> string) \<Rightarrow> float64 \<Rightarrow> string" where
  "FormatFloat fmt f =
     (if IsNaN f then ''NaN''
      else if IsInf f then if f64_neg f then ''-Inf'' else ''+Inf''
      else case shortest (f64_mag f) of (ds, dp) \<Rightarrow> (if f64_neg f then ''-'' else []) @ fmt ds dp)"

subsection \<open>Rounding is exact on representable values\<close>

lemma nbits_le_iff: "nbits n \<le> k \<longleftrightarrow> n < 2 ^ k"
proof (induction n arbitrary: k rule: nbits.induct)
  case (1 n)
  show ?case
  proof (cases "n = 0")
    case False
    show ?thesis
    proof (cases k)
      case (Suc j)
      have "nbits n \<le> k \<longleftrightarrow> n div 2 < 2 ^ j" using "1.IH" [OF False, of j] False Suc by (simp add: nbits.simps [of n])
      then show ?thesis using Suc by auto
    qed (use False in \<open>simp add: nbits.simps [of n]\<close>)
  qed (simp add: nbits.simps [of 0])
qed

lemma nbits_upper: "n < 2 ^ nbits n"
  using nbits_le_iff [of n "nbits n"] by simp

lemma nbits_lower: "0 < n \<Longrightarrow> 2 ^ (nbits n - 1) \<le> n \<and> 0 < nbits n"
  using nbits_le_iff [of n "nbits n - 1"] nbits_le_iff [of n 0] by (auto simp: not_less)

lemma nbits_scaled:
  assumes p: "0 < p" and q: "0 < q" and X: "nbits q \<le> nbits p + 1074"
    and d: "d = (if q * 2 ^ nbits p \<le> p * 2 ^ nbits q then 1 else 0)" and nb: "nb = nbits p + 1074 - nbits q + d"
  shows "p * 2 ^ 1074 < q * 2 ^ nb" and "q * 2 ^ (nb - 1) \<le> p * 2 ^ 1074 \<or> nb = 0"
proof -
  let ?A = "nbits p" and ?B = "nbits q"
  define X where "X = ?A + 1074 - ?B"
  have XB: "X + ?B = ?A + 1074" using assms(3) by (simp add: X_def)
  have pw: "(2 :: nat) ^ X * 2 ^ ?B = 2 ^ ?A * 2 ^ 1074" by (simp only: XB power_add [symmetric])
  note bp = nbits_upper [of p] nbits_lower [OF p] and bq = nbits_upper [of q] nbits_lower [OF q]
  have twoB: "(2 :: nat) ^ ?B = 2 * 2 ^ (?B - 1)" and twoA: "(2 :: nat) ^ ?A = 2 * 2 ^ (?A - 1)"
    using bq bp by (simp_all add: power_eq_if)
  have "p * 2 ^ 1074 < q * 2 ^ nb \<and> (q * 2 ^ (nb - 1) \<le> p * 2 ^ 1074 \<or> nb = 0)"
  proof (cases "q * 2 ^ ?A \<le> p * 2 ^ ?B")
    case True
    then have nb': "nb = Suc X" using d nb by (simp add: X_def)
    have "p * 2 ^ 1074 < 2 ^ ?A * 2 ^ 1074" using bp by simp
    also have "\<dots> = 2 ^ Suc X * 2 ^ (?B - 1)" using pw twoB by simp
    also have "\<dots> \<le> 2 ^ Suc X * q" using bq by (intro mult_le_mono) auto
    finally have up: "p * 2 ^ 1074 < q * 2 ^ nb" by (simp only: nb' mult.commute [of q])
    have "q * 2 ^ X * 2 ^ ?B = q * 2 ^ ?A * 2 ^ 1074" using pw by (metis mult.assoc)
    also have "\<dots> \<le> p * 2 ^ ?B * 2 ^ 1074" by (rule mult_le_mono1 [OF True])
    also have "\<dots> = p * 2 ^ 1074 * 2 ^ ?B" by (simp only: ac_simps)
    finally have "q * 2 ^ X \<le> p * 2 ^ 1074" by simp
    with up nb' show ?thesis by simp
  next
    case False
    then have nb': "nb = X" using d nb by (simp add: X_def)
    have "p * 2 ^ 1074 * 2 ^ ?B = p * 2 ^ ?B * 2 ^ 1074" by (simp only: ac_simps)
    also have "\<dots> < q * 2 ^ ?A * 2 ^ 1074" using False by simp
    also have "\<dots> = q * 2 ^ X * 2 ^ ?B" using pw by (metis mult.assoc)
    finally have up: "p * 2 ^ 1074 < q * 2 ^ nb" by (simp add: nb')
    have "q * 2 ^ (X - 1) \<le> p * 2 ^ 1074" if "X \<noteq> 0"
    proof -
      have x: "(2 :: nat) ^ X = 2 * 2 ^ (X - 1)" using that by (simp add: power_eq_if)
      have "q * 2 ^ (X - 1) \<le> 2 ^ ?B * 2 ^ (X - 1)" using bq by (intro mult_le_mono) auto
      also have "\<dots> = 2 ^ (?A - 1) * 2 ^ 1074" using pw unfolding x twoA by simp
      also have "\<dots> \<le> p * 2 ^ 1074" using bp by (intro mult_le_mono) auto
      finally show ?thesis .
    qed
    with up nb' show ?thesis by blast
  qed
  then show "p * 2 ^ 1074 < q * 2 ^ nb" "q * 2 ^ (nb - 1) \<le> p * 2 ^ 1074 \<or> nb = 0" by blast+
qed

lemma f64_scale_spec:
  assumes p: "0 < p" and q: "0 < q"
  shows "p * 2 ^ 1074 < q * 2 ^ (53 + f64_scale p q)"
    and "f64_scale p q = 0 \<or> q * 2 ^ (52 + f64_scale p q) \<le> p * 2 ^ 1074"
proof -
  define d :: nat where "d = (if q * 2 ^ nbits p \<le> p * 2 ^ nbits q then 1 else 0)"
  define nb where "nb = nbits p + 1074 - nbits q + d"
  have s: "f64_scale p q = nb - 53" by (simp add: f64_scale_def Let_def nb_def d_def)
  have "p * 2 ^ 1074 < q * 2 ^ nb \<and> (q * 2 ^ (nb - 1) \<le> p * 2 ^ 1074 \<or> nb = 0)
      \<or> p * 2 ^ 1074 < q * 2 ^ 53 \<and> nb \<le> 53"
  proof (cases "nbits q \<le> nbits p + 1074")
    case True
    with nbits_scaled [OF p q _ d_def nb_def] show ?thesis by blast
  next
    case False
    have "p * 2 ^ 1074 < 2 ^ nbits p * 2 ^ 1074" using nbits_upper by simp
    also have "\<dots> = 2 ^ (nbits p + 1074)" by (simp only: power_add)
    also have "\<dots> \<le> 2 ^ (nbits q - 1)" using False by (intro power_increasing) auto
    also have "\<dots> \<le> q" using nbits_lower [OF q] by simp
    also have "q \<le> q * 2 ^ 53" by simp
    finally show ?thesis using False by (simp add: nb_def d_def)
  qed
  note cases = this
  have small: "q * 2 ^ nb \<le> q * 2 ^ 53" if "nb \<le> 53" using power_increasing [OF that, of "2 :: nat"] by simp
  have "p * 2 ^ 1074 < q * 2 ^ (53 + (nb - 53)) \<and> (nb - 53 = 0 \<or> q * 2 ^ (52 + (nb - 53)) \<le> p * 2 ^ 1074)"
  proof (cases "nb \<le> 53")
    case True
    with cases small have "p * 2 ^ 1074 < q * 2 ^ 53" by linarith
    with True show ?thesis by simp
  next
    case False
    then have "53 + (nb - 53) = nb" "52 + (nb - 53) = nb - 1" by simp_all
    with cases False show ?thesis by simp
  qed
  then show "p * 2 ^ 1074 < q * 2 ^ (53 + f64_scale p q)"
    "f64_scale p q = 0 \<or> q * 2 ^ (52 + f64_scale p q) \<le> p * 2 ^ 1074"
    unfolding s by blast+
qed

lemma f64_scale_unique:
  assumes p: "0 < p" and q: "0 < q" and v: "p * 2 ^ 1074 = q * (m * 2 ^ k)"
    and m: "m < 2 ^ 53" and norm: "k = 0 \<or> 2 ^ 52 \<le> m"
  shows "f64_scale p q = k"
proof -
  let ?s = "f64_scale p q"
  note S = f64_scale_spec [OF p q, unfolded v]
  have up: "m * 2 ^ k < 2 ^ (53 + ?s)" and lo: "?s = 0 \<or> 2 ^ (52 + ?s) \<le> m * 2 ^ k" using S q by auto
  have "m * 2 ^ k < 2 ^ (53 + k)" using m by (simp add: power_add)
  then have "?s = 0 \<or> (2 :: nat) ^ (52 + ?s) < 2 ^ (53 + k)" using lo by linarith
  then have "?s \<le> k" using power_less_imp_less_exp [of "2 :: nat" "52 + ?s" "53 + k"] by auto
  moreover have "k \<le> ?s"
  proof (cases "k = 0")
    case False
    with norm have "2 ^ 52 * 2 ^ k \<le> m * 2 ^ k" by simp
    then have "(2 :: nat) ^ (52 + k) < 2 ^ (53 + ?s)" unfolding power_add using up by (simp only: power_add)
    then show ?thesis using power_less_imp_less_exp [of "2 :: nat" "52 + k" "53 + ?s"] by simp
  qed simp
  ultimately show ?thesis by simp
qed

lemma round_div_exact: "0 < b \<Longrightarrow> a = b * c \<Longrightarrow> round_div a b = c"
  by (simp add: round_div_def)

lemma f64_round_exact:
  assumes q: "0 < q" and v: "p * 2 ^ 1074 = q * (m * 2 ^ k)"
    and m: "m < 2 ^ 53" and norm: "k = 0 \<or> 2 ^ 52 \<le> m" and fin: "k * 2 ^ 52 + m < inf_mag"
  shows "f64_round p q = k * 2 ^ 52 + m"
proof (cases "p = 0")
  case True
  then have "m = 0" using v q by simp
  with norm True show ?thesis by (simp add: f64_round_def)
next
  case False
  then have p: "0 < p" by simp
  note s = f64_scale_unique [OF p q v m norm]
  have "(if k \<le> 1074 then round_div (p * 2 ^ (1074 - k)) q else round_div p (q * 2 ^ (k - 1074))) = m"
  proof (cases "k \<le> 1074")
    case True
    have "p * 2 ^ (1074 - k) * 2 ^ k = p * 2 ^ 1074" using True by (simp only: mult.assoc power_add [symmetric]) simp
    also have "\<dots> = q * m * 2 ^ k" by (simp only: v mult.assoc)
    finally have "p * 2 ^ (1074 - k) = q * m" by simp
    with True q show ?thesis by (simp add: round_div_exact)
  next
    case False
    have "p * 2 ^ 1074 = q * (m * (2 ^ (k - 1074) * 2 ^ 1074))" using v False by (simp only: power_add [symmetric]) simp
    then have "p * 2 ^ 1074 = q * 2 ^ (k - 1074) * m * 2 ^ 1074" by (simp only: ac_simps)
    then have "p = q * 2 ^ (k - 1074) * m" by simp
    with False q show ?thesis by (simp add: round_div_exact)
  qed
  with False s fin show ?thesis by (simp add: f64_round_def Let_def)
qed

text \<open>A magnitude is recovered from every fraction that has its value.\<close>

lemma f64_parts:
  shows "n = (f64_exp n - 1) * 2 ^ 52 + f64_mant n" and "f64_mant n < 2 ^ 53"
    and "f64_exp n - 1 = 0 \<or> 2 ^ 52 \<le> f64_mant n" and "1 \<le> f64_exp n"
proof -
  have n: "n = (n div 2 ^ 52) * 2 ^ 52 + n mod 2 ^ 52" by simp
  show "n = (f64_exp n - 1) * 2 ^ 52 + f64_mant n"
  proof (cases "n div 2 ^ 52 = 0")
    case False
    then obtain e where e: "n div 2 ^ 52 = Suc e" using not0_implies_Suc by blast
    have "n = Suc e * 2 ^ 52 + n mod 2 ^ 52" using n unfolding e .
    then show ?thesis unfolding f64_exp_def f64_mant_def e by simp
  qed (simp add: f64_exp_def f64_mant_def)
  show "f64_mant n < 2 ^ 53" using mod_less_divisor [of "2 ^ 52 :: nat" n] by (auto simp: f64_mant_def div_eq_0_iff)
  show "f64_exp n - 1 = 0 \<or> 2 ^ 52 \<le> f64_mant n" by (simp add: f64_exp_def f64_mant_def)
  show "1 \<le> f64_exp n" by (simp add: f64_exp_def)
qed

lemma f64_round_value:
  assumes "n < inf_mag" "0 < q" "p * 2 ^ 1074 = q * (f64_mant n * 2 ^ (f64_exp n - 1))"
  shows "f64_round p q = n"
  using f64_round_exact [OF assms(2,3) f64_parts(2,3)] f64_parts(1) [of n] assms(1) by simp

lemma f64_frac_value:
  assumes "f64_frac n = (p, q)"
  shows "p * 2 ^ 1074 = q * (f64_mant n * 2 ^ (f64_exp n - 1))" and "\<exists>j \<le> 1074. q = 2 ^ j" and "0 < q"
proof -
  have "p * 2 ^ 1074 = q * (f64_mant n * 2 ^ (f64_exp n - 1)) \<and> (\<exists>j \<le> 1074. q = 2 ^ j)"
  proof (cases "1075 \<le> f64_exp n")
    case True
    then have "(2 :: nat) ^ (f64_exp n - 1) = 2 ^ (f64_exp n - 1075) * 2 ^ 1074" by (simp only: power_add [symmetric]) simp
    with True assms show ?thesis by (auto simp: f64_frac_def intro!: exI [of _ 0])
  next
    case False
    then have "1074 = (1075 - f64_exp n) + (f64_exp n - 1)" using f64_parts(4) [of n] by simp
    then have "(2 :: nat) ^ 1074 = 2 ^ (1075 - f64_exp n) * 2 ^ (f64_exp n - 1)" by (simp only: power_add [symmetric])
    with False assms f64_parts(4) [of n] show ?thesis by (auto simp: f64_frac_def intro!: exI [of _ "1075 - f64_exp n"])
  qed
  then show "p * 2 ^ 1074 = q * (f64_mant n * 2 ^ (f64_exp n - 1))" "\<exists>j \<le> 1074. q = 2 ^ j" "0 < q" by auto
qed

theorem f64_round_frac: "n < inf_mag \<Longrightarrow> f64_frac n = (p, q) \<Longrightarrow> f64_round p q = n"
  by (intro f64_round_value f64_frac_value)

subsection \<open>Rounding depends on the value only\<close>

lemma f64_scale_cong:
  assumes "0 < p" "0 < q" "0 < p'" "0 < q'" and eq: "p * q' = p' * q"
  shows "f64_scale p q = f64_scale p' q'"
proof -
  have half: "f64_scale u v \<le> f64_scale u' v'"
    if "0 < u" "0 < v" "0 < u'" "0 < v'" "u * v' = u' * v" for u v u' v'
  proof (rule ccontr)
    let ?s = "f64_scale u v" and ?t = "f64_scale u' v'"
    assume "\<not> ?s \<le> ?t"
    then have "53 + ?t \<le> 52 + ?s" "?s \<noteq> 0" by simp_all
    then have "(2 :: nat) ^ (53 + ?t) \<le> 2 ^ (52 + ?s)" by (intro power_increasing) auto
    then have "v * v' * 2 ^ (53 + ?t) \<le> v' * (v * 2 ^ (52 + ?s))" by simp
    also have "\<dots> \<le> v' * (u * 2 ^ 1074)" using f64_scale_spec(2) [OF that(1,2)] \<open>?s \<noteq> 0\<close> by simp
    also have "\<dots> = v * (u' * 2 ^ 1074)" using that(5) by (metis mult.assoc mult.commute)
    also have "\<dots> < v * (v' * 2 ^ (53 + ?t))" using f64_scale_spec(1) [OF that(3,4)] that(2) by simp
    finally show False by (simp add: mult.assoc)
  qed
  show ?thesis using half [OF assms] half [OF assms(3,4,1,2) eq [symmetric]] by simp
qed

lemma round_div_scale: "0 < k \<Longrightarrow> round_div (a * k) (b * k) = round_div a b"
  by (auto simp: round_div_def Let_def mult_mod_left [symmetric] mult.assoc [symmetric] simp del: mult_mod_left)

lemma round_div_cong: "0 < b \<Longrightarrow> 0 < b' \<Longrightarrow> a * b' = a' * b \<Longrightarrow> round_div a b = round_div a' b'"
  using round_div_scale [of b' a b] round_div_scale [of b a' b'] by (simp add: mult.commute)

lemma f64_round_cong:
  assumes "0 < q" "0 < q'" and eq: "p * q' = p' * q"
  shows "f64_round p q = f64_round p' q'"
proof (cases "p = 0")
  case True
  then have "p' = 0" using assms by simp
  with True show ?thesis by (simp add: f64_round_def)
next
  case False
  then have pos: "0 < p" "0 < p'" using assms by (auto intro: gr0I)
  note s = f64_scale_cong [OF pos(1) assms(1) pos(2) assms(2) eq]
  have "round_div (p * 2 ^ j) q = round_div (p' * 2 ^ j) q'" for j
    by (rule round_div_cong) (use assms in \<open>simp_all add: ac_simps\<close>)
  moreover have "round_div p (q * 2 ^ j) = round_div p' (q' * 2 ^ j)" for j
    by (rule round_div_cong) (use assms in \<open>simp_all add: ac_simps\<close>)
  ultimately show ?thesis using pos s by (simp add: f64_round_def Let_def)
qed

lemma dec_round_shift: "dec_round (c * 10 ^ z) t = dec_round c (t + int z)"
proof -
  consider "0 \<le> t" | "t < 0" "0 \<le> t + int z" | "t + int z < 0" by linarith
  then show ?thesis
  proof cases
    case 1
    then show ?thesis by (simp add: dec_round_def nat_add_distrib power_add ac_simps)
  next
    case 2
    then have "z = nat (t + int z) + nat (- t)" by simp
    then have "(10 :: nat) ^ z = 10 ^ nat (t + int z) * 10 ^ nat (- t)" by (metis power_add)
    then have "f64_round (c * 10 ^ z) (10 ^ nat (- t)) = f64_round (c * 10 ^ nat (t + int z)) 1"
      by (intro f64_round_cong) simp_all
    with 2 show ?thesis by (simp add: dec_round_def)
  next
    case 3
    then have "nat (- t) = z + nat (- (t + int z))" by simp
    then have "(10 :: nat) ^ nat (- t) = 10 ^ z * 10 ^ nat (- (t + int z))" by (metis power_add)
    then have "f64_round (c * 10 ^ z) (10 ^ nat (- t)) = f64_round c (10 ^ nat (- (t + int z)))"
      by (intro f64_round_cong) simp_all
    with 3 show ?thesis by (simp add: dec_round_def)
  qed
qed

subsection \<open>The shortest digits convert back\<close>

lemma short_at_back: "short_at mag L n = Some c \<Longrightarrow> dec_round c (L - int n) = mag"
  by (auto simp: short_at_def Let_def round_div_def split: prod.splits if_splits)

lemma short_at_exact:
  assumes "mag < inf_mag" "L - int n \<le> -1074"
  shows "short_at mag L n \<noteq> None"
proof -
  obtain p q where f: "f64_frac mag = (p, q)" by (cases "f64_frac mag")
  define j where "j = nat (int n - L)"
  have j: "1074 \<le> j" "nat (- (L - int n)) = j" "\<not> 0 \<le> L - int n" using assms(2) by (simp_all add: j_def)
  from f64_frac_value [OF f] obtain i where i: "i \<le> 1074" "q = 2 ^ i" "0 < q" by blast
  have "(10 :: nat) ^ j = 2 ^ i * (2 ^ (j - i) * 5 ^ j)"
    using i(1) j(1) power_mult_distrib [of "2 :: nat" 5 j] by (simp add: mult.assoc [symmetric] power_add [symmetric])
  then obtain r where r: "(10 :: nat) ^ j = q * r" using i(2) by blast
  then have lo: "p * 10 ^ j div q = p * r" using i(3) by simp
  have "p * r * 2 ^ 1074 * q = 10 ^ j * (f64_mant mag * 2 ^ (f64_exp mag - 1)) * q"
    using f64_frac_value(1) [OF f] unfolding r by (metis mult.assoc mult.commute)
  then have "dec_round (p * r) (L - int n) = mag"
    using j i(3) by (auto simp: dec_round_def intro!: f64_round_value [OF assms(1)])
  then show ?thesis using f lo j by (simp add: short_at_def Let_def)
qed

lemma short_search_back:
  "mag < inf_mag \<Longrightarrow> L \<le> 326 \<Longrightarrow> n \<le> 1400 \<Longrightarrow> short_search mag L n = (n', c) \<Longrightarrow> dec_round c (L - int n') = mag \<and> n' \<le> 1400 \<and> short_at mag L n' = Some c"
proof (induction mag L n rule: short_search.induct [case_names step])
  case (step mag L n)
  show ?case
  proof (cases "short_at mag L n")
    case None
    then have "n \<noteq> 1400" using short_at_exact [of mag L n] step.prems by auto
    with None step show ?thesis by (simp add: short_search.simps [of mag L n])
  next
    case (Some d)
    with step.prems short_at_back [OF Some] show ?thesis by (simp add: short_search.simps [of mag L n])
  qed
qed

lemma f64_exp_le: "mag < inf_mag \<Longrightarrow> f64_exp mag \<le> 2046"
proof -
  assume "mag < inf_mag"
  then have "mag div 2 ^ 52 < 2047" by (simp add: div_less_iff_less_mult)
  then show ?thesis by (simp add: f64_exp_def)
qed

lemma f64_frac_less:
  assumes "mag < inf_mag" "f64_frac mag = (p, q)"
  shows "p < 10 ^ 309" and "nbits q \<le> 1075"
proof -
  have m: "f64_mant mag < 2 ^ 53" by (rule f64_parts(2))
  have e: "f64_exp mag - 1075 \<le> 971" using f64_exp_le [OF assms(1)] by simp
  have "p \<le> f64_mant mag * 2 ^ (f64_exp mag - 1075)" using assms(2) by (auto simp: f64_frac_def split: if_splits)
  also have "\<dots> < 2 ^ 53 * 2 ^ (f64_exp mag - 1075)" using m by simp
  also have "\<dots> \<le> 2 ^ 53 * 2 ^ 971" by (rule mult_le_mono2 [OF power_increasing [OF e]]) simp
  also have "\<dots> < (10 :: nat) ^ 309" by simp
  finally show "p < 10 ^ 309" .
  from f64_frac_value(2) [OF assms(2)] obtain j where "j \<le> 1074" "q = 2 ^ j" by blast
  then have "q < 2 ^ 1075" using power_strict_increasing [of j 1075 "2 :: nat"] by simp
  then show "nbits q \<le> 1075" by (simp add: nbits_le_iff)
qed

lemma FormatUint_nonempty: "0 < length (FormatUint n)"
  using FormatUint_digits [of n] by simp

lemma dec_point_bounds:
  assumes "mag < inf_mag" "f64_frac mag = (p, q)"
  shows "dec_point p q \<le> 309" and "-1076 \<le> dec_point p q"
proof -
  let ?K = "dec_shift p q"
  have K: "?K \<le> 1076" using f64_frac_less(2) [OF assms] by (simp add: dec_shift_def)
  have "p * 10 ^ ?K div q \<le> p * 10 ^ ?K" by simp
  also have "\<dots> < 10 ^ 309 * 10 ^ ?K" using f64_frac_less(1) [OF assms] by simp
  also have "\<dots> = 10 ^ (309 + ?K)" by (simp only: power_add)
  finally have "length (FormatUint (p * 10 ^ ?K div q)) \<le> 309 + ?K" by (rule FormatUint_length) simp
  then show "dec_point p q \<le> 309" by (simp add: dec_point_def)
  show "-1076 \<le> dec_point p q" using K by (simp add: dec_point_def)
qed

lemma short_at_length:
  assumes "mag < inf_mag" "short_at mag L n = Some c" "L \<le> 309"
  shows "L - int n + int (length (FormatUint c)) \<le> 700"
proof -
  obtain p q where f: "f64_frac mag = (p, q)" by (cases "f64_frac mag")
  define j where "j = nat (- (L - int n))"
  have c: "c \<le> p * 10 ^ j + 1"
  proof -
    have "c \<le> (if 0 \<le> L - int n then p else p * 10 ^ j) div (if 0 \<le> L - int n then q * 10 ^ nat (L - int n) else q) + 1"
      using assms(2) f by (auto simp: short_at_def Let_def round_div_def j_def split: if_splits)
    also have "\<dots> \<le> (if 0 \<le> L - int n then p else p * 10 ^ j) + 1" by (intro add_mono div_le_dividend) simp_all
    also have "\<dots> \<le> p * 10 ^ j + 1" by simp
    finally show ?thesis .
  qed
  also have "\<dots> < 10 ^ 309 * 10 ^ j + 1" using f64_frac_less(1) [OF assms(1) f] by simp
  also have "\<dots> \<le> 10 ^ (310 + j)"
  proof -
    have "310 + j = Suc (309 + j)" by simp
    then have "(10 :: nat) ^ (310 + j) = 10 * 10 ^ (309 + j)" by (simp only: power_Suc)
    moreover have "(1 :: nat) \<le> 10 ^ (309 + j)" by simp
    ultimately show ?thesis unfolding power_add [symmetric] by linarith
  qed
  finally have "length (FormatUint c) \<le> 310 + j" by (rule FormatUint_length) simp
  then show ?thesis using assms(3) by (simp add: j_def)
qed

lemma digits_val_append: "digits_val (a @ b) = digits_val a * 10 ^ length b + digits_val b"
  by (induction b rule: rev_induct) (simp_all add: digits_val_snoc append_assoc [symmetric] algebra_simps del: append_assoc, simp add: digits_val_def)

lemma digits_val_zeros [simp]: "digits_val (replicate n CHR ''0'') = 0"
  by (induction n) (simp_all add: digits_val_def digit_val_def ord_def)

lemma rstrip0_split: "\<exists>z. s = rstrip0 s @ replicate z CHR ''0''"
proof -
  have "rev s = takeWhile (\<lambda>c. c = CHR ''0'') (rev s) @ dropWhile (\<lambda>c. c = CHR ''0'') (rev s)" by simp
  then have "s = rstrip0 s @ rev (takeWhile (\<lambda>c. c = CHR ''0'') (rev s))"
    unfolding rstrip0_def by (metis rev_append rev_rev_ident)
  moreover have "\<forall>x \<in> set (rev (takeWhile (\<lambda>c. c = CHR ''0'') (rev s))). x = CHR ''0''" by (auto dest: set_takeWhileD)
  ultimately show ?thesis by (metis replicate_eqI)
qed

text \<open>What \<^const>\<open>shortest\<close> delivers for a magnitude other than zero: digits that convert back, and an exponent that is small.\<close>

lemma shortest_back:
  assumes "mag < inf_mag" "0 < mag" "shortest mag = (ds, dp)"
  shows "dec_round (digits_val ds) (dp - int (length ds)) = mag" and "ds \<noteq> []" and "list_all is_digit ds" and "\<bar>dp\<bar> < 9000"
proof -
  obtain p q where f: "f64_frac mag = (p, q)" by (cases "f64_frac mag")
  let ?L = "dec_point p q"
  obtain n c where s: "short_search mag ?L 1 = (n, c)" by (cases "short_search mag ?L 1")
  note L = dec_point_bounds [OF assms(1) f]
  have B: "dec_round c (?L - int n) = mag" "n \<le> 1400" "short_at mag ?L n = Some c"
    using short_search_back [OF assms(1) _ _ s] L by simp_all
  have ds: "ds = rstrip0 (FormatUint c)" and dp: "dp = ?L - int n + int (length (FormatUint c))"
    using assms f s by (simp_all add: shortest_def Let_def)
  obtain z where z: "FormatUint c = ds @ replicate z CHR ''0''" using rstrip0_split [of "FormatUint c"] ds by blast
  have cv: "c = digits_val ds * 10 ^ z" using FormatUint_val [of c] z by (simp add: digits_val_append)
  show rb: "dec_round (digits_val ds) (dp - int (length ds)) = mag"
    using B(1) dec_round_shift [of "digits_val ds" z "?L - int n"] unfolding dp z length_append length_replicate cv [symmetric]
    by (simp add: algebra_simps)
  show "ds \<noteq> []"
  proof
    assume "ds = []"
    then have "dec_round (digits_val ds) t = 0" for t by (simp add: dec_round_def f64_round_def digits_val_def)
    with rb assms(2) show False by simp
  qed
  show "list_all is_digit ds" using FormatUint_digits [of c] z by simp
  show "\<bar>dp\<bar> < 9000" using short_at_length [OF assms(1) B(3) L(1)] B(2) L(2) FormatUint_nonempty [of c] dp by linarith
qed

subsection \<open>\<^verbatim>\<open>ParseFloat\<close> reads what \<^verbatim>\<open>FormatFloat\<close> prints\<close>

lemma digit_not [simp]:
  assumes "is_digit c"
  shows "c \<noteq> CHR ''_''" "c \<noteq> CHR ''.''" "c \<noteq> CHR ''-''" "c \<noteq> CHR ''+''" "c \<noteq> CHR ''e''" "c \<noteq> CHR ''x''" "c \<noteq> CHR ''X''"
    "fdigit hex c = Some (digit_val c)" "lower_char c = c"
  using assms by (auto simp: is_digit_def ord_def fdigit_def lower_char_def)

lemma read_mant_digits:
  "list_all is_digit ds \<Longrightarrow> read_mant False dot dig m f (ds @ r) =
     read_mant False dot (dig \<or> ds \<noteq> []) (m * 10 ^ length ds + digits_val ds) (if dot then f + length ds else f) r"
proof (induction ds arbitrary: dig m f)
  case (Cons c ds)
  have "digits_val (c # ds) = digit_val c * 10 ^ length ds + digits_val ds"
    using digits_val_append [of "[c]" ds] by (simp add: digits_val_def)
  with Cons show ?case by (simp add: algebra_simps)
qed (simp add: digits_val_def)

lemma read_exp_digits:
  "list_all is_digit ds \<Longrightarrow> e * 10 ^ length ds + digits_val ds < 100000 \<Longrightarrow> read_exp e ds = (e * 10 ^ length ds + digits_val ds, [])"
proof (induction ds arbitrary: e)
  case (Cons c ds)
  have v: "digits_val (c # ds) = digit_val c * 10 ^ length ds + digits_val ds"
    using digits_val_append [of "[c]" ds] by (simp add: digits_val_def)
  have "10 * e \<le> e * 10 ^ length (c # ds)" by simp
  then have "10 * e < 100000" using Cons.prems(2) by linarith
  with Cons v show ?case by (simp add: algebra_simps)
qed (simp add: digits_val_def)

lemma underscores_none: "CHR ''_'' \<notin> set s \<Longrightarrow> saw \<noteq> CHR ''_'' \<Longrightarrow> underscores hex saw s"
  by (induction s arbitrary: saw) auto

lemma underscoreOK_none:
  assumes "CHR ''_'' \<notin> set s"
  shows "underscoreOK s"
proof -
  define t where "t = snd (split_sign s)"
  have us: "CHR ''_'' \<notin> set t" using assms by (auto simp: t_def split_sign_def split: list.splits if_splits)
  show ?thesis
  proof (cases t)
    case (Cons z v)
    with us show ?thesis
      by (cases v) (simp_all add: underscoreOK_def t_def [symmetric] underscores_none del: underscores.simps)
  qed (simp add: underscoreOK_def t_def [symmetric])
qed

lemma parse_plain:
  assumes "body = c # rest" "is_digit c" "CHR ''_'' \<notin> set body" "2 \<le> length body \<longrightarrow> body ! 1 \<notin> {CHR ''x'', CHR ''X''}"
    and "read_mant False False False 0 0 body = (True, m, f, r)" "read_exponent False r = Some (e, [])"
    and "dec_round m (e - int f) = mag" "mag < inf_mag"
  shows "ParseFloat ((if neg then ''-'' else []) @ body) = Some (f64_of neg mag)"
proof -
  let ?s = "(if neg then ''-'' else []) @ body"
  have sign: "split_sign ?s = (neg, body)" using assms(1,2) by (simp add: split_sign_def)
  have "lower_ascii body ! 0 = c" "lower_ascii body \<noteq> []" using assms(1,2) by (simp_all add: lower_ascii_def)
  moreover have "c \<noteq> CHR ''i''" "c \<noteq> CHR ''n''" using assms(2) by (auto simp: is_digit_def ord_def)
  moreover have "lower_char CHR ''-'' = CHR ''-''" by code_simp
  ultimately have "lower_ascii body \<noteq> ''inf''" "lower_ascii body \<noteq> ''infinity''" "lower_ascii ?s \<noteq> ''nan''"
    using assms(1) by (auto simp: lower_ascii_def)
  then have special: "parse_special ?s = None" using sign by (simp add: parse_special_def Let_def)
  have us: "underscoreOK ?s" using assms(3) by (intro underscoreOK_none) auto
  have hex: "(2 < length body \<and> body ! 0 = CHR ''0'' \<and> body ! 1 \<in> {CHR ''x'', CHR ''X''}) = False" using assms(4) by auto
  have "mag \<noteq> inf_mag" using assms(8) by simp
  then show ?thesis unfolding ParseFloat_def special
    by (simp only: sign us hex assms(5-7) Let_def option.case prod.case if_False simp_thms)
qed

lemma digits_no_us [simp]: "list_all is_digit ds \<Longrightarrow> CHR ''_'' \<notin> set ds"
  by (auto simp: list_all_iff is_digit_def ord_def)

lemma digits_zeros [simp]: "list_all is_digit (replicate n CHR ''0'')"
  by (simp add: list_all_iff is_digit_def ord_def)

lemma digit_0 [simp]: "is_digit CHR ''0''"
  by (simp add: is_digit_def ord_def)

lemma exponent_back:
  assumes "\<bar>x\<bar> < 10000"
  shows "read_exponent False ((if x < 0 then ''e-'' else ''e+'') @ (if nat \<bar>x\<bar> < 10 then ''0'' else []) @ FormatUint (nat \<bar>x\<bar>)) = Some (x, [])"
proof -
  define d where "d = (if nat \<bar>x\<bar> < 10 then ''0'' else []) @ FormatUint (nat \<bar>x\<bar>)"
  have d: "list_all is_digit d" "d \<noteq> []" using FormatUint_digits [of "nat \<bar>x\<bar>"] by (auto simp: d_def)
  then have h: "is_digit (hd d)" by (metis list.pred_set hd_in_set)
  have z: "digits_val ''0'' = 0" "digits_val [] = 0" by code_simp+
  have v: "digits_val d = nat \<bar>x\<bar>" using z by (simp add: d_def digits_val_append FormatUint_val)
  have "read_exp 0 d = (nat \<bar>x\<bar>, [])" using read_exp_digits [OF d(1), of 0] v assms by simp
  with d h show ?thesis unfolding d_def [symmetric] by (simp add: read_exponent_def split_sign_def)
qed

lemma fmtE_back:
  assumes "ds \<noteq> []" "list_all is_digit ds" "\<bar>dp\<bar> < 9000" "dec_round (digits_val ds) (dp - int (length ds)) = mag" "mag < inf_mag"
  shows "ParseFloat ((if neg then ''-'' else []) @ fmtE ds dp) = Some (f64_of neg mag)"
proof -
  obtain c cs where ds: "ds = c # cs" using assms(1) by (cases ds) auto
  let ?x = "(if dp - 1 < 0 then ''e-'' else ''e+'') @ (if nat \<bar>dp - 1\<bar> < 10 then ''0'' else []) @ FormatUint (nat \<bar>dp - 1\<bar>)"
  let ?tail = "if cs = [] then ?x else ''.'' @ cs @ ?x"
  have e: "read_exponent False ?x = Some (dp - 1, [])" by (rule exponent_back) (use assms(3) in linarith)
  have body: "fmtE ds dp = c # ?tail" by (simp add: fmtE_def ds Let_def split: list.splits)
  have us: "CHR ''_'' \<notin> set ?x" using digits_no_us [OF FormatUint_digits [THEN conjunct1, of "nat \<bar>dp - 1\<bar>"]] by auto
  have stop: "read_mant False dot True m f ?x = (True, m, f, ?x)" for dot m f by (simp add: fdigit_def is_digit_def ord_def)
  have c: "is_digit c" "list_all is_digit cs" using assms(2) ds by simp_all
  have m: "read_mant False False False 0 0 (c # ?tail) = (True, digits_val ds, length cs, ?x)"
    using c stop read_mant_digits [OF c(2), of True True "digit_val c" 0 ?x] digits_val_append [of "[c]" cs] unfolding ds
    by (simp add: digits_val_def)
  show ?thesis unfolding body
  proof (rule parse_plain [OF refl c(1) _ _ m e _ assms(5)])
    show "dec_round (digits_val ds) (dp - 1 - int (length cs)) = mag" using assms(4) ds by (simp add: algebra_simps)
  qed (use us c digits_no_us [of "[c]"] in auto)
qed

lemma dec_round_0 [simp]: "dec_round 0 t = 0"
  by (simp add: dec_round_def f64_round_def)

lemma parse_digits:
  assumes "a \<noteq> []" "list_all is_digit a" "list_all is_digit b" "dec_round (digits_val (a @ b)) (- int (length b)) = mag" "mag < inf_mag"
    and t: "t = ''.'' @ b \<or> t = [] \<and> b = []"
  shows "ParseFloat ((if neg then ''-'' else []) @ a @ t) = Some (f64_of neg mag)"
proof -
  obtain c r where cr: "a = c # r" using assms(1) by (cases a) auto
  have d: "is_digit c" "list_all is_digit r" using assms(2) cr by simp_all
  have m: "read_mant False False False 0 0 (a @ t) = (True, digits_val (a @ b), length b, [])"
    using t read_mant_digits [OF assms(2), of False False 0 0 t] read_mant_digits [OF assms(3), of True True "digits_val a" 0 "[]"] assms(1)
      digits_val_append [of a b]
    by auto
  have us: "CHR ''_'' \<notin> set (a @ t)" using digits_no_us [OF assms(2)] digits_no_us [OF assms(3)] t by auto
  have x: "(a @ t) ! 1 \<notin> {CHR ''x'', CHR ''X''}" if "2 \<le> length (a @ t)"
    using that d(2) t unfolding cr by (cases r) auto
  have e: "read_exponent False [] = Some (0, [])" by (simp add: read_exponent_def)
  have "a @ t = c # (r @ t)" using cr by simp
  from parse_plain [OF this d(1) us _ m e _ assms(5)] x assms(4) show ?thesis by simp
qed

lemma fmtF_back:
  assumes "list_all is_digit ds" "if ds = [] then mag = 0 else dec_round (digits_val ds) (dp - int (length ds)) = mag" "mag < inf_mag"
  shows "ParseFloat ((if neg then ''-'' else []) @ fmtF ds dp) = Some (f64_of neg mag)"
proof -
  have z: "digits_val ''0'' = 0" by code_simp
  consider "ds = []" | "ds \<noteq> []" "dp \<le> 0" | "ds \<noteq> []" "0 < dp" "length ds \<le> nat dp" | "ds \<noteq> []" "0 < dp" "nat dp < length ds" by fastforce
  then show ?thesis
  proof cases
    case 1
    have "dec_round (digits_val (''0'' @ [])) (- int (length [])) = mag" using 1 assms(2) z by simp
    from parse_digits [OF _ _ _ this assms(3), of "[]"] 1 show ?thesis by (simp add: fmtF_def)
  next
    case 2
    let ?b = "replicate (nat (- dp)) CHR ''0'' @ ds"
    have "dec_round (digits_val (''0'' @ ?b)) (- int (length ?b)) = mag"
      using 2 assms(2) by (simp add: digits_val_append z algebra_simps del: append_Cons append_Nil)
    from parse_digits [OF _ _ _ this assms(3), of "''.'' @ ?b"] 2 assms(1) show ?thesis by (simp add: fmtF_def)
  next
    case 3
    let ?a = "ds @ replicate (nat dp - length ds) CHR ''0''"
    have "dec_round (digits_val (?a @ [])) (- int (length [])) = mag"
      using 3 assms(2) by (simp add: digits_val_append dec_round_shift of_nat_diff)
    from parse_digits [OF _ _ _ this assms(3), of "[]"] 3 assms(1) show ?thesis by (simp add: fmtF_def Let_def)
  next
    case 4
    let ?a = "take (nat dp) ds" and ?b = "drop (nat dp) ds"
    have ab: "list_all is_digit ?a" "list_all is_digit ?b" using assms(1) by (auto simp: list_all_iff dest: in_set_takeD in_set_dropD)
    have "dec_round (digits_val (?a @ ?b)) (- int (length ?b)) = mag" using 4 assms(2) by (simp add: of_nat_diff)
    from parse_digits [OF _ ab this assms(3), of "''.'' @ ?b"] 4 show ?thesis by (simp add: fmtF_def Let_def)
  qed
qed

lemma f64_of_parts [simp]: "f64_of (f64_neg f) (f64_mag f) = f"
proof -
  have "f64_mag f + (if f64_neg f then 2 ^ 63 else 0) = unat f"
    using unat64_less [of f] le_mod_geq [of "2 ^ 63" "unat f"] by (auto simp: f64_neg_def f64_mag_def)
  then show ?thesis by (simp add: f64_of_def)
qed

lemma fmtE_zero: "ParseFloat ((if neg then ''-'' else []) @ fmtE [] dp) = Some (f64_of neg 0)"
proof -
  have body: "fmtE [] dp = CHR ''0'' # ''e+00''" unfolding fmtE_def by code_simp
  have "read_exponent False ''e+00'' = Some (0, [])" "read_mant False False False 0 0 (CHR ''0'' # ''e+00'') = (True, 0, 0, ''e+00'')"
    by code_simp+
  from parse_plain [OF refl digit_0 _ _ this(2,1), of 0 neg] show ?thesis unfolding body by simp
qed

theorem float_text_back:
  assumes "\<not> IsNaN f" "\<not> IsInf f" "fmt \<in> {fmtF, fmtE, fmtG}"
  shows "ParseFloat (FormatFloat fmt f) = Some f"
proof -
  have fin: "f64_mag f < inf_mag" using assms(1,2) by (simp add: IsNaN_def IsInf_def)
  obtain ds dp where s: "shortest (f64_mag f) = (ds, dp)" by (cases "shortest (f64_mag f)")
  have B: "list_all is_digit ds" "if ds = [] then f64_mag f = 0 else dec_round (digits_val ds) (dp - int (length ds)) = f64_mag f"
      "ds \<noteq> [] \<Longrightarrow> \<bar>dp\<bar> < 9000"
    using shortest_back [OF fin _ s] s by (cases "f64_mag f = 0"; simp add: shortest_def)+
  note F = fmtF_back [OF B(1,2) fin, of "f64_neg f"]
  have E: "ParseFloat ((if f64_neg f then ''-'' else []) @ fmtE ds dp) = Some (f64_of (f64_neg f) (f64_mag f))"
  proof (cases "ds = []")
    case True
    with B(2) show ?thesis by (simp add: fmtE_zero)
  next
    case False
    with fmtE_back [OF False B(1) B(3) [OF False] _ fin] B(2) show ?thesis by simp
  qed
  have "ParseFloat ((if f64_neg f then ''-'' else []) @ fmt ds dp) = Some f"
    using F E assms(3) by (auto simp: fmtG_def)
  then show ?thesis using assms(1,2) s by (simp add: FormatFloat_def)
qed

definition float_char :: "char \<Rightarrow> bool" where
  "float_char c \<longleftrightarrow> is_digit c \<or> c \<in> set ''+-.e''"

lemma shortest_digits: "list_all is_digit (fst (shortest mag))"
proof -
  have "list_all is_digit (rstrip0 (FormatUint c))" for c
    using FormatUint_digits [of c] rstrip0_split [of "FormatUint c"] by (metis list_all_append)
  then show ?thesis by (auto simp: shortest_def Let_def split: prod.splits)
qed

lemma FormatFloat_chars:
  assumes "\<not> IsNaN f" "\<not> IsInf f" "fmt \<in> {fmtF, fmtE, fmtG}"
  shows "list_all float_char (FormatFloat fmt f)"
proof -
  obtain ds dp where s: "shortest (f64_mag f) = (ds, dp)" by (cases "shortest (f64_mag f)")
  have d: "list_all float_char x" if "list_all is_digit x" for x using that by (auto simp: list_all_iff float_char_def)
  have ds: "list_all float_char ds" using shortest_digits [of "f64_mag f"] s d by simp
  have c: "float_char CHR ''0''" "float_char CHR ''.''" "float_char CHR ''e''" "float_char CHR ''+''" "float_char CHR ''-''"
    by (simp_all add: float_char_def)
  have F: "list_all float_char (fmtF ds dp)"
    using ds c by (auto simp: fmtF_def Let_def list_all_iff dest: in_set_takeD in_set_dropD)
  have E: "list_all float_char (fmtE ds dp)"
    using ds c d [OF FormatUint_digits [THEN conjunct1]] by (auto simp: fmtE_def Let_def split: list.splits)
  show ?thesis using F E c assms s by (auto simp: FormatFloat_def fmtG_def)
qed

end
