(* ===== verification/Resp.thy ===== *)
theory Resp
  imports GoFloat
begin

text \<open>
  The wire protocol of \<^verbatim>\<open>internal/protocol\<close>: RESP2/RESP3 values, \<^verbatim>\<open>Value.Append\<close>, \<^verbatim>\<open>Decode\<close> and
  \<^verbatim>\<open>ParseHello\<close>. A \<^verbatim>\<open>bufio.Reader\<close> is the list of the bytes that are still to come, and its end is
  the end of the connection.

  \<^verbatim>\<open>Decode\<close> calls itself on the elements of an aggregate. The model gives it one unit of fuel per
  byte of input, which is enough because every call consumes at least one byte: the development
  proves that the fuel never runs out and that \<open>Decode\<close> satisfies the recursion equation of the
  source.
\<close>

subsection \<open>Values (\<^verbatim>\<open>value.go\<close>)\<close>

text \<open>One constructor per \<^verbatim>\<open>Kind\<close>, with the fields the source documents as read for it; \<^const>\<open>None\<close>
  is the nil slice. \<open>VUnknown\<close> stands for a value of any kind without an encoding.\<close>

datatype RVal =
    SimpleString string
  | RError string
  | Integer int
  | BulkString "bytes option"
  | Array "RVal list option"
  | Null
  | Boolean bool
  | Double float64
  | BigNumber string
  | BulkError "bytes option"
  | Verbatim string bytes
  | RMap "(RVal \<times> RVal) list"
  | RSet "RVal list option"
  | Attribute "(RVal \<times> RVal) list"
  | Push "RVal list option"
  | VUnknown

definition BulkOf :: "string \<Rightarrow> RVal" where
  "BulkOf s = BulkString (Some s)"

definition ArrayOf :: "RVal list \<Rightarrow> RVal" where
  "ArrayOf elems = Array (Some elems)"

definition CRLF :: string where
  "CRLF = [byte 13, byte 10]"

subsection \<open>Encoding (\<^verbatim>\<open>encode.go\<close>)\<close>

definition formatDouble :: "float64 \<Rightarrow> string" where
  "formatDouble f =
     (if IsInf f \<and> \<not> f64_neg f then ''inf''
      else if IsInf f \<and> f64_neg f then ''-inf''
      else if IsNaN f then ''nan''
      else FormatFloat fmtG f)"

definition appendLine :: "char \<Rightarrow> string \<Rightarrow> bytes" where
  "appendLine typ s = typ # s @ CRLF"

definition appendBulk :: "char \<Rightarrow> bytes option \<Rightarrow> bytes" where
  "appendBulk typ b = (case b of None \<Rightarrow> typ # ''-1'' @ CRLF
     | Some b \<Rightarrow> typ # FormatInt (int (length b)) @ CRLF @ b @ CRLF)"

text \<open>\<open>dst\<close> is only appended to, so each function is given by the bytes it appends.\<close>

fun Append :: "RVal \<Rightarrow> bytes" where
  "Append (SimpleString s) = appendLine CHR ''+'' s"
| "Append (RError s) = appendLine CHR ''-'' s"
| "Append (Integer i) = appendLine CHR '':'' (FormatInt i)"
| "Append (BulkString b) = appendBulk CHR ''$'' b"
| "Append (Array None) = CHR ''*'' # ''-1'' @ CRLF"
| "Append (Array (Some es)) =
     CHR ''*'' # FormatInt (int (length es)) @ CRLF @ concat (map (Append) es)"
| "Append Null = ''_'' @ CRLF"
| "Append (Boolean b) = (if b then ''#t'' @ CRLF else ''#f'' @ CRLF)"
| "Append (Double f) = appendLine CHR '','' (formatDouble f)"
| "Append (BigNumber s) = appendLine CHR ''('' s"
| "Append (BulkError b) = appendBulk CHR ''!'' b"
| "Append (Verbatim fm b) =
     (let body = fm @ '':'' @ b in CHR ''='' # FormatInt (int (length body)) @ CRLF @ body @ CRLF)"
| "Append (RMap ps) =
     CHR ''%'' # FormatInt (int (length ps)) @ CRLF
       @ concat (map (\<lambda>(k, v). Append k @ Append v) ps)"
| "Append (RSet None) = CHR ''~'' # ''-1'' @ CRLF"
| "Append (RSet (Some es)) =
     CHR ''~'' # FormatInt (int (length es)) @ CRLF @ concat (map (Append) es)"
| "Append (Attribute ps) =
     CHR ''|'' # FormatInt (int (length ps)) @ CRLF
       @ concat (map (\<lambda>(k, v). Append k @ Append v) ps)"
| "Append (Push None) = CHR ''>'' # ''-1'' @ CRLF"
| "Append (Push (Some es)) =
     CHR ''>'' # FormatInt (int (length es)) @ CRLF @ concat (map (Append) es)"
| "Append VUnknown = appendLine CHR ''-'' ''ERR unknown kind''"

subsection \<open>Decoding (\<^verbatim>\<open>decode.go\<close>)\<close>

datatype perr =
    ReadType | ReadLine | LineMissingCRLF | BadInteger string | BadBoolean char | BadDouble string
  | InvalidBulkLen int | InvalidArrayLen int | InvalidSizedLen int | InvalidMapLen int
  | InvalidLen string int | BulkMissingCRLF | SizedMissingCRLF | VerbatimMissingFormat
  | ReadPayload | ReadBoolean | ReadCRLF | ExpectedCRLF | Unsupported char | OutOfFuel

definition isTypeByte :: "char \<Rightarrow> bool" where
  "isTypeByte b \<longleftrightarrow> b \<in> set ''+-:$*_#,(!=%~|>''"

definition readLine :: "bytes \<Rightarrow> (perr, string \<times> bytes) res" where
  "readLine r =
     (case Cut r (byte 10) of None \<Rightarrow> Err ReadLine
      | Some (line, rest) \<Rightarrow>
          if line = [] \<or> last line \<noteq> byte 13 then Err LineMissingCRLF
          else Ok (butlast line, rest))"

definition readInt :: "bytes \<Rightarrow> (perr, int \<times> bytes) res" where
  "readInt r = bind_res (readLine r) (\<lambda>(s, r).
     case ParseInt s of None \<Rightarrow> Err (BadInteger s) | Some n \<Rightarrow> Ok (n, r))"

definition readFull :: "bytes \<Rightarrow> nat \<Rightarrow> (perr, bytes \<times> bytes) res" where
  "readFull r n = (if length r < n then Err ReadPayload else Ok (take n r, drop n r))"

definition expectCRLF :: "bytes \<Rightarrow> (perr, bytes) res" where
  "expectCRLF r =
     (case r of b1 # b2 # r \<Rightarrow>
        if b1 \<noteq> byte 13 \<or> b2 \<noteq> byte 10 then Err ExpectedCRLF else Ok r
      | _ \<Rightarrow> Err ReadCRLF)"

definition decodeInline :: "bytes \<Rightarrow> (perr, RVal \<times> bytes) res" where
  "decodeInline r = bind_res (readLine r) (\<lambda>(line, r).
     Ok (ArrayOf (map BulkOf (Fields line)), r))"

text \<open>\<^verbatim>\<open>make([]byte, n+2)\<close>: the sum wraps around, and a length below zero or beyond the address
  space panics.\<close>

definition make_bytes_ok :: "int \<Rightarrow> bool" where
  "make_bytes_ok n \<longleftrightarrow> 0 \<le> wrap64 n \<and> makeslice_ok 1 (nat (wrap64 n))"

definition decodeBulk :: "bytes \<Rightarrow> (perr, RVal \<times> bytes) res" where
  "decodeBulk r = bind_res (readInt r) (\<lambda>(n, r).
     if n = -1 then Ok (BulkString None, r)
     else if n < -1 then Err (InvalidBulkLen n)
     else if \<not> make_bytes_ok (n + 2) then Panic
     else bind_res (readFull r (nat n + 2)) (\<lambda>(buf, r).
       if buf ! nat n \<noteq> byte 13 \<or> buf ! (nat n + 1) \<noteq> byte 10 then Err BulkMissingCRLF
       else Ok (BulkString (Some (take (nat n) buf)), r)))"

definition decodeSized :: "bytes \<Rightarrow> (perr, bytes \<times> bytes) res" where
  "decodeSized r = bind_res (readInt r) (\<lambda>(n, r).
     if n < 0 then Err (InvalidSizedLen n)
     else if \<not> make_bytes_ok (n + 2) then Panic
     else bind_res (readFull r (nat n + 2)) (\<lambda>(buf, r).
       if buf ! nat n \<noteq> byte 13 \<or> buf ! (nat n + 1) \<noteq> byte 10 then Err SizedMissingCRLF
       else Ok (take (nat n) buf, r)))"

definition decodeVerbatim :: "bytes \<Rightarrow> (perr, RVal \<times> bytes) res" where
  "decodeVerbatim r = bind_res (decodeSized r) (\<lambda>(b, r).
     case Cut b (CHR '':'') of None \<Rightarrow> Err VerbatimMissingFormat
     | Some (fm, body) \<Rightarrow> Ok (Verbatim fm body, r))"

text \<open>A \<^verbatim>\<open>Value\<close> takes 136 bytes and a \<^verbatim>\<open>Pair\<close> 272. \<open>D\<close> is the recursive call.\<close>

type_synonym rdecoder = "bytes \<Rightarrow> (perr, RVal \<times> bytes) res"

definition decodeArray :: "rdecoder \<Rightarrow> rdecoder" where
  "decodeArray D r = bind_res (readInt r) (\<lambda>(n, r).
     if n = -1 then Ok (Array None, r)
     else if n < -1 then Err (InvalidArrayLen n)
     else if \<not> makeslice_ok 136 (nat n) then Panic
     else bind_res (decode_loop (\<lambda>_. D) 0 (nat n) r) (\<lambda>(es, r). Ok (Array (Some es), r)))"

definition decodeN :: "rdecoder \<Rightarrow> string \<Rightarrow> bytes \<Rightarrow> (perr, RVal list \<times> bytes) res" where
  "decodeN D what r = bind_res (readInt r) (\<lambda>(n, r).
     if n < 0 then Err (InvalidLen what n)
     else if \<not> makeslice_ok 136 (nat n) then Panic
     else decode_loop (\<lambda>_. D) 0 (nat n) r)"

definition decode_pair :: "rdecoder \<Rightarrow> nat \<Rightarrow> bytes \<Rightarrow> (perr, (RVal \<times> RVal) \<times> bytes) res" where
  "decode_pair D i r = bind_res (D r) (\<lambda>(k, r). bind_res (D r) (\<lambda>(v, r). Ok ((k, v), r)))"

definition decodeMapAs :: "rdecoder \<Rightarrow> bytes \<Rightarrow> (perr, (RVal \<times> RVal) list \<times> bytes) res" where
  "decodeMapAs D r = bind_res (readInt r) (\<lambda>(n, r).
     if n < 0 then Err (InvalidMapLen n)
     else if \<not> makeslice_ok 272 (nat n) then Panic
     else decode_loop (decode_pair D) 0 (nat n) r)"

definition decodeTyped :: "rdecoder \<Rightarrow> char \<Rightarrow> rdecoder" where
  "decodeTyped D typ r =
     (if typ = CHR ''+'' then bind_res (readLine r) (\<lambda>(s, r). Ok (SimpleString s, r))
      else if typ = CHR ''-'' then bind_res (readLine r) (\<lambda>(s, r). Ok (RError s, r))
      else if typ = CHR '':'' then bind_res (readInt r) (\<lambda>(n, r). Ok (Integer n, r))
      else if typ = CHR ''$'' then decodeBulk r
      else if typ = CHR ''*'' then decodeArray D r
      else if typ = CHR ''_'' then bind_res (expectCRLF r) (\<lambda>r. Ok (Null, r))
      else if typ = CHR ''#'' then
        (case r of [] \<Rightarrow> Err ReadBoolean
         | b # r \<Rightarrow> bind_res (expectCRLF r) (\<lambda>r.
             if b = CHR ''t'' then Ok (Boolean True, r)
             else if b = CHR ''f'' then Ok (Boolean False, r)
             else Err (BadBoolean b)))
      else if typ = CHR '','' then
        bind_res (readLine r) (\<lambda>(s, r).
          case ParseFloat s of None \<Rightarrow> Err (BadDouble s) | Some f \<Rightarrow> Ok (Double f, r))
      else if typ = CHR ''('' then bind_res (readLine r) (\<lambda>(s, r). Ok (BigNumber s, r))
      else if typ = CHR ''!'' then bind_res (decodeSized r) (\<lambda>(b, r). Ok (BulkError (Some b), r))
      else if typ = CHR ''='' then decodeVerbatim r
      else if typ = CHR ''%'' then bind_res (decodeMapAs D r) (\<lambda>(ps, r). Ok (RMap ps, r))
      else if typ = CHR ''~'' then bind_res (decodeN D ''set'' r) (\<lambda>(es, r). Ok (RSet (Some es), r))
      else if typ = CHR ''|'' then bind_res (decodeMapAs D r) (\<lambda>(ps, r). Ok (Attribute ps, r))
      else if typ = CHR ''>'' then bind_res (decodeN D ''push'' r) (\<lambda>(es, r). Ok (Push (Some es), r))
      else Err (Unsupported typ))"

text \<open>One call of the source's \<^verbatim>\<open>Decode\<close>, and the recursion.\<close>

definition decode_step :: "rdecoder \<Rightarrow> rdecoder" where
  "decode_step D r =
     (case r of [] \<Rightarrow> Err ReadType
      | b # r' \<Rightarrow> if \<not> isTypeByte b then decodeInline r else decodeTyped D b r')"

primrec decode_fuel :: "nat \<Rightarrow> rdecoder" where
  "decode_fuel 0 r = Err OutOfFuel"
| "decode_fuel (Suc n) r = decode_step (decode_fuel n) r"

definition RDecode :: "rdecoder" where
  "RDecode r = decode_fuel (length r + 1) r"

subsection \<open>HELLO (\<^verbatim>\<open>hello.go\<close>)\<close>

definition isBulk :: "RVal \<Rightarrow> string \<Rightarrow> bool" where
  "isBulk v want = (case v of BulkString b \<Rightarrow> EqualFold (case b of None \<Rightarrow> [] | Some s \<Rightarrow> s) want | _ \<Rightarrow> False)"

datatype hello_err = NotHello | UnsupportedHello

definition ParseHello :: "RVal \<Rightarrow> (hello_err, int) res" where
  "ParseHello v =
     (case v of
        Array (Some (e # es)) \<Rightarrow>
          if \<not> isBulk e ''hello'' then Err NotHello
          else (case es of [] \<Rightarrow> Ok 3
                | arg # _ \<Rightarrow>
                    (case arg of
                       BulkString (Some s) \<Rightarrow>
                         if s = ''2'' then Ok 2 else if s = ''3'' then Ok 3 else Err UnsupportedHello
                     | Integer i \<Rightarrow> if i = 2 \<or> i = 3 then Ok i else Err UnsupportedHello
                     | _ \<Rightarrow> Err UnsupportedHello))
      | _ \<Rightarrow> Err NotHello)"

subsection \<open>Every call consumes input\<close>

lemma Cut_shorter: "Cut s c = Some (a, b) \<Longrightarrow> length b < length s"
  by (induction s arbitrary: a) (auto split: if_splits)

lemma readLine_shorter: "readLine r = Ok (s, r') \<Longrightarrow> length r' < length r"
  by (auto simp: readLine_def split: option.splits if_splits dest: Cut_shorter)

lemma readInt_shorter: "readInt r = Ok (n, r') \<Longrightarrow> length r' < length r"
  by (auto simp: readInt_def split: option.splits dest: readLine_shorter)

lemma readFull_shorter: "readFull r n = Ok (b, r') \<Longrightarrow> length r' \<le> length r"
  by (auto simp: readFull_def split: if_splits)

lemma decodeBulk_shorter: "decodeBulk r = Ok (v, r') \<Longrightarrow> length r' < length r"
  by (fastforce simp: decodeBulk_def split: if_splits dest: readInt_shorter readFull_shorter)

lemma decodeSized_shorter: "decodeSized r = Ok (v, r') \<Longrightarrow> length r' < length r"
  by (fastforce simp: decodeSized_def split: if_splits dest: readInt_shorter readFull_shorter)

lemma expectCRLF_shorter: "expectCRLF r = Ok r' \<Longrightarrow> length r' < length r"
  by (auto simp: expectCRLF_def split: list.splits if_splits)

lemma decode_loop_shorter:
  assumes "\<And>i b x b'. d i b = Ok (x, b') \<Longrightarrow> length b' < length b"
    and "decode_loop d i n b = Ok (xs, b')"
  shows "length b' \<le> length b"
  using assms(2)
proof (induction n arbitrary: i b xs)
  case (Suc n)
  then obtain x c ys where c: "d i b = Ok (x, c)" and "decode_loop d (Suc i) n c = Ok (ys, b')"
    by auto
  with Suc.IH [of "Suc i" c ys] assms(1) [OF c] show ?case by linarith
qed simp

definition shrinks :: "rdecoder \<Rightarrow> bool" where
  "shrinks D \<longleftrightarrow> (\<forall>b x b'. D b = Ok (x, b') \<longrightarrow> length b' < length b)"

lemma shrinksD: "shrinks D \<Longrightarrow> D b = Ok (x, b') \<Longrightarrow> length b' < length b"
  by (simp add: shrinks_def)

lemma decode_pair_shorter:
  assumes S: "shrinks D" and "decode_pair D i b = Ok (p, b')"
  shows "length b' < length b"
  using assms(2) by (fastforce simp: decode_pair_def dest: shrinksD [OF S])

lemma decode_elems_shorter: "shrinks D \<Longrightarrow> decode_loop (\<lambda>_. D) i n b = Ok (xs, b') \<Longrightarrow> length b' \<le> length b"
  using decode_loop_shorter [of "\<lambda>_. D"] shrinksD by blast

lemma decode_pairs_shorter: "shrinks D \<Longrightarrow> decode_loop (decode_pair D) i n b = Ok (xs, b') \<Longrightarrow> length b' \<le> length b"
  using decode_loop_shorter [of "decode_pair D"] decode_pair_shorter by blast

lemma decodeArray_shorter:
  assumes S: "shrinks D" and "decodeArray D r = Ok (v, r')"
  shows "length r' < length r"
  using assms(2) 
  by (fastforce simp: decodeArray_def split: if_splits
      dest: readInt_shorter decode_elems_shorter [OF S])

lemma decodeN_shorter:
  assumes S: "shrinks D" and "decodeN D w r = Ok (v, r')"
  shows "length r' < length r"
  using assms(2) 
  by (fastforce simp: decodeN_def split: if_splits
      dest: readInt_shorter decode_elems_shorter [OF S])

lemma decodeMapAs_shorter:
  assumes S: "shrinks D" and "decodeMapAs D r = Ok (v, r')"
  shows "length r' < length r"
  using assms(2) 
  by (fastforce simp: decodeMapAs_def split: if_splits
      dest: readInt_shorter decode_pairs_shorter [OF S])

lemma decodeVerbatim_shorter: "decodeVerbatim r = Ok (v, r') \<Longrightarrow> length r' < length r"
  by (auto simp: decodeVerbatim_def split: option.splits dest!: decodeSized_shorter)

lemma decodeInline_shorter: "decodeInline r = Ok (v, r') \<Longrightarrow> length r' < length r"
  by (auto simp: decodeInline_def dest!: readLine_shorter)

lemmas reader_shorter = readLine_shorter readInt_shorter expectCRLF_shorter decodeBulk_shorter
  decodeSized_shorter decodeVerbatim_shorter

lemma decodeTyped_shorter:
  assumes S: "shrinks D" and "decodeTyped D t r = Ok (v, r')"
  shows "length r' < length r"
  using assms(2) unfolding decodeTyped_def
  by (auto split: if_splits list.splits option.splits
      dest!: reader_shorter decodeArray_shorter [OF S] decodeN_shorter [OF S] decodeMapAs_shorter [OF S])

lemma shrinks_decode_step:
  assumes S: "shrinks D"
  shows "shrinks (decode_step D)"
  unfolding shrinks_def decode_step_def
  by (auto split: list.splits if_splits dest!: decodeTyped_shorter [OF S] decodeInline_shorter)

lemma shrinks_decode_fuel: "shrinks (decode_fuel n)"
proof (induction n)
  case 0
  then show ?case by (simp add: shrinks_def)
next
  case (Suc n)
  then have "shrinks (decode_step (decode_fuel n))" by (rule shrinks_decode_step)
  then show ?case by (simp add: shrinks_def)
qed

subsection \<open>The fuel is enough\<close>

lemma decode_loop_cong:
  assumes "\<And>i b x b'. d i b = Ok (x, b') \<Longrightarrow> length b' < length b"
    and "\<And>i b'. length b' \<le> length b \<Longrightarrow> d i b' = d' i b'"
  shows "decode_loop d i n b = decode_loop d' i n b"
  using assms(2)
proof (induction n arbitrary: i b)
  case (Suc n)
  have e: "d i b = d' i b" using Suc.prems by simp
  show ?case
  proof (cases "d i b")
    case (Ok p)
    obtain x c where p: "p = (x, c)" by (cases p)
    with Ok assms(1) have "length c < length b" by blast
    then have "decode_loop d (Suc i) n c = decode_loop d' (Suc i) n c"
      using Suc.prems by (intro Suc.IH) simp
    with Ok e p show ?thesis by simp
  qed (use e in simp_all)
qed simp

definition agree :: "nat \<Rightarrow> rdecoder \<Rightarrow> rdecoder \<Rightarrow> bool" where
  "agree n D D' \<longleftrightarrow> (\<forall>b. length b \<le> n \<longrightarrow> D b = D' b)"

lemma agree_mono: "agree n D D' \<Longrightarrow> m \<le> n \<Longrightarrow> agree m D D'"
  by (simp add: agree_def)

lemma decode_elems_cong:
  "shrinks D \<Longrightarrow> agree (length b) D D' \<Longrightarrow> decode_loop (\<lambda>_. D) i n b = decode_loop (\<lambda>_. D') i n b"
  by (rule decode_loop_cong) (auto simp: agree_def dest: shrinksD)

lemma decode_pair_cong:
  assumes "shrinks D" and "agree (length b) D D'"
  shows "decode_pair D i b = decode_pair D' i b"
proof (cases "D b")
  case (Ok p)
  obtain x c where p: "p = (x, c)" by (cases p)
  with Ok assms have "D c = D' c" "D b = D' b" by (auto simp: agree_def dest!: shrinksD)
  with Ok p show ?thesis by (simp add: decode_pair_def)
qed (use assms in \<open>simp_all add: decode_pair_def agree_def\<close>)

lemma decode_pairs_cong:
  assumes "shrinks D" and "agree (length b) D D'"
  shows "decode_loop (decode_pair D) i n b = decode_loop (decode_pair D') i n b"
proof (rule decode_loop_cong)
  show "length c' < length c" if "decode_pair D j c = Ok (x, c')" for j c x c'
    using decode_pair_shorter [OF assms(1) that] .
  show "decode_pair D j c = decode_pair D' j c" if "length c \<le> length b" for j c
    using assms that by (intro decode_pair_cong) (auto intro: agree_mono)
qed

lemma bind_res_cong: "(\<And>x. m = Ok x \<Longrightarrow> f x = g x) \<Longrightarrow> bind_res m f = bind_res m g"
  by (cases m) auto

lemma decode_aggregate_cong:
  assumes "shrinks D" and "agree (length r) D D'"
  shows "decodeArray D r = decodeArray D' r" and "decodeN D w r = decodeN D' w r"
    and "decodeMapAs D r = decodeMapAs D' r"
proof -
  have "agree (length c) D D'" if "readInt r = Ok (n, c)" for n c
    using assms(2) readInt_shorter [OF that] by (auto intro: agree_mono)
  note cong = decode_elems_cong [OF assms(1) this] decode_pairs_cong [OF assms(1) this]
  show "decodeArray D r = decodeArray D' r"
    unfolding decodeArray_def by (rule bind_res_cong) (auto simp: cong split: prod.split)
  show "decodeN D w r = decodeN D' w r"
    unfolding decodeN_def by (rule bind_res_cong) (auto simp: cong split: prod.split)
  show "decodeMapAs D r = decodeMapAs D' r"
    unfolding decodeMapAs_def by (rule bind_res_cong) (auto simp: cong split: prod.split)
qed

lemma decode_step_cong:
  assumes "shrinks D" and "\<And>b. length b < length r \<Longrightarrow> D b = D' b"
  shows "decode_step D r = decode_step D' r"
proof (cases r)
  case (Cons t b)
  then have "agree (length b) D D'" using assms(2) by (simp add: agree_def)
  note decode_aggregate_cong [OF assms(1) this]
  then have "decodeTyped D t b = decodeTyped D' t b" by (simp add: decodeTyped_def)
  with Cons show ?thesis by (simp add: decode_step_def)
qed (simp add: decode_step_def)

lemma bind_res_Err: "bind_res m f = Err e \<longleftrightarrow> m = Err e \<or> (\<exists>x. m = Ok x \<and> f x = Err e)"
  by (cases m) auto

lemma decode_fuel_RDecode: "length r < n \<Longrightarrow> decode_fuel n r = RDecode r"
proof (induction r arbitrary: n rule: length_induct)
  case (1 r)
  then obtain m where n: "n = Suc m" by (cases n) auto
  have "decode_step (decode_fuel m) r = decode_step (decode_fuel (length r)) r"
    using "1" n by (intro decode_step_cong [OF shrinks_decode_fuel]) simp
  with n show ?case by (simp add: RDecode_def)
qed

lemma RDecode_rec: "RDecode r = decode_step RDecode r"
proof -
  have "decode_step (decode_fuel (length r)) r = decode_step RDecode r"
    by (rule decode_step_cong [OF shrinks_decode_fuel]) (rule decode_fuel_RDecode)
  then show ?thesis by (simp add: RDecode_def)
qed

lemma readers_no_fuel [simp]:
  "readLine r \<noteq> Err OutOfFuel" "readInt r \<noteq> Err OutOfFuel" "readFull r n \<noteq> Err OutOfFuel"
  "expectCRLF r \<noteq> Err OutOfFuel"
  by (auto simp: readLine_def readInt_def readFull_def expectCRLF_def bind_res_Err
      split: option.splits if_splits list.splits)

lemma sized_no_fuel [simp]:
  "decodeBulk r \<noteq> Err OutOfFuel" "decodeSized r \<noteq> Err OutOfFuel" "decodeInline r \<noteq> Err OutOfFuel"
  "decodeVerbatim r \<noteq> Err OutOfFuel"
  by (auto simp: decodeBulk_def decodeSized_def decodeInline_def decodeVerbatim_def bind_res_Err
      split: option.splits if_splits)

lemma decode_loop_no_fuel:
  assumes "\<And>i b. d i b \<noteq> Err e"
  shows "decode_loop d i n b \<noteq> Err e"
  by (induction n arbitrary: i b) (auto simp: bind_res_Err assms)

lemma decode_aggregate_no_fuel:
  assumes "\<And>b. D b \<noteq> Err OutOfFuel"
  shows "decodeArray D r \<noteq> Err OutOfFuel" "decodeN D w r \<noteq> Err OutOfFuel"
    "decodeMapAs D r \<noteq> Err OutOfFuel"
proof -
  have "decode_pair D i b \<noteq> Err OutOfFuel" for i b
    using assms by (auto simp: decode_pair_def bind_res_Err)
  note loops = decode_loop_no_fuel [of "\<lambda>_. D", OF assms] decode_loop_no_fuel [of "decode_pair D", OF this]
  show "decodeArray D r \<noteq> Err OutOfFuel" "decodeN D w r \<noteq> Err OutOfFuel"
    "decodeMapAs D r \<noteq> Err OutOfFuel"
    by (auto simp: decodeArray_def decodeN_def decodeMapAs_def bind_res_Err loops split: if_splits)
qed

lemma decode_step_no_fuel:
  assumes "\<And>b. D b \<noteq> Err OutOfFuel"
  shows "decode_step D r \<noteq> Err OutOfFuel"
proof -
  have "decodeTyped D t b \<noteq> Err OutOfFuel" for t b
    using decode_aggregate_no_fuel [OF assms]
    by (auto simp: decodeTyped_def bind_res_Err split: if_splits list.splits option.splits)
  then show ?thesis by (auto simp: decode_step_def split: list.splits)
qed

lemma shrinks_RDecode: "shrinks (RDecode)"
  unfolding shrinks_def RDecode_def using shrinksD [OF shrinks_decode_fuel] by blast

lemma RDecode_no_fuel: "RDecode r \<noteq> Err OutOfFuel"
proof (induction r rule: length_induct)
  case (1 r)
  define D where "D = (\<lambda>b. if length b < length r then RDecode b else Err ReadType)"
  have "shrinks D" using shrinksD [OF shrinks_RDecode] by (auto simp: D_def shrinks_def split: if_splits)
  then have "decode_step D r = decode_step RDecode r"
    by (rule decode_step_cong) (simp add: D_def)
  moreover have "decode_step D r \<noteq> Err OutOfFuel"
    using "1" by (intro decode_step_no_fuel) (simp add: D_def)
  ultimately show ?case by (simp add: RDecode_rec [of r])
qed

subsection \<open>Round trip\<close>

text \<open>What a value must satisfy to survive the wire: lines hold no line feed, aggregates and
  payloads fit the address space, the kinds without a null form are not null, a verbatim
  format holds no colon, and a double that is not a number has the pattern of \<^verbatim>\<open>math.NaN()\<close>.\<close>

fun resp_ok :: "RVal \<Rightarrow> bool" where
  "resp_ok (SimpleString s) = (byte 10 \<notin> set s)"
| "resp_ok (RError s) = (byte 10 \<notin> set s)"
| "resp_ok (Integer i) = int64_range i"
| "resp_ok (BulkString None) = True"
| "resp_ok (BulkString (Some b)) = (length b + 2 \<le> 2 ^ 48)"
| "resp_ok (Array None) = True"
| "resp_ok (Array (Some es)) = (makeslice_ok 136 (length es) \<and> list_all (resp_ok) es)"
| "resp_ok Null = True"
| "resp_ok (Boolean b) = True"
| "resp_ok (Double f) = (IsNaN f \<longrightarrow> f = f64_nan)"
| "resp_ok (BigNumber s) = (byte 10 \<notin> set s)"
| "resp_ok (BulkError b) = (case b of None \<Rightarrow> False | Some b \<Rightarrow> length b + 2 \<le> 2 ^ 48)"
| "resp_ok (Verbatim fm b) = (CHR '':'' \<notin> set fm \<and> length fm + length b + 3 \<le> 2 ^ 48)"
| "resp_ok (RMap ps) =
     (makeslice_ok 272 (length ps) \<and> list_all (\<lambda>(k, v). resp_ok k \<and> resp_ok v) ps)"
| "resp_ok (RSet None) = False"
| "resp_ok (RSet (Some es)) = (makeslice_ok 136 (length es) \<and> list_all (resp_ok) es)"
| "resp_ok (Attribute ps) =
     (makeslice_ok 272 (length ps) \<and> list_all (\<lambda>(k, v). resp_ok k \<and> resp_ok v) ps)"
| "resp_ok (Push None) = False"
| "resp_ok (Push (Some es)) = (makeslice_ok 136 (length es) \<and> list_all (resp_ok) es)"
| "resp_ok VUnknown = False"

lemma formatDouble_back: "(IsNaN f \<longrightarrow> f = f64_nan) \<Longrightarrow> ParseFloat (formatDouble f) = Some f"
proof -
  assume nan: "IsNaN f \<longrightarrow> f = f64_nan"
  have special: "parse_special ''inf'' = Some (f64_of False inf_mag)" "parse_special ''-inf'' = Some (f64_of True inf_mag)"
    "parse_special ''nan'' = Some f64_nan"
    by (simp_all add: parse_special_def split_sign_def lower_ascii_def lower_char_def ord_def)
  have "f = f64_of (f64_neg f) inf_mag" if "IsInf f" using that f64_of_parts [of f] unfolding IsInf_def by simp
  then show ?thesis using nan special float_text_back [of f fmtG]
    by (cases "f64_neg f") (auto simp: formatDouble_def ParseFloat_def)
qed

lemma formatDouble_no_LF: "byte 10 \<notin> set (formatDouble f)"
proof -
  have "\<not> is_digit (byte 10)" by (simp add: is_digit_def)
  then have lf: "byte 10 \<notin> set ''inf''" "byte 10 \<notin> set ''-inf''" "byte 10 \<notin> set ''nan''" "\<not> float_char (byte 10)"
    by (simp_all add: float_char_def byte_char_iff ord_def)
  have "list_all float_char (FormatFloat fmtG f)" if "\<not> IsNaN f" "\<not> IsInf f" using FormatFloat_chars [OF that] by simp
  with lf show ?thesis by (auto simp: formatDouble_def list_all_iff)
qed

lemma readLine_append: "byte 10 \<notin> set s \<Longrightarrow> readLine (s @ CRLF @ r) = Ok (s, r)"
proof -
  assume "byte 10 \<notin> set s"
  moreover have "byte 13 \<noteq> byte 10" by (simp add: byte_eq_iff)
  ultimately have "Cut ((s @ [byte 13]) @ byte 10 # r) (byte 10) = Some (s @ [byte 13], r)"
    by (intro Cut_append) auto
  then show ?thesis by (simp add: readLine_def CRLF_def)
qed

lemma FormatInt_no_LF: "byte 10 \<notin> set (FormatInt i)"
proof -
  have "\<not> is_digit (byte 10)" by (simp add: is_digit_def)
  moreover have "byte 10 \<noteq> CHR ''-''" by (simp add: byte_char_iff ord_def)
  ultimately show ?thesis using FormatUint_chars by (auto simp: FormatInt_def)
qed

lemma readInt_append: "int64_range i \<Longrightarrow> readInt (FormatInt i @ CRLF @ r) = Ok (i, r)"
  using FormatInt_no_LF [of i] by (simp add: readInt_def readLine_append)

lemma readInt_length: "n < 2 ^ 63 \<Longrightarrow> readInt (FormatInt (int n) @ CRLF @ r) = Ok (int n, r)"
  by (intro readInt_append) (simp add: int64_range_def)

lemma readInt_null: "readInt (''-1'' @ CRLF @ r) = Ok (-1, r)"
proof -
  have "FormatInt (-1) = ''-1''" by (simp add: FormatInt_def FormatUint.simps digit_char_def byte_char_iff ord_def)
  with readInt_append [of "-1" r] show ?thesis by (simp add: int64_range_def)
qed

lemma length_CRLF [simp]: "length CRLF = 2" "CRLF ! 0 = byte 13" "CRLF ! Suc 0 = byte 10"
  by (simp_all add: CRLF_def)

lemma readFull_append: "readFull (b @ CRLF @ r) (length b + 2) = Ok (b @ CRLF, r)"
  by (simp add: readFull_def)

lemma make_bytes_ok_length: "n + 2 \<le> 2 ^ 48 \<Longrightarrow> make_bytes_ok (int n + 2)"
  by (simp add: make_bytes_ok_def makeslice_ok_def wrap64_id int64_range_def nat_add_distrib)

lemma nth_payload: "(b @ CRLF) ! length b = byte 13" "(b @ CRLF) ! Suc (length b) = byte 10"
  by (simp_all add: nth_append)

lemma decodeBulk_append:
  "length b + 2 \<le> 2 ^ 48 \<Longrightarrow>
     decodeBulk (FormatInt (int (length b)) @ CRLF @ b @ CRLF @ r) = Ok (BulkString (Some b), r)"
  using readFull_append [of b r]
  by (simp add: decodeBulk_def readInt_length make_bytes_ok_length nth_payload)

lemma decodeSized_append:
  "length b + 2 \<le> 2 ^ 48 \<Longrightarrow>
     decodeSized (FormatInt (int (length b)) @ CRLF @ b @ CRLF @ r) = Ok (b, r)"
  using readFull_append [of b r]
  by (simp add: decodeSized_def readInt_length make_bytes_ok_length nth_payload)

lemma decodeVerbatim_append:
  assumes "CHR '':'' \<notin> set fm" and "length fm + length b + 3 \<le> 2 ^ 48"
  shows "decodeVerbatim (FormatInt (int (length (fm @ '':'' @ b))) @ CRLF @ (fm @ '':'' @ b) @ CRLF @ r)
    = Ok (Verbatim fm b, r)"
proof -
  have "decodeSized (FormatInt (int (length (fm @ '':'' @ b))) @ CRLF @ (fm @ '':'' @ b) @ CRLF @ r)
      = Ok (fm @ '':'' @ b, r)"
    using assms(2) by (intro decodeSized_append) simp
  then show ?thesis using Cut_append [OF assms(1), of b] unfolding decodeVerbatim_def by simp
qed

lemma elems_append:
  assumes "makeslice_ok 136 (length es)" and "\<And>e r. e \<in> set es \<Longrightarrow> D (F e @ r) = Ok (e, r)"
  shows "decodeArray D (FormatInt (int (length es)) @ CRLF @ concat (map F es) @ r) = Ok (Array (Some es), r)"
    and "decodeN D w (FormatInt (int (length es)) @ CRLF @ concat (map F es) @ r) = Ok (es, r)"
proof -
  have l: "length es < 2 ^ 63" using assms(1) by (simp add: makeslice_ok_def)
  have "prefix_codec F (\<lambda>_. D) (\<lambda>e. e \<in> set es)" using assms(2) by unfold_locales
  from prefix_codec.decode_loop_concat [OF this, of es 0 r]
  have "decode_loop (\<lambda>_. D) 0 (length es) (concat (map F es) @ r) = Ok (es, r)"
    by (simp add: list_all_iff)
  with l assms(1) show "decodeArray D (FormatInt (int (length es)) @ CRLF @ concat (map F es) @ r) = Ok (Array (Some es), r)"
    "decodeN D w (FormatInt (int (length es)) @ CRLF @ concat (map F es) @ r) = Ok (es, r)"
    by (simp_all add: decodeArray_def decodeN_def readInt_length)
qed

lemma pairs_append:
  assumes "makeslice_ok 272 (length ps)"
    and "\<And>k v r. (k, v) \<in> set ps \<Longrightarrow> D (F k @ r) = Ok (k, r) \<and> D (F v @ r) = Ok (v, r)"
  shows "decodeMapAs D (FormatInt (int (length ps)) @ CRLF @ concat (map (\<lambda>(k, v). F k @ F v) ps) @ r) = Ok (ps, r)"
proof -
  have l: "length ps < 2 ^ 63" using assms(1) by (simp add: makeslice_ok_def)
  have "prefix_codec (\<lambda>(k, v). F k @ F v) (decode_pair D) (\<lambda>p. p \<in> set ps)"
    using assms(2) by unfold_locales (auto simp: decode_pair_def)
  from prefix_codec.decode_loop_concat [OF this, of ps 0 r]
  have "decode_loop (decode_pair D) 0 (length ps) (concat (map (\<lambda>(k, v). F k @ F v) ps) @ r) = Ok (ps, r)"
    by (simp add: list_all_iff)
  with l assms(1) show ?thesis by (simp add: decodeMapAs_def readInt_length)
qed

lemma RDecode_typed: "isTypeByte t \<Longrightarrow> RDecode (t # b) = decodeTyped (RDecode) t b"
  by (subst RDecode_rec) (simp add: decode_step_def)

lemma Append_roundtrip:
  "resp_ok v \<Longrightarrow> RDecode (Append v @ r) = Ok (v, r)"
proof (induction v arbitrary: r)
  case (Array oes)
  show ?case
  proof (cases oes)
    case None
    then show ?thesis
      using readInt_null [of r] by (simp add: RDecode_typed isTypeByte_def decodeTyped_def decodeArray_def)
  next
    case (Some es)
    with Array have "e \<in> set es \<Longrightarrow> RDecode (Append e @ r) = Ok (e, r)" for e r
      by (auto simp: list_all_iff)
    with Array.prems Some elems_append(1) [of es "RDecode" "Append" r] show ?thesis
      by (simp add: RDecode_typed isTypeByte_def decodeTyped_def)
  qed
next
  case (RMap ps)
  then have "(k, v) \<in> set ps \<Longrightarrow> RDecode (Append k @ r) = Ok (k, r) \<and> RDecode (Append v @ r) = Ok (v, r)" for k v r
    by (fastforce simp: list_all_iff)
  with RMap.prems pairs_append [of ps "RDecode" "Append" r] show ?case
    by (simp add: RDecode_typed isTypeByte_def decodeTyped_def)
next
  case (Attribute ps)
  then have "(k, v) \<in> set ps \<Longrightarrow> RDecode (Append k @ r) = Ok (k, r) \<and> RDecode (Append v @ r) = Ok (v, r)" for k v r
    by (fastforce simp: list_all_iff)
  with Attribute.prems pairs_append [of ps "RDecode" "Append" r] show ?case
    by (simp add: RDecode_typed isTypeByte_def decodeTyped_def)
next
  case (RSet oes)
  then obtain es where oes: "oes = Some es" by (cases oes) auto
  with RSet have "e \<in> set es \<Longrightarrow> RDecode (Append e @ r) = Ok (e, r)" for e r
    by (auto simp: list_all_iff)
  with RSet.prems oes elems_append(2) [of es "RDecode" "Append" "''set''" r] show ?case
    by (simp add: RDecode_typed isTypeByte_def decodeTyped_def)
next
  case (Push oes)
  then obtain es where oes: "oes = Some es" by (cases oes) auto
  with Push have "e \<in> set es \<Longrightarrow> RDecode (Append e @ r) = Ok (e, r)" for e r
    by (auto simp: list_all_iff)
  with Push.prems oes elems_append(2) [of es "RDecode" "Append" "''push''" r] show ?case
    by (simp add: RDecode_typed isTypeByte_def decodeTyped_def)
next
  case (BulkString oes)
  then show ?case using readInt_null [of r]
    by (cases oes) (simp_all add: RDecode_typed isTypeByte_def decodeTyped_def appendBulk_def
        decodeBulk_append decodeBulk_def [of "CHR ''-'' # CHR ''1'' # CRLF @ r"])
next
  case (BulkError oes)
  then show ?case
    by (cases oes) (simp_all add: RDecode_typed isTypeByte_def decodeTyped_def appendBulk_def decodeSized_append)
next
  case (Verbatim fm b)
  then show ?case using decodeVerbatim_append [of fm b r]
    by (simp add: RDecode_typed isTypeByte_def decodeTyped_def Let_def)
next
  case (Boolean b)
  then show ?case
    by (simp add: RDecode_typed isTypeByte_def decodeTyped_def expectCRLF_def CRLF_def)
next
  case Null
  then show ?case
    by (simp add: RDecode_typed isTypeByte_def decodeTyped_def expectCRLF_def CRLF_def)
qed (simp_all add: RDecode_typed isTypeByte_def decodeTyped_def appendLine_def readLine_append readInt_append
    formatDouble_back formatDouble_no_LF)

subsection \<open>The protocol is sound\<close>

text \<open>
  C5. What \<^verbatim>\<open>Value.Append\<close> writes, \<^verbatim>\<open>Decode\<close> reads back: the same value, and the reader stands exactly
  behind it, so that pipelined values are read one after the other. The hypothesis excludes what
  the wire format cannot carry, such as a line feed in a simple string.
\<close>

theorem resp_roundtrip:
  assumes "resp_ok v"
  shows "RDecode (Append v @ r) = Ok (v, r)"
  by (rule Append_roundtrip [OF assms])

theorem resp_roundtrip_witness:
  "RDecode (Append
        (RMap [(BulkOf ''k'', Array (Some [Integer (-3), Double 0x3FF8000000000000, Array None])),
               (Verbatim ''txt'' ''a:b'', RSet (Some []))]) @ ''+OK'')
   = Ok (RMap [(BulkOf ''k'', Array (Some [Integer (-3), Double 0x3FF8000000000000, Array None])),
               (Verbatim ''txt'' ''a:b'', RSet (Some []))], ''+OK'')"
  by (rule resp_roundtrip) (simp add: BulkOf_def makeslice_ok_def int64_range_def IsNaN_def f64_mag_def)

text \<open>
  C6. \<^verbatim>\<open>Decode\<close> returns on every input: it satisfies the recursion equation of the source, with the
  recursive calls on the elements, it never runs out of the fuel the model gives it, and every
  value it returns was paid for with at least one byte of input.
\<close>

theorem resp_decode_total:
  "RDecode r = decode_step RDecode r
   \<and> RDecode r \<noteq> Err OutOfFuel
   \<and> (RDecode r = Ok (v, r') \<longrightarrow> length r' < length r)"
  using RDecode_rec [of r] RDecode_no_fuel [of r] shrinksD [OF shrinks_RDecode] by blast

theorem resp_decode_total_witness:
  "RDecode (''_'' @ CRLF @ ''rest'') = Ok (Null, ''rest'')
   \<and> length ''rest'' < length (''_'' @ CRLF @ ''rest'')"
proof -
  have "RDecode (''_'' @ CRLF @ ''rest'') = Ok (Null, ''rest'')"
    using Append_roundtrip [of Null "''rest''"] by simp
  with resp_decode_total [of "''_'' @ CRLF @ ''rest''" Null "''rest''"]
  show ?thesis by blast
qed

lemma token_no_LF: "is_token w \<Longrightarrow> byte 10 \<notin> set w"
proof -
  have "is_space (byte 10)" by (simp add: is_space_def)
  then show "is_token w \<Longrightarrow> byte 10 \<notin> set w" using token_char by blast
qed

lemma Join_no_LF: "list_all is_token ws \<Longrightarrow> byte 10 \<notin> set (Join ws '' '')"
proof (induction ws "'' ''" rule: Join.induct)
  case (3 x y ys)
  moreover have "byte 10 \<noteq> CHR '' ''" by (simp add: byte_char_iff ord_def)
  ultimately show ?case by (simp add: token_no_LF)
qed (simp_all add: token_no_LF)

lemma decodeInline_words:
  "list_all is_token ws \<Longrightarrow> decodeInline (Join ws '' '' @ CRLF @ r) = Ok (ArrayOf (map BulkOf ws), r)"
  by (simp add: decodeInline_def readLine_append Join_no_LF Fields_Join)

text \<open>
  C21. An inline command is the command: words separated by blanks on one line decode to the same
  value as the array of bulk strings a client library would send, provided that the line does not start
  with one of the bytes that announce a typed value. A word is any non-empty string of bytes that decodes
  to no white space of Unicode.
\<close>

theorem inline_equals_array:
  assumes "list_all is_token (w # ws)" and "\<not> isTypeByte (hd w)"
    and "resp_ok (ArrayOf (map BulkOf (w # ws)))"
  shows "RDecode (Join (w # ws) '' '' @ CRLF @ r)
       = RDecode (Append (ArrayOf (map BulkOf (w # ws))) @ r)"
proof -
  obtain c t where w: "w = c # t" using assms(1) by (cases w) (auto simp: is_token_def)
  obtain t' where j: "Join (w # ws) '' '' = c # t'" using w by (cases ws) auto
  have "RDecode (Join (w # ws) '' '' @ CRLF @ r) = decodeInline (Join (w # ws) '' '' @ CRLF @ r)"
    by (subst RDecode_rec) (use assms(2) w j in \<open>simp add: decode_step_def\<close>)
  with assms show ?thesis by (simp only: decodeInline_words Append_roundtrip)
qed

theorem inline_equals_array_witness:
  "RDecode (''SET k v'' @ CRLF @ '''')
     = RDecode (Append (ArrayOf (map BulkOf [''SET'', ''k'', ''v''])) @ '''')"
proof -
  have t: "list_all is_token [''SET'', ''k'', ''v'']" by code_simp
  have h: "\<not> isTypeByte (hd ''SET'')" by (simp add: isTypeByte_def)
  have o: "resp_ok (ArrayOf (map BulkOf [''SET'', ''k'', ''v'']))"
    by (simp add: ArrayOf_def BulkOf_def makeslice_ok_def)
  show ?thesis using inline_equals_array [OF t h o, of "''''"] by simp
qed

text \<open>
  The announced length of an aggregate is not bounded before the slice is made: an array header
  with a count whose elements would not fit the address space makes \<^verbatim>\<open>Decode\<close> panic, whatever
  follows, before a single element is read.
\<close>

theorem resp_huge_array_panics:
  assumes "2 ^ 48 < 136 * n" and "n < 2 ^ 63"
  shows "RDecode (CHR ''*'' # FormatInt (int n) @ CRLF @ r) = Panic"
  using assms
  by (simp add: RDecode_typed isTypeByte_def decodeTyped_def decodeArray_def readInt_length makeslice_ok_def)

theorem resp_huge_array_panics_witness:
  "RDecode (CHR ''*'' # FormatInt (int (2 ^ 63 - 1)) @ CRLF @ []) = Panic"
  by (rule resp_huge_array_panics) simp_all

end
