(* ===== verification/Backlog.thy ===== *)
theory Backlog
  imports Codec
begin

text \<open>
  The sending side of replication in \<^verbatim>\<open>internal/replication\<close>: the backlog of recent changes
  (\<^verbatim>\<open>backlog.go\<close>), the hub that broadcasts them to the subscribed replicas (\<^verbatim>\<open>hub.go\<close>), and the
  format of a full synchronisation (\<^verbatim>\<open>rdb.go\<close>). Offsets are mathematical integers: the counter
  starts at 0 and grows by one per change, so that \<open>2 ^ 63\<close> is out of reach.

  The mutexes of the hub make three kinds of step atomic: appending to the backlog, broadcasting
  one change, and registering a subscriber. Their interleavings are the step relation \<open>hub_step\<close>.
\<close>

subsection \<open>The backlog (\<^verbatim>\<open>backlog.go\<close>)\<close>

record Op =
  Offset :: int
  Del :: bool
  Key :: bytes
  Val :: bytes

record Backlog =
  bmax :: nat
  ops :: "Op list"
  base :: int
  nxt :: int

datatype repl_error = ErrStaleOffset

definition NewBacklog :: "int \<Rightarrow> Backlog" where
  "NewBacklog mx = \<lparr> bmax = (if mx \<le> 0 then 1024 else nat mx), ops = [], base = 0, nxt = 0 \<rparr>"

definition Append_op :: "Backlog \<Rightarrow> Op \<Rightarrow> Backlog \<times> int" where
  "Append_op b p =
     (let n = nxt b + 1;
          os = ops b @ [p\<lparr> Offset := n \<rparr>];
          b = b\<lparr> nxt := n, ops := os \<rparr>
      in if bmax b < length os
         then let k = length os - bmax b in (b\<lparr> ops := drop k os, base := base b + int k \<rparr>, n)
         else (b, n))"

definition Since :: "Backlog \<Rightarrow> int \<Rightarrow> (repl_error, Op list) res" where
  "Since b offset =
     (if offset < base b then Err ErrStaleOffset
      else Ok (filter (\<lambda>p. offset < Offset p) (ops b)))"

definition Latest :: "Backlog \<Rightarrow> int" where
  "Latest b = nxt b"

text \<open>What the backlog promises, in terms of the list of all changes ever appended: the changes are
  numbered from 1, and the backlog holds the last \<open>bmax\<close> of them.\<close>

definition numbered :: "Op list \<Rightarrow> Op list" where
  "numbered h = map (\<lambda>(i, p). p\<lparr> Offset := int i + 1 \<rparr>) (enumerate 0 h)"

definition backlog_of :: "Backlog \<Rightarrow> Op list \<Rightarrow> bool" where
  "backlog_of b h \<longleftrightarrow>
     0 < bmax b \<and> nxt b = int (length h) \<and> base b = int (length h - bmax b)
     \<and> ops b = drop (length h - bmax b) (numbered h)"

lemma length_numbered [simp]: "length (numbered h) = length h"
  by (simp add: numbered_def)

lemma numbered_snoc: "numbered (h @ [p]) = numbered h @ [p\<lparr> Offset := int (length h) + 1 \<rparr>]"
  by (simp add: numbered_def enumerate_append_eq)

lemma nth_numbered: "i < length h \<Longrightarrow> numbered h ! i = (h ! i)\<lparr> Offset := int i + 1 \<rparr>"
  by (simp add: numbered_def nth_enumerate_eq)

lemma backlog_of_New: "backlog_of (NewBacklog mx) []"
  by (simp add: backlog_of_def NewBacklog_def numbered_def)

lemma backlog_of_Append:
  assumes "backlog_of b h"
  shows "backlog_of (fst (Append_op b p)) (h @ [p])" and "snd (Append_op b p) = int (length h) + 1"
proof -
  from assms have n: "nxt b = int (length h)" and m: "0 < bmax b"
    and os0: "ops b = drop (length h - bmax b) (numbered h)" and bs: "base b = int (length h - bmax b)"
    by (simp_all add: backlog_of_def)
  have os: "ops b @ [p\<lparr> Offset := nxt b + 1 \<rparr>] = drop (length h - bmax b) (numbered (h @ [p]))"
    using n os0 by (simp add: numbered_snoc)
  have l: "length (ops b) = length h - (length h - bmax b)" by (simp add: os0)
  show "backlog_of (fst (Append_op b p)) (h @ [p])"
  proof (cases "bmax b < Suc (length (ops b))")
    case True
    with l m have "bmax b \<le> length h" "length (ops b) = bmax b" by auto
    moreover from this m have "Suc (length h - bmax b) - length h = 0" by simp
    ultimately show ?thesis using n m bs
      by (simp add: Append_op_def backlog_of_def Let_def Suc_diff_le numbered_snoc os0)
  next
    case False
    with l have "length h - bmax b = 0" "Suc (length h) - bmax b = 0" by auto
    with False n m os bs show ?thesis
      by (simp add: Append_op_def backlog_of_def Let_def)
  qed
  show "snd (Append_op b p) = int (length h) + 1" using n by (simp add: Append_op_def Let_def)
qed

lemma filter_numbered:
  "filter (\<lambda>p. int off < Offset p) (numbered h) = drop off (numbered h)"
proof (induction h rule: rev_induct)
  case (snoc p h)
  then show ?case by (auto simp: numbered_snoc)
qed (simp add: numbered_def)

text \<open>\<open>Since\<close> returns exactly the changes after the offset, as long as none of them was dropped.\<close>

lemma Since_backlog:
  assumes "backlog_of b h"
  shows "Since b (int off) =
    (if off < length h - bmax b then Err ErrStaleOffset else Ok (drop off (numbered h)))"
proof -
  have bs: "base b = int (length h - bmax b)" and os0: "ops b = drop (length h - bmax b) (numbered h)"
    using assms by (simp_all add: backlog_of_def)
  have "filter (\<lambda>p. int off < Offset p) (drop k (numbered h)) = drop off (numbered h)"
    if "k \<le> off" for k
  proof -
    have "filter (\<lambda>p. int off < Offset p) (take k (numbered h)) = []"
      using that by (auto simp: filter_empty_conv in_set_conv_nth nth_numbered)
    then have "filter (\<lambda>p. int off < Offset p) (numbered h)
        = filter (\<lambda>p. int off < Offset p) (drop k (numbered h))"
      by (metis append_Nil append_take_drop_id filter_append)
    then show ?thesis by (simp add: filter_numbered)
  qed
  then show ?thesis using bs os0 by (auto simp: Since_def)
qed

subsection \<open>Replaying changes\<close>

text \<open>The effect of a change on the contents of a store.\<close>

definition apply_op :: "Op \<Rightarrow> (bytes \<rightharpoonup> bytes) \<Rightarrow> (bytes \<rightharpoonup> bytes)" where
  "apply_op p m = m(Key p := (if Del p then None else Some (Val p)))"

abbreviation replay :: "Op list \<Rightarrow> (bytes \<rightharpoonup> bytes) \<Rightarrow> (bytes \<rightharpoonup> bytes)" where
  "replay ps m \<equiv> fold apply_op ps m"

text \<open>The last change of a key decides.\<close>

lemma replay_apply:
  "replay ps m k =
     (case find (\<lambda>p. Key p = k) (rev ps) of None \<Rightarrow> m k
      | Some p \<Rightarrow> if Del p then None else Some (Val p))"
  by (induction ps rule: rev_induct) (auto simp: apply_op_def)

lemma find_append: "find P (xs @ ys) = (case find P xs of None \<Rightarrow> find P ys | Some x \<Rightarrow> Some x)"
  by (induction xs) auto

lemma replay_overlap: "replay (ys @ zs) (replay (xs @ ys) m) = replay (xs @ ys @ zs) m"
proof
  fix k
  show "replay (ys @ zs) (replay (xs @ ys) m) k = replay (xs @ ys @ zs) m k"
    unfolding replay_apply [of "ys @ zs"] replay_apply [of "xs @ ys"] replay_apply [of "xs @ ys @ zs"]
    by (auto simp: find_append split: option.splits)
qed

lemma apply_op_numbered: "apply_op (p\<lparr> Offset := i \<rparr>) = apply_op p"
  by (simp add: apply_op_def fun_eq_iff)

lemma replay_numbered: "replay (numbered h) m = replay h m"
  by (induction h arbitrary: m rule: rev_induct) (simp_all add: numbered_snoc apply_op_numbered numbered_def [of "[]"])

lemma replay_drop_numbered: "replay (drop off (numbered h)) (replay (take off h) m) = replay h m"
proof -
  have "take off (numbered h) = numbered (take off h)"
    by (rule nth_equalityI) (simp_all add: nth_numbered)
  then have "replay (take off h) m = replay (take off (numbered h)) m"
    by (simp add: replay_numbered)
  then have "replay (drop off (numbered h)) (replay (take off h) m)
      = replay (take off (numbered h) @ drop off (numbered h)) m" by (simp only: fold_append comp_apply)
  then show ?thesis by (simp add: replay_numbered)
qed

subsection \<open>The hub (\<^verbatim>\<open>hub.go\<close>)\<close>

text \<open>A subscription's channel is the list of the messages in its buffer; a closed channel can still
  be drained by its reader and is kept in \<open>closed\<close>.\<close>

definition subBufSize :: nat where "subBufSize = 256"

record Hub =
  backlog :: Backlog
  subs :: "(int \<times> Op list list) list"
  closed :: "(int \<times> Op list list) list"
  nextSub :: int

definition NewHub :: "int \<Rightarrow> Hub" where
  "NewHub maxOps = \<lparr> backlog = NewBacklog maxOps, subs = [], closed = [], nextSub = 0 \<rparr>"

definition has_room :: "int \<times> Op list list \<Rightarrow> bool" where
  "has_room s \<longleftrightarrow> length (snd s) < subBufSize"

text \<open>The loop over the subscriptions: a message goes into every channel with room, and a channel
  without room is closed and forgotten.\<close>

definition broadcast :: "Op \<Rightarrow> Hub \<Rightarrow> Hub" where
  "broadcast p h =
     h\<lparr> subs := map (\<lambda>(i, buf). (i, buf @ [[p]])) (filter has_room (subs h)),
        closed := closed h @ filter (\<lambda>s. \<not> has_room s) (subs h) \<rparr>"

definition append_hub :: "Op \<Rightarrow> Hub \<Rightarrow> Hub \<times> Op" where
  "append_hub p h =
     (case Append_op (backlog h) p of (b, off) \<Rightarrow> (h\<lparr> backlog := b \<rparr>, p\<lparr> Offset := off \<rparr>))"

definition Publish :: "Hub \<Rightarrow> Op \<Rightarrow> Hub \<times> int" where
  "Publish h p = (case append_hub p h of (h, p) \<Rightarrow> (broadcast p h, Offset p))"

definition Subscribe :: "Hub \<Rightarrow> Hub \<times> int" where
  "Subscribe h =
     (let i = nextSub h + 1 in (h\<lparr> nextSub := i, subs := AList.update i [] (subs h) \<rparr>, i))"

definition Unsubscribe :: "Hub \<Rightarrow> int \<Rightarrow> Hub" where
  "Unsubscribe h i =
     (case map_of (subs h) i of None \<Rightarrow> h
      | Some buf \<Rightarrow> h\<lparr> subs := AList.delete i (subs h), closed := closed h @ [(i, buf)] \<rparr>)"

definition SubscribeSince :: "Hub \<Rightarrow> int \<Rightarrow> Hub \<times> (int \<times> Op list) option" where
  "SubscribeSince h offset =
     (case Subscribe h of (h, i) \<Rightarrow>
      case Since (backlog h) offset of
        Ok missed \<Rightarrow> (h, Some (i, missed))
      | _ \<Rightarrow> (Unsubscribe h i, None))"

definition SubCount :: "Hub \<Rightarrow> int" where
  "SubCount h = int (length (subs h))"

definition CloseHub :: "Hub \<Rightarrow> Hub" where
  "CloseHub h = h\<lparr> subs := [], closed := closed h @ subs h \<rparr>"

text \<open>
  Interleavings. A session is a replica between \<^verbatim>\<open>SubscribeSince\<close> and the loss of its channel: the
  offset it asked for, the missed changes once \<^verbatim>\<open>Since\<close> has run, and what it took from its
  channel. \<open>flying\<close> holds the changes that are in the backlog and not yet broadcast; \<open>hist\<close> is
  the list of all changes, kept for the statement of the properties.
\<close>

record session =
  asked :: nat
  missed :: "Op list option"
  got :: "Op list"

record hub_state =
  hub :: Hub
  flying :: "Op list"
  hist :: "Op list"
  sess :: "int \<rightharpoonup> session"

inductive hub_step :: "hub_state \<Rightarrow> hub_state \<Rightarrow> bool" where
  append: "append_hub p (hub s) = (h, q) \<Longrightarrow>
     hub_step s (s\<lparr> hub := h, flying := q # flying s, hist := hist s @ [p] \<rparr>)"
| bcast: "q \<in> set (flying s) \<Longrightarrow>
     hub_step s (s\<lparr> hub := broadcast q (hub s), flying := remove1 q (flying s) \<rparr>)"
| register: "Subscribe (hub s) = (h, i) \<Longrightarrow>
     hub_step s (s\<lparr> hub := h, sess := (sess s)(i \<mapsto> \<lparr> asked = off, missed = None, got = [] \<rparr>) \<rparr>)"
| since: "sess s i = Some w \<Longrightarrow> missed w = None \<Longrightarrow> Since (backlog (hub s)) (int (asked w)) = Ok ms \<Longrightarrow>
     hub_step s (s\<lparr> sess := (sess s)(i \<mapsto> w\<lparr> missed := Some ms \<rparr>) \<rparr>)"
| stale: "sess s i = Some w \<Longrightarrow> missed w = None \<Longrightarrow> Since (backlog (hub s)) (int (asked w)) = Err e \<Longrightarrow>
     hub_step s (s\<lparr> hub := Unsubscribe (hub s) i, sess := (sess s)(i := None) \<rparr>)"
| recv: "sess s i = Some w \<Longrightarrow> missed w \<noteq> None \<Longrightarrow> map_of (subs (hub s)) i = Some (m # buf) \<Longrightarrow>
     hub_step s (s\<lparr> hub := (hub s)\<lparr> subs := AList.update i buf (subs (hub s)) \<rparr>,
                    sess := (sess s)(i \<mapsto> w\<lparr> got := got w @ m \<rparr>) \<rparr>)"
| leave: "hub_step s (s\<lparr> hub := Unsubscribe (hub s) i, sess := (sess s)(i := None) \<rparr>)"

inductive_cases hub_stepE: "hub_step s t"

definition hub_init :: "int \<Rightarrow> hub_state" where
  "hub_init maxOps = \<lparr> hub = NewHub maxOps, flying = [], hist = [], sess = Map.empty \<rparr>"

inductive hub_reach :: "int \<Rightarrow> hub_state \<Rightarrow> bool" for maxOps where
  init: "hub_reach maxOps (hub_init maxOps)"
| step: "hub_reach maxOps s \<Longrightarrow> hub_step s t \<Longrightarrow> hub_reach maxOps t"

text \<open>What holds in every state: the backlog represents the history; a subscribed session will see,
  or has seen, every change after some point \<open>r\<close> that lies before its \<^verbatim>\<open>Since\<close>, and \<^verbatim>\<open>Since\<close> gave it
  everything between its offset and that point.\<close>

definition covered :: "Op list \<Rightarrow> Op list \<Rightarrow> session \<Rightarrow> Op list list \<Rightarrow> nat \<Rightarrow> bool" where
  "covered hs fl w buf r \<longleftrightarrow>
     r \<le> length hs
     \<and> set (drop r (numbered hs)) \<subseteq> set fl \<union> set (got w) \<union> set (concat buf)
     \<and> (case missed w of None \<Rightarrow> got w = []
        | Some ms \<Rightarrow> set (take (r - asked w) (drop (asked w) (numbered hs))) \<subseteq> set ms)"

definition hub_inv :: "hub_state \<Rightarrow> bool" where
  "hub_inv s \<longleftrightarrow>
     backlog_of (backlog (hub s)) (hist s)
     \<and> gomap (subs (hub s))
     \<and> (\<forall>i buf. map_of (subs (hub s)) i = Some buf \<longrightarrow> i \<le> nextSub (hub s))
     \<and> (\<forall>i w buf. sess s i = Some w \<longrightarrow> map_of (subs (hub s)) i = Some buf
          \<longrightarrow> (\<exists>r. covered (hist s) (flying s) w buf r))"

lemma append_hub_eq:
  assumes "backlog_of (backlog h) hs" and "append_hub p h = (h', q)"
  shows "backlog_of (backlog h') (hs @ [p])" and "q = p\<lparr> Offset := int (length hs) + 1 \<rparr>"
    and "subs h' = subs h" and "nextSub h' = nextSub h"
  using assms backlog_of_Append [OF assms(1), of p]
  by (auto simp: append_hub_def split: prod.splits)

lemma map_of_broadcast:
  assumes "gomap (subs h)" and "map_of (subs (broadcast p h)) i = Some buf'"
  shows "\<exists>buf. map_of (subs h) i = Some buf \<and> buf' = buf @ [[p]]"
proof -
  from map_of_SomeD [OF assms(2)] obtain buf where "(i, buf) \<in> set (subs h)" "buf' = buf @ [[p]]"
    by (auto simp: broadcast_def)
  with assms(1) show ?thesis by (simp add: gomap_def)
qed

lemma gomap_broadcast: "gomap (subs h) \<Longrightarrow> gomap (subs (broadcast p h))"
  by (simp add: broadcast_def gomap_def comp_def case_prod_beta distinct_map_filter)

lemma map_of_Unsubscribe: "map_of (subs (Unsubscribe h i)) = (map_of (subs h))(i := None)"
  by (auto simp: Unsubscribe_def delete_conv' fun_eq_iff split: option.splits)

lemma gomap_Unsubscribe: "gomap (subs h) \<Longrightarrow> gomap (subs (Unsubscribe h i))"
  by (simp add: Unsubscribe_def split: option.splits)

lemma Unsubscribe_fields [simp]:
  "backlog (Unsubscribe h i) = backlog h" "nextSub (Unsubscribe h i) = nextSub h"
  by (simp_all add: Unsubscribe_def split: option.splits)

lemma broadcast_fields [simp]: "backlog (broadcast p h) = backlog h" "nextSub (broadcast p h) = nextSub h"
  by (simp_all add: broadcast_def)

lemma covered_append:
  assumes "covered hs fl w buf r"
  shows "covered (hs @ [p]) (p\<lparr> Offset := int (length hs) + 1 \<rparr> # fl) w buf r"
proof -
  have r: "r \<le> length hs" using assms by (simp add: covered_def)
  then have "take (r - asked w) (drop (asked w) (numbered hs @ [q]))
      = take (r - asked w) (drop (asked w) (numbered hs))" for q by simp
  with assms r show ?thesis by (auto simp: covered_def numbered_snoc split: option.splits)
qed

lemma covered_bcast:
  assumes "covered hs fl w buf r"
  shows "covered hs (remove1 q fl) w (buf @ [[q]]) r"
proof -
  have "x \<in> set fl \<Longrightarrow> x = q \<or> x \<in> set (remove1 q fl)" for x by (cases "x = q") simp_all
  with assms show ?thesis by (fastforce simp: covered_def split: option.splits)
qed

lemma covered_recv:
  assumes "covered hs fl w (m # buf) r" and "missed w \<noteq> None"
  shows "covered hs fl (w\<lparr> got := got w @ m \<rparr>) buf r"
  using assms by (auto simp: covered_def split: option.splits)

lemma covered_since:
  assumes "covered hs fl w buf r" and "missed w = None"
  shows "covered hs fl (w\<lparr> missed := Some (drop (asked w) (numbered hs)) \<rparr>) buf r"
  using assms set_take_subset by (fastforce simp: covered_def)

lemma hub_inv_append:
  assumes I: "hub_inv s" and a: "append_hub p (hub s) = (h, q)"
  shows "hub_inv (s\<lparr> hub := h, flying := q # flying s, hist := hist s @ [p] \<rparr>)"
proof -
  have b: "backlog_of (backlog (hub s)) (hist s)" using I by (simp add: hub_inv_def)
  note h = append_hub_eq [OF b a]
  from I h show ?thesis using covered_append unfolding hub_inv_def by simp blast
qed

lemma hub_inv_bcast:
  assumes I: "hub_inv s"
  shows "hub_inv (s\<lparr> hub := broadcast q (hub s), flying := remove1 q (flying s) \<rparr>)"
proof -
  have g: "gomap (subs (hub s))" using I by (simp add: hub_inv_def)
  show ?thesis using I unfolding hub_inv_def
    by (auto simp: gomap_broadcast dest!: map_of_broadcast [OF g]) (blast intro: covered_bcast)
qed

lemma hub_inv_register:
  assumes I: "hub_inv s" and r: "Subscribe (hub s) = (h, i)"
  shows "hub_inv (s\<lparr> hub := h, sess := (sess s)(i \<mapsto> \<lparr> asked = off, missed = None, got = [] \<rparr>) \<rparr>)"
proof -
  have i: "i = nextSub (hub s) + 1"
    and h: "h = (hub s)\<lparr> nextSub := i, subs := AList.update i [] (subs (hub s)) \<rparr>"
    using r by (auto simp: Subscribe_def Let_def)
  have "covered hs fl \<lparr> asked = off, missed = None, got = [] \<rparr> [] (length hs)" for hs fl
    by (simp add: covered_def)
  then show ?thesis
    using I unfolding hub_inv_def h i by (force simp: update_conv')
qed

lemma hub_inv_leave:
  assumes "hub_inv s"
  shows "hub_inv (s\<lparr> hub := Unsubscribe (hub s) i, sess := (sess s)(i := None) \<rparr>)"
  using assms unfolding hub_inv_def by (auto simp: map_of_Unsubscribe gomap_Unsubscribe)

lemma hub_inv_since:
  assumes I: "hub_inv s" and w: "sess s i = Some w" "missed w = None"
    and m: "Since (backlog (hub s)) (int (asked w)) = Ok ms"
  shows "hub_inv (s\<lparr> sess := (sess s)(i \<mapsto> w\<lparr> missed := Some ms \<rparr>) \<rparr>)"
proof -
  have "backlog_of (backlog (hub s)) (hist s)" using I by (simp add: hub_inv_def)
  from Since_backlog [OF this, of "asked w"] m have "ms = drop (asked w) (numbered (hist s))"
    by (auto split: if_splits)
  with I w show ?thesis unfolding hub_inv_def by auto (blast intro: covered_since)
qed

lemma hub_inv_recv:
  assumes I: "hub_inv s" and w: "sess s i = Some w" "missed w \<noteq> None"
    and m: "map_of (subs (hub s)) i = Some (m # buf)"
  shows "hub_inv (s\<lparr> hub := (hub s)\<lparr> subs := AList.update i buf (subs (hub s)) \<rparr>,
                     sess := (sess s)(i \<mapsto> w\<lparr> got := got w @ m \<rparr>) \<rparr>)"
  using I w m covered_recv [OF _ w(2)] unfolding hub_inv_def by (auto simp: update_conv') blast+

lemma hub_inv_step: "hub_step s t \<Longrightarrow> hub_inv s \<Longrightarrow> hub_inv t"
  by (induction rule: hub_step.induct)
    (simp_all add: hub_inv_append hub_inv_bcast hub_inv_register hub_inv_leave hub_inv_since hub_inv_recv)

lemma hub_inv_reach: "hub_reach maxOps s \<Longrightarrow> hub_inv s"
proof (induction rule: hub_reach.induct)
  case init
  then show ?case by (simp add: hub_inv_def hub_init_def NewHub_def backlog_of_New)
qed (simp add: hub_inv_step)

subsection \<open>Full synchronisation (\<^verbatim>\<open>rdb.go\<close>)\<close>

record RawEntry =
  RKey :: bytes
  RValue :: bytes

datatype rdb_error = BadRdbCount | TruncatedRdb string nat

definition enc_raw :: "RawEntry \<Rightarrow> bytes" where
  "enc_raw e = enc_str (RKey e) @ enc_str (RValue e)"

definition MarshalRDB :: "RawEntry list \<Rightarrow> bytes" where
  "MarshalRDB es = AppendUvarint (length es) @ concat (map enc_raw es)"

definition rdbBytes :: "bytes \<Rightarrow> (bytes \<times> bytes) option" where
  "rdbBytes b =
     (case Uvarint b of (n, adv) \<Rightarrow>
        if adv \<le> 0 \<or> length (drop (nat adv) b) < n then None
        else Some (take n (drop (nat adv) b), drop (nat adv + n) b))"

definition rdb_entry :: "nat \<Rightarrow> bytes \<Rightarrow> (rdb_error, RawEntry \<times> bytes) res" where
  "rdb_entry i rest =
     bind_res (or_err (TruncatedRdb ''key'' i) (rdbBytes rest)) (\<lambda>(k, rest2).
     bind_res (or_err (TruncatedRdb ''value'' i) (rdbBytes rest2)) (\<lambda>(v, rest3).
       Ok (\<lparr> RKey = k, RValue = v \<rparr>, rest3)))"

text \<open>A \<^verbatim>\<open>RawEntry\<close> takes 48 bytes.\<close>

definition UnmarshalRDB :: "bytes \<Rightarrow> (rdb_error, RawEntry list) res" where
  "UnmarshalRDB raw =
     (case uv raw of None \<Rightarrow> Err BadRdbCount
      | Some (n, rest) \<Rightarrow>
          if \<not> makeslice_ok 48 n then Panic
          else bind_res (decode_loop rdb_entry 0 n rest) (\<lambda>(es, _). Ok es))"

lemma rdbBytes_eq [simp]: "rdbBytes = dec_str"
proof
  fix b
  show "rdbBytes b = dec_str b"
    by (cases "Uvarint b") (simp add: rdbBytes_def dec_str_def uv_def add.commute)
qed

definition go_raw :: "RawEntry \<Rightarrow> bool" where
  "go_raw e \<longleftrightarrow> go_str (RKey e) \<and> go_str (RValue e)"

interpretation rdb_codec: trunc_codec enc_raw rdb_entry go_raw
proof
  fix e :: RawEntry and i k r
  assume ok: "go_raw e"
  then show "rdb_entry i (enc_raw e @ r) = Ok (e, r)"
    by (simp add: rdb_entry_def enc_raw_def codec_simps go_raw_def)
  assume k: "k < length (enc_raw e)"
  show "\<exists>x. rdb_entry i (take k (enc_raw e)) = Err x"
  proof (cases "k < length (enc_str (RKey e))")
    case True
    with ok show ?thesis by (simp add: rdb_entry_def enc_raw_def codec_simps go_raw_def)
  next
    case False
    with ok k have "dec_str (take (k - length (enc_str (RKey e))) (enc_str (RValue e))) = None"
      by (intro dec_str_truncated) (auto simp: enc_raw_def go_raw_def)
    with False ok show ?thesis by (simp add: rdb_entry_def enc_raw_def codec_simps go_raw_def)
  qed
qed

definition go_rdb :: "RawEntry list \<Rightarrow> bool" where
  "go_rdb es \<longleftrightarrow> makeslice_ok 48 (length es) \<and> list_all go_raw es"

lemma UnmarshalRDB_MarshalRDB [codec_simps]:
  assumes "go_rdb es"
  shows "UnmarshalRDB (MarshalRDB es) = Ok es"
proof -
  have "length es < 2 ^ 64" using assms by (simp add: go_rdb_def makeslice_ok_def)
  with assms rdb_codec.decode_loop_concat [of es 0 "[]"] show ?thesis
    by (simp add: UnmarshalRDB_def MarshalRDB_def go_rdb_def uv_append)
qed

lemma UnmarshalRDB_truncated:
  assumes "go_rdb es" and "k < length (MarshalRDB es)"
  shows "\<exists>e. UnmarshalRDB (take k (MarshalRDB es)) = Err e"
proof -
  have l: "length es < 2 ^ 64" using assms by (simp add: go_rdb_def makeslice_ok_def)
  have "case uv (take k (MarshalRDB es)) of None \<Rightarrow> True
      | Some (n, b) \<Rightarrow> n = length es \<and> (\<exists>e. decode_loop rdb_entry 0 n b = Err e)"
    using rdb_codec.counted_truncated [OF _ l] assms by (simp add: MarshalRDB_def go_rdb_def)
  with assms(1) show ?thesis by (auto simp: UnmarshalRDB_def go_rdb_def split: option.splits)
qed

subsection \<open>Replication is sound\<close>

text \<open>
  C20. A full synchronisation carries every entry in order, and a transfer cut off at any byte is
  rejected.
\<close>

theorem rdb_roundtrip:
  assumes "go_rdb es"
  shows "UnmarshalRDB (MarshalRDB es) = Ok es
    \<and> (k < length (MarshalRDB es) \<longrightarrow> (\<exists>e. UnmarshalRDB (take k (MarshalRDB es)) = Err e))"
  using assms by (simp add: UnmarshalRDB_MarshalRDB UnmarshalRDB_truncated)

theorem rdb_roundtrip_witness:
  "UnmarshalRDB (MarshalRDB [\<lparr> RKey = ''s:a'', RValue = ''xyz'' \<rparr>, \<lparr> RKey = ''l:b'', RValue = [] \<rparr>])
     = Ok [\<lparr> RKey = ''s:a'', RValue = ''xyz'' \<rparr>, \<lparr> RKey = ''l:b'', RValue = [] \<rparr>]"
  using rdb_roundtrip [of "[\<lparr> RKey = ''s:a'', RValue = ''xyz'' \<rparr>, \<lparr> RKey = ''l:b'', RValue = [] \<rparr>]" 0]
  by (simp add: go_rdb_def makeslice_ok_def go_raw_def go_str_def)

text \<open>The backlog after appending the changes \<open>h\<close> to an empty one.\<close>

definition run_backlog :: "int \<Rightarrow> Op list \<Rightarrow> Backlog" where
  "run_backlog mx h = fold (\<lambda>p b. fst (Append_op b p)) h (NewBacklog mx)"

lemma backlog_of_run: "backlog_of (run_backlog mx h) h"
proof (induction h rule: rev_induct)
  case Nil
  then show ?case by (simp add: run_backlog_def backlog_of_New)
next
  case (snoc p h)
  then show ?case using backlog_of_Append(1) by (simp add: run_backlog_def)
qed

lemma bmax_Append: "bmax (fst (Append_op b p)) = bmax b"
  by (simp add: Append_op_def Let_def)

lemma bmax_run: "bmax (run_backlog mx h) = (if mx \<le> 0 then 1024 else nat mx)"
  by (induction h rule: rev_induct) (simp_all add: run_backlog_def NewBacklog_def bmax_Append)

text \<open>
  C19. The ring buffer refines the list of all changes: whatever was appended, \<^verbatim>\<open>Since\<close> at an offset
  returns exactly the later changes, in order and numbered consecutively, unless more than the
  capacity of changes came after it, and then it is \<^verbatim>\<open>ErrStaleOffset\<close>; a replica that had applied
  the changes up to the offset and replays the answer holds the contents of the master.
\<close>

theorem backlog_since:
  "Latest (run_backlog mx h) = int (length h)
   \<and> Since (run_backlog mx h) (int off) =
       (if off < length h - (if mx \<le> 0 then 1024 else nat mx) then Err ErrStaleOffset
        else Ok (drop off (numbered h)))
   \<and> replay (drop off (numbered h)) (replay (take off h) m) = replay h m"
  using Since_backlog [OF backlog_of_run] backlog_of_run [of mx h] replay_drop_numbered
  by (simp add: bmax_run Latest_def backlog_of_def)

lemma set_drop_split: "set (drop a xs) \<subseteq> set (take (r - a) (drop a xs)) \<union> set (drop r xs)"
proof -
  have "set (drop a xs) = set (take (r - a) (drop a xs)) \<union> set (drop (r - a) (drop a xs))"
    by (subst set_append [symmetric], subst append_take_drop_id) simp
  moreover have "set (drop (r - a + a) xs) \<subseteq> set (drop r xs)"
    by (rule set_drop_subset_set_drop) simp
  ultimately show ?thesis by (auto simp: drop_drop)
qed

text \<open>
  C2. No gap between the backlog and the channel, under every interleaving of publishers and
  subscribers: as long as a replica's subscription is alive, each change after the offset it asked
  for is among the missed changes it was handed, or it has received it, or it is in its channel,
  or its broadcast is still to come.
\<close>

theorem hub_no_gap:
  assumes "hub_reach maxOps s" and "sess s i = Some w" and "missed w = Some ms"
    and "map_of (subs (hub s)) i = Some buf"
  shows "set (drop (asked w) (numbered (hist s)))
           \<subseteq> set ms \<union> set (got w) \<union> set (concat buf) \<union> set (flying s)"
proof -
  obtain r where r: "covered (hist s) (flying s) w buf r"
    using hub_inv_reach [OF assms(1)] assms(2,4) unfolding hub_inv_def by blast
  from r assms(3) have "set (take (r - asked w) (drop (asked w) (numbered (hist s)))) \<subseteq> set ms"
    and "set (drop r (numbered (hist s))) \<subseteq> set (flying s) \<union> set (got w) \<union> set (concat buf)"
    by (simp_all add: covered_def)
  with set_drop_split [of "asked w" "numbered (hist s)" r] show ?thesis by blast
qed

text \<open>A run in which two publishers append in one order and broadcast in the other.\<close>

definition demo_set :: "bytes \<Rightarrow> int \<Rightarrow> Op" where
  "demo_set v off = \<lparr> Offset = off, Del = False, Key = ''s:k'', Val = v \<rparr>"

definition demo_state ::
  "Op list \<Rightarrow> Op list list \<Rightarrow> Op list \<Rightarrow> Op list \<Rightarrow> Op list option \<Rightarrow> Op list \<Rightarrow> hub_state" where
  "demo_state bl buf fl hs mi g =
     \<lparr> hub = \<lparr> backlog = \<lparr> bmax = 10, ops = bl, base = 0, nxt = int (length bl) \<rparr>,
              subs = [(1, buf)], closed = [], nextSub = 1 \<rparr>,
       flying = fl, hist = hs, sess = [1 \<mapsto> \<lparr> asked = 0, missed = mi, got = g \<rparr>] \<rparr>"

lemma demo_steps:
  "hub_step (hub_init 10) (demo_state [] [] [] [] None [])"
  "hub_step (demo_state [] [] [] [] None []) (demo_state [] [] [] [] (Some []) [])"
  "hub_step (demo_state [] [] [] [] (Some []) [])
     (demo_state [demo_set ''1'' 1] [] [demo_set ''1'' 1] [demo_set ''1'' 0] (Some []) [])"
  "hub_step (demo_state [demo_set ''1'' 1] [] [demo_set ''1'' 1] [demo_set ''1'' 0] (Some []) [])
     (demo_state [demo_set ''1'' 1, demo_set ''2'' 2] [] [demo_set ''2'' 2, demo_set ''1'' 1]
       [demo_set ''1'' 0, demo_set ''2'' 0] (Some []) [])"
proof -
  show "hub_step (hub_init 10) (demo_state [] [] [] [] None [])"
    using hub_step.register [of "hub_init 10" _ _ 0]
    by (simp add: hub_init_def demo_state_def NewHub_def NewBacklog_def Subscribe_def Let_def)
  show "hub_step (demo_state [] [] [] [] None []) (demo_state [] [] [] [] (Some []) [])"
    using hub_step.since [of "demo_state [] [] [] [] None []" 1 "\<lparr> asked = 0, missed = None, got = [] \<rparr>" "[]"]
    by (simp add: demo_state_def Since_def)
  show "hub_step (demo_state [] [] [] [] (Some []) [])
     (demo_state [demo_set ''1'' 1] [] [demo_set ''1'' 1] [demo_set ''1'' 0] (Some []) [])"
    using hub_step.append [of "demo_set ''1'' 0" "demo_state [] [] [] [] (Some []) []"]
    by (simp add: demo_state_def append_hub_def Append_op_def demo_set_def)
  show "hub_step (demo_state [demo_set ''1'' 1] [] [demo_set ''1'' 1] [demo_set ''1'' 0] (Some []) [])
     (demo_state [demo_set ''1'' 1, demo_set ''2'' 2] [] [demo_set ''2'' 2, demo_set ''1'' 1]
       [demo_set ''1'' 0, demo_set ''2'' 0] (Some []) [])"
    using hub_step.append [of "demo_set ''2'' 0"
        "demo_state [demo_set ''1'' 1] [] [demo_set ''1'' 1] [demo_set ''1'' 0] (Some []) []"]
    by (simp add: demo_state_def append_hub_def Append_op_def demo_set_def)
qed

lemma demo_bcast:
  assumes "q \<in> set fl" and "length buf < subBufSize"
  shows "hub_step (demo_state bl buf fl hs mi g) (demo_state bl (buf @ [[q]]) (remove1 q fl) hs mi g)"
  using hub_step.bcast [of q "demo_state bl buf fl hs mi g"] assms
  by (simp add: demo_state_def broadcast_def has_room_def)

lemma demo_recv:
  "hub_step (demo_state bl (m # buf) fl hs (Some ms) g) (demo_state bl buf fl hs (Some ms) (g @ m))"
  using hub_step.recv [of "demo_state bl (m # buf) fl hs (Some ms) g" 1
      "\<lparr> asked = 0, missed = Some ms, got = g \<rparr>" m buf]
  by (simp add: demo_state_def)

abbreviation demo_hist :: "Op list" where
  "demo_hist \<equiv> [demo_set ''1'' 0, demo_set ''2'' 0]"

lemma demo_reach:
  "hub_reach 10 (demo_state [demo_set ''1'' 1, demo_set ''2'' 2] [[demo_set ''2'' 2]] [demo_set ''1'' 1]
     demo_hist (Some []) [])"
  "hub_reach 10 (demo_state [demo_set ''1'' 1, demo_set ''2'' 2] [] [] demo_hist (Some [])
     [demo_set ''2'' 2, demo_set ''1'' 1])"
proof -
  let ?bl = "[demo_set ''1'' 1, demo_set ''2'' 2]"
  have "hub_reach 10 (demo_state ?bl [] [demo_set ''2'' 2, demo_set ''1'' 1] demo_hist (Some []) [])"
    by (rule hub_reach.step [OF hub_reach.step [OF hub_reach.step [OF hub_reach.step
          [OF hub_reach.init demo_steps(1)] demo_steps(2)] demo_steps(3)] demo_steps(4)])
  moreover have "hub_step (demo_state ?bl [] [demo_set ''2'' 2, demo_set ''1'' 1] demo_hist (Some []) [])
      (demo_state ?bl [[demo_set ''2'' 2]] [demo_set ''1'' 1] demo_hist (Some []) [])"
    using demo_bcast [of "demo_set ''2'' 2" "[demo_set ''2'' 2, demo_set ''1'' 1]" "[]"]
    by (simp add: subBufSize_def)
  ultimately show one: "hub_reach 10 (demo_state ?bl [[demo_set ''2'' 2]] [demo_set ''1'' 1] demo_hist (Some []) [])"
    by (rule hub_reach.step)
  have "hub_step (demo_state ?bl [[demo_set ''2'' 2]] [demo_set ''1'' 1] demo_hist (Some []) [])
      (demo_state ?bl [[demo_set ''2'' 2], [demo_set ''1'' 1]] [] demo_hist (Some []) [])"
    using demo_bcast [of "demo_set ''1'' 1" "[demo_set ''1'' 1]" "[[demo_set ''2'' 2]]"]
    by (simp add: subBufSize_def)
  from hub_reach.step [OF one this]
  have "hub_reach 10 (demo_state ?bl [[demo_set ''1'' 1]] [] demo_hist (Some []) [demo_set ''2'' 2])"
    using demo_recv [of ?bl "[demo_set ''2'' 2]" "[[demo_set ''1'' 1]]" "[]" demo_hist "[]" "[]"]
    by (simp add: hub_reach.step)
  from hub_reach.step [OF this demo_recv]
  show "hub_reach 10 (demo_state ?bl [] [] demo_hist (Some []) [demo_set ''2'' 2, demo_set ''1'' 1])"
    by simp
qed

theorem hub_no_gap_witness:
  "set (drop 0 (numbered demo_hist))
     \<subseteq> set [] \<union> set [] \<union> set (concat [[demo_set ''2'' 2]]) \<union> set [demo_set ''1'' 1]
   \<and> numbered demo_hist = [demo_set ''1'' 1, demo_set ''2'' 2]"
  using hub_no_gap [OF demo_reach(1), of 1 "\<lparr> asked = 0, missed = Some [], got = [] \<rparr>" "[]" "[[demo_set ''2'' 2]]"]
  by (simp add: demo_state_def numbered_def demo_set_def)

text \<open>
  C24. The hub does not keep the order of the changes: \<^verbatim>\<open>Publish\<close> releases the backlog's lock before it
  takes the hub's, so two concurrent writers of one key can be broadcast in the reverse of their
  offsets. There is a run after which nothing is pending, the replica has received every change,
  and its contents differ from those of the master.
\<close>

theorem hub_reorders:
  "\<exists>s w. hub_reach 10 s \<and> flying s = [] \<and> sess s 1 = Some w \<and> missed w = Some []
     \<and> set (got w) = set (numbered (hist s))
     \<and> replay (got w) Map.empty ''s:k'' = Some ''1'' \<and> replay (hist s) Map.empty ''s:k'' = Some ''2''"
proof -
  let ?s = "demo_state [demo_set ''1'' 1, demo_set ''2'' 2] [] [] demo_hist (Some [])
     [demo_set ''2'' 2, demo_set ''1'' 1]"
  let ?w = "\<lparr> asked = 0, missed = Some [], got = [demo_set ''2'' 2, demo_set ''1'' 1] \<rparr>"
  have f: "flying ?s = []" "sess ?s 1 = Some ?w" "hist ?s = demo_hist" "missed ?w = Some []"
    "got ?w = [demo_set ''2'' 2, demo_set ''1'' 1]" by (simp_all add: demo_state_def)
  have n: "set [demo_set ''2'' 2, demo_set ''1'' 1] = set (numbered demo_hist)"
    by (simp add: numbered_def demo_set_def insert_commute)
  have r: "replay [demo_set ''2'' 2, demo_set ''1'' 1] Map.empty ''s:k'' = Some ''1''"
    "replay demo_hist Map.empty ''s:k'' = Some ''2''"
    by (simp_all add: apply_op_def demo_set_def)
  from demo_reach(2) f n r show ?thesis
    by (intro exI [of _ ?s] exI [of _ ?w]) (simp only: simp_thms)
qed

end
