(* ===== verification/Storage.thy ===== *)
theory Storage
  imports Backlog
begin

text \<open>
  The storage engine of \<^verbatim>\<open>internal/storage\<close>: \<^verbatim>\<open>Pebble\<close> wraps a database of the library
  \<^verbatim>\<open>cockroachdb/pebble\<close> with the accounting of used memory, the eviction of keys, the change hooks
  and the publication of every change to the replication hub.

  The database itself is a parameter: a record of its operations (\<open>dbops\<close>), of which the code
  relies on the documented behaviour collected in the locale \<open>pebble_db\<close>. The state of an opened
  store is the record \<open>Pebble\<close>; opening, closing and the background flusher are not modelled. What
  the environment decides during a call is in the record \<open>env\<close>: whether the context is cancelled,
  the clock, the order in which Go iterates over a map (as a priority per eviction and key, which
  can produce every order), and the random numbers. The hooks are represented by the list of the
  calls made to them.
\<close>

subsection \<open>The parameters\<close>

datatype dbget = Found bytes | Absent | Failed

record BatchOp =
  BKey :: bytes
  BValue :: bytes
  BDelete :: bool

text \<open>\<^const>\<open>None\<close> is a failed operation, which leaves the database as it was.\<close>

record 'd dbops =
  db_get :: "'d \<Rightarrow> bytes \<Rightarrow> dbget"
  db_set :: "'d \<Rightarrow> bytes \<Rightarrow> bytes \<Rightarrow> 'd option"
  db_delete :: "'d \<Rightarrow> bytes \<Rightarrow> 'd option"
  db_commit :: "'d \<Rightarrow> BatchOp list \<Rightarrow> 'd option"
  db_keys :: "'d \<Rightarrow> bytes list option"

datatype storage_error = ErrNotFound | ErrOOM | ErrCtx | ErrDB | UnknownPolicy string | UnknownFsync string

text \<open>The environment of a call: the context, the clock, the iteration order of maps, random numbers, and
  the text of the errors.\<close>

record env =
  ctxErr :: bool
  nowSec :: nat
  prio :: "nat \<Rightarrow> bytes \<Rightarrow> nat"
  rnd :: "nat \<Rightarrow> nat \<Rightarrow> nat"
  errText :: "storage_error \<Rightarrow> string"

subsection \<open>The store\<close>

record lruEntry =
  at :: nat
  lsize :: int
  expires :: bool
  expAt :: int
  freq :: nat

type_synonym lru_map = "(bytes \<times> lruEntry) list"

record 'd Pebble =
  db :: 'd
  lru :: lru_map
  usedBytes :: int
  maxBytes :: int
  policy :: string
  evicted :: nat
  evictHook :: bool
  changeHook :: bool
  calls :: "(char \<times> bytes) list"
  phub :: "Hub option"

definition New :: "'d \<Rightarrow> Hub option \<Rightarrow> 'd Pebble" where
  "New d h = \<lparr> db = d, lru = [], usedBytes = 0, maxBytes = 0, policy = [], evicted = 0,
     evictHook = False, changeHook = False, calls = [], phub = h \<rparr>"

subsection \<open>Memory accounting (\<^verbatim>\<open>memory.go\<close>)\<close>

definition SetMaxBytes :: "int \<Rightarrow> 'd Pebble \<Rightarrow> 'd Pebble" where
  "SetMaxBytes n p = p\<lparr> maxBytes := (if n < 0 then 0 else n) \<rparr>"

definition Policy :: "'d Pebble \<Rightarrow> string" where
  "Policy p = (if policy p = [] then ''allkeys-lru'' else policy p)"

definition policies :: "string list" where
  "policies = [''noeviction'', ''allkeys-random'', ''volatile-random'', ''volatile-ttl'',
     ''allkeys-lru'', ''volatile-lru'', ''allkeys-lfu'', ''volatile-lfu'']"

definition SetPolicy :: "string \<Rightarrow> 'd Pebble \<Rightarrow> (storage_error, unit) res \<times> 'd Pebble" where
  "SetPolicy pol p =
     (let l = ToLower pol in
      if l \<in> set policies then (Ok (), p\<lparr> policy := l \<rparr>) else (Err (UnknownPolicy pol), p))"

definition ObjectStats :: "env \<Rightarrow> 'd Pebble \<Rightarrow> bytes \<Rightarrow> (nat \<times> nat) option" where
  "ObjectStats e p k =
     (case map_of (lru p) k of None \<Rightarrow> None
      | Some x \<Rightarrow> Some ((nowSec e + 2 ^ 32 - at x) mod 2 ^ 32, freq x))"

definition trackSet :: "env \<Rightarrow> bytes \<Rightarrow> bytes \<Rightarrow> 'd Pebble \<Rightarrow> 'd Pebble" where
  "trackSet e key value p =
     (let (expi, expa) = (case Decode value of Ok c \<Rightarrow>
             if Expiry c \<noteq> 0 then (True, Expiry c) else (False, 0) | _ \<Rightarrow> (False, 0));
          sz = int (length key + length value);
          old = map_of (lru p) key;
          used = (case old of Some x \<Rightarrow> usedBytes p + (sz - lsize x) | None \<Rightarrow> usedBytes p + sz);
          fr = (case old of Some x \<Rightarrow> if freq x < 255 then freq x + 1 else freq x | None \<Rightarrow> 1)
      in p\<lparr> usedBytes := used,
            lru := AList.update key \<lparr> at = nowSec e, lsize = sz, expires = expi, expAt = expa, freq = fr \<rparr> (lru p) \<rparr>)"

definition trackGet :: "env \<Rightarrow> bytes \<Rightarrow> 'd Pebble \<Rightarrow> 'd Pebble" where
  "trackGet e key p =
     (case map_of (lru p) key of None \<Rightarrow> p
      | Some x \<Rightarrow> p\<lparr> lru := AList.update key
          (x\<lparr> at := nowSec e, freq := (if freq x < 255 then freq x + 1 else freq x) \<rparr>) (lru p) \<rparr>)"

definition trackDelete :: "bytes \<Rightarrow> 'd Pebble \<Rightarrow> 'd Pebble" where
  "trackDelete key p =
     (case map_of (lru p) key of None \<Rightarrow> p
      | Some x \<Rightarrow> p\<lparr> usedBytes := usedBytes p - lsize x, lru := AList.delete key (lru p) \<rparr>)"

definition deltaFor :: "'d Pebble \<Rightarrow> bytes \<Rightarrow> int \<Rightarrow> int" where
  "deltaFor p key sz = (case map_of (lru p) key of Some x \<Rightarrow> sz - lsize x | None \<Rightarrow> sz)"

definition publish :: "Op \<Rightarrow> 'd Pebble \<Rightarrow> 'd Pebble" where
  "publish q p = (case phub p of None \<Rightarrow> p | Some h \<Rightarrow> p\<lparr> phub := Some (fst (Publish h q)) \<rparr>)"

definition set_op :: "bytes \<Rightarrow> bytes \<Rightarrow> Op" where
  "set_op k v = \<lparr> Offset = 0, Del = False, Key = k, Val = v \<rparr>"

definition del_op :: "bytes \<Rightarrow> Op" where
  "del_op k = \<lparr> Offset = 0, Del = True, Key = k, Val = [] \<rparr>"

definition deleteInternal ::
  "'d dbops \<Rightarrow> env \<Rightarrow> bytes \<Rightarrow> 'd Pebble \<Rightarrow> (storage_error, unit) res \<times> 'd Pebble" where
  "deleteInternal D e key p =
     (if ctxErr e then (Err ErrCtx, p)
      else case db_delete D (db p) key of
        None \<Rightarrow> (Err ErrDB, p)
      | Some d \<Rightarrow> (Ok (), publish (del_op key) (trackDelete key (p\<lparr> db := d \<rparr>))))"

subsection \<open>Choosing a victim\<close>

definition iter_order :: "env \<Rightarrow> 'd Pebble \<Rightarrow> lru_map" where
  "iter_order e p = sort_key (\<lambda>(k, _). prio e (evicted p) k) (lru p)"

text \<open>\<^verbatim>\<open>volatile-ttl\<close>: the earliest expiry.\<close>

fun pick_ttl :: "(bytes \<times> int) option \<Rightarrow> lru_map \<Rightarrow> (bytes \<times> int) option" where
  "pick_ttl best [] = best"
| "pick_ttl best ((k, x) # xs) =
     pick_ttl (if \<not> expires x then best
               else case best of None \<Rightarrow> Some (k, expAt x)
                    | Some (_, m) \<Rightarrow> if expAt x < m then Some (k, expAt x) else best) xs"

text \<open>\<^verbatim>\<open>*-random\<close>: reservoir sampling; the \<open>n\<close>-th candidate replaces the choice when
  \<^verbatim>\<open>rand.Intn(n) == 0\<close>.\<close>

fun pick_random :: "(nat \<Rightarrow> nat) \<Rightarrow> bool \<Rightarrow> nat \<Rightarrow> bytes option \<Rightarrow> lru_map \<Rightarrow> bytes option" where
  "pick_random r vol n best [] = best"
| "pick_random r vol n best ((k, x) # xs) =
     (if vol \<and> \<not> expires x then pick_random r vol n best xs
      else pick_random r vol (n + 1) (if r (n + 1) mod (n + 1) = 0 then Some k else best) xs)"

definition evictSampleN :: nat where "evictSampleN = 5"

definition better :: "bool \<Rightarrow> lruEntry \<Rightarrow> lruEntry \<Rightarrow> bool" where
  "better lfu c v \<longleftrightarrow>
     (if lfu then freq c < freq v \<or> (freq c = freq v \<and> at c < at v) else at c < at v)"

text \<open>\<^verbatim>\<open>*-lru\<close> and \<^verbatim>\<open>*-lfu\<close>: the best of the first five candidates.\<close>

definition pick_sample :: "bool \<Rightarrow> bool \<Rightarrow> lru_map \<Rightarrow> bytes option" where
  "pick_sample lfu vol xs =
     (case take evictSampleN (filter (\<lambda>(_, x). \<not> (vol \<and> \<not> expires x)) xs) of
        [] \<Rightarrow> None
      | v # cs \<Rightarrow> Some (fst (foldl (\<lambda>v c. if better lfu (snd c) (snd v) then c else v) v cs)))"

definition victim :: "env \<Rightarrow> 'd Pebble \<Rightarrow> bytes option" where
  "victim e p =
     (let pol = Policy p; vol = HasPrefix pol ''volatile-''; xs = iter_order e p in
      if pol = ''noeviction'' then None
      else if pol = ''volatile-ttl'' then map_option fst (pick_ttl None xs)
      else if pol = ''allkeys-random'' \<or> pol = ''volatile-random''
        then pick_random (rnd e (evicted p)) vol 0 None xs
      else pick_sample (HasSuffix pol ''-lfu'') vol xs)"

definition evictOne :: "'d dbops \<Rightarrow> env \<Rightarrow> 'd Pebble \<Rightarrow> bool \<times> 'd Pebble" where
  "evictOne D e p =
     (case victim e p of None \<Rightarrow> (False, p)
      | Some k \<Rightarrow>
          (case deleteInternal D e k p of
             (Ok _, p) \<Rightarrow>
               (True, p\<lparr> evicted := evicted p + 1,
                         calls := calls p @ (if evictHook p then [(CHR ''e'', k)] else []) \<rparr>)
           | (_, p) \<Rightarrow> (False, p)))"

subsection \<open>The eviction loop ends\<close>

lemma set_iter_order [simp]: "set (iter_order e p) = set (lru p)"
  by (simp add: iter_order_def)

lemma pick_ttl_in: "pick_ttl b xs = Some (k, m) \<Longrightarrow> b = Some (k, m) \<or> k \<in> fst ` set xs"
  by (induction b xs rule: pick_ttl.induct) (auto split: if_splits option.splits)

lemma pick_random_in: "pick_random r vol n b xs = Some k \<Longrightarrow> b = Some k \<or> k \<in> fst ` set xs"
  by (induction r vol n b xs rule: pick_random.induct) (auto split: if_splits)

lemma foldl_pick_in: "foldl (\<lambda>v c. if P c v then c else v) v cs \<in> set (v # cs)"
  by (induction cs arbitrary: v) (auto split: if_splits)

lemma pick_sample_in: "pick_sample lfu vol xs = Some k \<Longrightarrow> k \<in> fst ` set xs"
proof -
  assume a: "pick_sample lfu vol xs = Some k"
  then obtain v cs where t: "take evictSampleN (filter (\<lambda>(_, x). \<not> (vol \<and> \<not> expires x)) xs) = v # cs"
    and k: "k = fst (foldl (\<lambda>v c. if better lfu (snd c) (snd v) then c else v) v cs)"
    by (auto simp: pick_sample_def split: list.splits)
  have "set (v # cs) \<subseteq> set xs" unfolding t [symmetric] by (auto dest: in_set_takeD)
  then show ?thesis
    unfolding k using foldl_pick_in [of "\<lambda>c v. better lfu (snd c) (snd v)" v cs] by blast
qed

lemma victim_in: "victim e p = Some k \<Longrightarrow> k \<in> fst ` set (lru p)"
  using pick_ttl_in [of None "iter_order e p"] pick_random_in [of _ _ _ None "iter_order e p"]
    pick_sample_in [of _ _ "iter_order e p"]
  by (auto simp: victim_def Let_def split: if_splits)

lemma publish_fields [simp]:
  "db (publish q p) = db p" "lru (publish q p) = lru p" "usedBytes (publish q p) = usedBytes p"
  "maxBytes (publish q p) = maxBytes p" "policy (publish q p) = policy p" "evicted (publish q p) = evicted p"
  "evictHook (publish q p) = evictHook p" "changeHook (publish q p) = changeHook p"
  "calls (publish q p) = calls p"
  by (simp_all add: publish_def split: option.split)

lemma trackDelete_fields [simp]:
  "db (trackDelete k p) = db p" "maxBytes (trackDelete k p) = maxBytes p"
  "policy (trackDelete k p) = policy p" "evicted (trackDelete k p) = evicted p"
  "evictHook (trackDelete k p) = evictHook p" "changeHook (trackDelete k p) = changeHook p"
  "calls (trackDelete k p) = calls p" "phub (trackDelete k p) = phub p"
  by (simp_all add: trackDelete_def split: option.split)

lemma lru_trackDelete: "lru (trackDelete k p) = AList.delete k (lru p)"
  by (auto simp: trackDelete_def map_of_eq_None_iff split: option.split intro: delete_id [symmetric])

lemma length_delete_in: "k \<in> fst ` set m \<Longrightarrow> length (AList.delete k m) < length m"
  by (auto simp: AList.delete_eq length_filter_less)

lemma victim_shrinks: "victim e p = Some k \<Longrightarrow> length (AList.delete k (lru p)) < length (lru p)"
  by (rule length_delete_in) (rule victim_in)

lemma evictOne_shrinks: "evictOne D e p = (True, p') \<Longrightarrow> length (lru p') < length (lru p)"
  by (auto simp: evictOne_def deleteInternal_def lru_trackDelete victim_shrinks
      split: option.splits if_splits prod.splits res.splits)

function evictForDelta ::
  "'d dbops \<Rightarrow> env \<Rightarrow> int \<Rightarrow> 'd Pebble \<Rightarrow> (storage_error, unit) res \<times> 'd Pebble" where
  "evictForDelta D e delta p =
     (if 0 < maxBytes p \<and> maxBytes p < usedBytes p + delta
      then case evictOne D e p of
             (True, p') \<Rightarrow> evictForDelta D e delta p'
           | (False, p') \<Rightarrow> (Err ErrOOM, p')
      else (Ok (), p))"
  by pat_completeness auto
termination
  by (relation "measure (\<lambda>(D, e, delta, p). length (lru p))") (auto dest!: evictOne_shrinks [OF sym])

declare evictForDelta.simps [simp del]

lemma evictOne_keys: "fst ` set (lru (snd (evictOne D e p))) \<subseteq> fst ` set (lru p)"
  by (auto simp: evictOne_def deleteInternal_def lru_trackDelete AList.delete_eq
      split: option.splits)

lemma evictForDelta_keys:
  "evictForDelta D e delta p = (r, p') \<Longrightarrow> fst ` set (lru p') \<subseteq> fst ` set (lru p)"
proof (induction D e delta p rule: evictForDelta.induct)
  case (1 D e delta p)
  show ?case
  proof (cases "0 < maxBytes p \<and> maxBytes p < usedBytes p + delta")
    case True
    obtain b q where o: "evictOne D e p = (b, q)" by (cases "evictOne D e p")
    have "fst ` set (lru q) \<subseteq> fst ` set (lru p)" using evictOne_keys [of D e p] o by simp
    moreover have "fst ` set (lru p') \<subseteq> fst ` set (lru q)"
    proof (cases b)
      case b: True
      show ?thesis
        using "1.IH" [OF True o [symmetric]] "1.prems" True o b
        by (simp add: evictForDelta.simps [of D e delta p])
    next
      case False
      with "1.prems" True o show ?thesis by (simp add: evictForDelta.simps [of D e delta p])
    qed
    ultimately show ?thesis by blast
  qed (use "1.prems" in \<open>auto simp: evictForDelta.simps [of D e delta p]\<close>)
qed

definition evictIfNeeded ::
  "'d dbops \<Rightarrow> env \<Rightarrow> 'd Pebble \<Rightarrow> (storage_error, unit) res \<times> 'd Pebble" where
  "evictIfNeeded D e p = evictForDelta D e 0 p"

subsection \<open>Reading and writing (\<^verbatim>\<open>pebble.go\<close>, \<^verbatim>\<open>batch.go\<close>)\<close>

definition callChangeHook :: "char \<Rightarrow> bytes \<Rightarrow> 'd Pebble \<Rightarrow> 'd Pebble" where
  "callChangeHook opc k p = (if changeHook p then p\<lparr> calls := calls p @ [(opc, k)] \<rparr> else p)"

definition Get ::
  "'d dbops \<Rightarrow> env \<Rightarrow> bytes \<Rightarrow> 'd Pebble \<Rightarrow> (storage_error, bytes) res \<times> 'd Pebble" where
  "Get D e key p =
     (if ctxErr e then (Err ErrCtx, p)
      else case db_get D (db p) key of
        Absent \<Rightarrow> (Err ErrNotFound, p)
      | Failed \<Rightarrow> (Err ErrDB, p)
      | Found v \<Rightarrow> (Ok v, trackGet e key p))"

definition Set ::
  "'d dbops \<Rightarrow> env \<Rightarrow> bytes \<Rightarrow> bytes \<Rightarrow> 'd Pebble \<Rightarrow> (storage_error, unit) res \<times> 'd Pebble" where
  "Set D e key value p =
     (if ctxErr e then (Err ErrCtx, p)
      else case evictForDelta D e (deltaFor p key (int (length key + length value))) p of
        (Ok _, p) \<Rightarrow>
          (case db_set D (db p) key value of
             None \<Rightarrow> (Err ErrDB, p)
           | Some d \<Rightarrow>
               (Ok (), publish (set_op key value)
                         (callChangeHook (CHR ''s'') key (trackSet e key value (p\<lparr> db := d \<rparr>)))))
      | (r, p) \<Rightarrow> (r, p))"

definition Delete ::
  "'d dbops \<Rightarrow> env \<Rightarrow> bytes \<Rightarrow> 'd Pebble \<Rightarrow> (storage_error, unit) res \<times> 'd Pebble" where
  "Delete D e key p =
     (case deleteInternal D e key p of
        (Ok _, p) \<Rightarrow> (Ok (), callChangeHook (CHR ''d'') key p)
      | (r, p) \<Rightarrow> (r, p))"

text \<open>The net growth of a batch: the last operation of every key counts.\<close>

fun batch_delta :: "'d Pebble \<Rightarrow> bytes list \<Rightarrow> BatchOp list \<Rightarrow> int" where
  "batch_delta p seen [] = 0"
| "batch_delta p seen (b # bs) =
     (if BKey b \<in> set seen then batch_delta p seen bs
      else (if BDelete b then deltaFor p (BKey b) 0
            else deltaFor p (BKey b) (int (length (BKey b) + length (BValue b))))
           + batch_delta p (BKey b # seen) bs)"

definition track_batch :: "env \<Rightarrow> BatchOp \<Rightarrow> 'd Pebble \<Rightarrow> 'd Pebble" where
  "track_batch e b p =
     (if BDelete b then callChangeHook (CHR ''d'') (BKey b) (trackDelete (BKey b) p)
      else callChangeHook (CHR ''s'') (BKey b) (trackSet e (BKey b) (BValue b) p))"

definition batch_op :: "BatchOp \<Rightarrow> Op" where
  "batch_op b = \<lparr> Offset = 0, Del = BDelete b, Key = BKey b, Val = BValue b \<rparr>"

definition WriteBatch ::
  "'d dbops \<Rightarrow> env \<Rightarrow> BatchOp list \<Rightarrow> 'd Pebble \<Rightarrow> (storage_error, unit) res \<times> 'd Pebble" where
  "WriteBatch D e bs p =
     (if ctxErr e then (Err ErrCtx, p)
      else if bs = [] then (Ok (), p)
      else case evictForDelta D e (batch_delta p [] (rev bs)) p of
        (Ok _, p) \<Rightarrow>
          (case db_commit D (db p) bs of
             None \<Rightarrow> (Err ErrDB, p)
           | Some d \<Rightarrow>
               (case evictIfNeeded D e (fold (track_batch e) bs (p\<lparr> db := d \<rparr>)) of
                  (Ok _, p) \<Rightarrow> (Ok (), fold (\<lambda>b. publish (batch_op b)) bs p)
                | (r, p) \<Rightarrow> (r, p)))
      | (r, p) \<Rightarrow> (r, p))"

definition HasAny :: "'d dbops \<Rightarrow> env \<Rightarrow> 'd Pebble \<Rightarrow> (storage_error, bool) res" where
  "HasAny D e p =
     (if ctxErr e then Err ErrCtx
      else case db_keys D (db p) of None \<Rightarrow> Err ErrDB | Some ks \<Rightarrow> Ok (ks \<noteq> []))"

text \<open>\<^verbatim>\<open>for iter.SeekGE(prefix); iter.Valid(); iter.Next() { if !HasPrefix { break } ... }\<close>.\<close>

definition scan_keys :: "bytes \<Rightarrow> bytes list \<Rightarrow> bytes list" where
  "scan_keys pre ks = takeWhile (\<lambda>k. HasPrefix k pre) (dropWhile (\<lambda>k. k < pre) ks)"

definition Scan :: "'d dbops \<Rightarrow> env \<Rightarrow> bytes \<Rightarrow> 'd Pebble \<Rightarrow> (storage_error, bytes list) res" where
  "Scan D e pre p =
     (if ctxErr e then Err ErrCtx
      else case db_keys D (db p) of None \<Rightarrow> Err ErrDB | Some ks \<Rightarrow> Ok (scan_keys pre ks))"

text \<open>A snapshot is the database as it was when it was taken.\<close>

definition NewSnapshot :: "'d Pebble \<Rightarrow> 'd" where
  "NewSnapshot p = db p"

definition SnapGet :: "'d dbops \<Rightarrow> 'd \<Rightarrow> bytes \<Rightarrow> (storage_error, bytes) res" where
  "SnapGet D s key = (case db_get D s key of Found v \<Rightarrow> Ok v | Absent \<Rightarrow> Err ErrNotFound | Failed \<Rightarrow> Err ErrDB)"

definition SnapScan :: "'d dbops \<Rightarrow> 'd \<Rightarrow> bytes \<Rightarrow> (storage_error, bytes list) res" where
  "SnapScan D s pre = (case db_keys D s of None \<Rightarrow> Err ErrDB | Some ks \<Rightarrow> Ok (scan_keys pre ks))"

text \<open>The fsync policy (\<^verbatim>\<open>persistence.go\<close>).\<close>

datatype FsyncPolicy = FsyncAlways | FsyncEverysec | FsyncNo

definition ParseFsyncPolicy :: "string \<Rightarrow> (storage_error, FsyncPolicy) res" where
  "ParseFsyncPolicy s =
     (let l = ToLower s in
      if l = ''always'' then Ok FsyncAlways
      else if l = ''everysec'' then Ok FsyncEverysec
      else if l = ''no'' then Ok FsyncNo
      else Err (UnknownFsync s))"

subsection \<open>A prefix scan finds every key with the prefix\<close>

lemma HasPrefix_simps [simp]:
  "HasPrefix k []" "\<not> HasPrefix [] (a # p)" "HasPrefix (b # k) (a # p) \<longleftrightarrow> b = a \<and> HasPrefix k p"
  by (auto simp: HasPrefix_def)

lemma prefix_not_less: "HasPrefix k p \<Longrightarrow> \<not> k < p"
proof (induction p arbitrary: k)
  case (Cons a p)
  then show ?case by (cases k) auto
qed simp

lemma prefix_convex: "p \<le> k \<Longrightarrow> k \<le> k' \<Longrightarrow> HasPrefix k' p \<Longrightarrow> HasPrefix k p"
proof (induction p arbitrary: k k')
  case (Cons a p)
  then show ?case by (cases k; cases k') auto
qed simp

lemma takeWhile_filter:
  assumes "\<And>x y. x \<in> set xs \<Longrightarrow> y \<in> set xs \<Longrightarrow> x \<le> y \<Longrightarrow> P y \<Longrightarrow> P x" and "sorted xs"
  shows "takeWhile P xs = filter P xs"
  using assms
proof (induction xs)
  case (Cons x xs)
  show ?case
  proof (cases "P x")
    case False
    have "\<not> P y" if "y \<in> set xs" for y
    proof
      assume "P y"
      moreover have "x \<le> y" using Cons.prems(2) that by simp
      ultimately show False using Cons.prems(1) [of x y] False that by simp
    qed
    with False show ?thesis by (simp add: filter_empty_conv)
  next
    case True
    have "takeWhile P xs = filter P xs"
      using Cons.prems by (intro Cons.IH) (auto intro: Cons.prems(1))
    with True show ?thesis by simp
  qed
qed simp

lemma scan_keys_eq:
  assumes "sorted ks"
  shows "scan_keys pre ks = filter (\<lambda>k. HasPrefix k pre) ks"
proof -
  let ?ds = "dropWhile (\<lambda>k. k < pre) ks"
  have ge: "pre \<le> k" if "k \<in> set ?ds" for k
  proof (cases ?ds)
    case (Cons x xs)
    have s: "sorted ?ds" using assms by (rule sorted_dropWhile)
    have "\<not> hd ?ds < pre" by (rule hd_dropWhile) (use Cons in simp)
    with Cons s that show ?thesis by auto
  next
    case Nil
    with that show ?thesis by (simp only: list.set(1) empty_iff)
  qed
  have "filter (\<lambda>k. HasPrefix k pre) ks = filter (\<lambda>k. HasPrefix k pre) ?ds"
  proof -
    have "filter (\<lambda>k. HasPrefix k pre) (takeWhile (\<lambda>k. k < pre) ks) = []"
      using prefix_not_less by (auto simp: filter_empty_conv dest: set_takeWhileD)
    moreover have "ks = takeWhile (\<lambda>k. k < pre) ks @ ?ds" by simp
    ultimately show ?thesis by (metis append_Nil filter_append)
  qed
  moreover have "takeWhile (\<lambda>k. HasPrefix k pre) ?ds = filter (\<lambda>k. HasPrefix k pre) ?ds"
  proof (rule takeWhile_filter)
    show "sorted ?ds" using assms by (rule sorted_dropWhile)
    show "HasPrefix x pre" if "x \<in> set ?ds" "x \<le> y" "HasPrefix y pre" for x y
      by (rule prefix_convex [OF ge [OF that(1)] that(2,3)])
  qed
  ultimately show ?thesis by (simp add: scan_keys_def)
qed

subsection \<open>What the code relies on in the database\<close>

locale pebble_db =
  fixes D :: "'d dbops" and contents :: "'d \<Rightarrow> bytes \<rightharpoonup> bytes"
  assumes get: "db_get D d k = Failed
      \<or> db_get D d k = (case contents d k of None \<Rightarrow> Absent | Some v \<Rightarrow> Found v)"
    and put: "db_set D d k v = Some d' \<Longrightarrow> contents d' = (contents d)(k \<mapsto> v)"
    and remove: "db_delete D d k = Some d' \<Longrightarrow> contents d' = (contents d)(k := None)"
    and commit: "db_commit D d bs = Some d' \<Longrightarrow> contents d' = replay (map batch_op bs) (contents d)"
    and keys: "db_keys D d = Some ks \<Longrightarrow> sorted ks \<and> distinct ks \<and> set ks = dom (contents d)"

text \<open>The accounting agrees with a content map: every tracked key is there with its size, and the
  used bytes are the sum of the tracked sizes.\<close>

definition lru_total :: "lru_map \<Rightarrow> int" where
  "lru_total m = sum_list (map (\<lambda>(k, x). lsize x) m)"

definition accounted :: "(bytes \<rightharpoonup> bytes) \<Rightarrow> 'd Pebble \<Rightarrow> bool" where
  "accounted c p \<longleftrightarrow> gomap (lru p) \<and> usedBytes p = lru_total (lru p)
     \<and> (\<forall>k x. map_of (lru p) k = Some x \<longrightarrow> (\<exists>v. c k = Some v \<and> lsize x = int (length k + length v)))"

lemma lru_total_update:
  "gomap m \<Longrightarrow> lru_total (AList.update k x m)
     = lru_total m - (case map_of m k of Some y \<Rightarrow> lsize y | None \<Rightarrow> 0) + lsize x"
  by (induction m) (auto simp: lru_total_def gomap_def)

lemma lru_total_delete:
  "gomap m \<Longrightarrow> lru_total (AList.delete k m)
     = lru_total m - (case map_of m k of Some y \<Rightarrow> lsize y | None \<Rightarrow> 0)"
proof (induction m)
  case (Cons a m)
  have "fst a \<notin> fst ` set m" using Cons.prems by (simp add: gomap_def)
  then have "AList.delete (fst a) m = m" and "map_of m (fst a) = None"
    by (simp_all add: delete_id map_of_eq_None_iff)
  with Cons show ?case by (cases a) (auto simp: lru_total_def gomap_def)
qed (simp add: lru_total_def)

lemma accounted_trackGet: "accounted c p \<Longrightarrow> accounted c (trackGet e k p)"
  by (auto simp: accounted_def trackGet_def lru_total_update update_conv' split: option.splits if_splits)

lemma accounted_trackSet:
  "accounted c p \<Longrightarrow> accounted (c(k \<mapsto> v)) (trackSet e k v (p\<lparr> db := d \<rparr>))"
  by (auto simp: accounted_def trackSet_def lru_total_update update_conv' Let_def
      split: option.splits if_splits prod.splits)

lemma accounted_trackDelete:
  "accounted c p \<Longrightarrow> accounted (c(k := None)) (trackDelete k (p\<lparr> db := d \<rparr>))"
  by (auto simp: accounted_def trackDelete_def lru_total_delete delete_conv'
      split: option.splits if_splits)

lemma accounted_cong:
  "lru p = lru q \<Longrightarrow> usedBytes p = usedBytes q \<Longrightarrow> accounted c p = accounted c q"
  by (simp add: accounted_def)

lemma callChangeHook_fields [simp]:
  "db (callChangeHook opc k p) = db p" "lru (callChangeHook opc k p) = lru p"
  "usedBytes (callChangeHook opc k p) = usedBytes p" "maxBytes (callChangeHook opc k p) = maxBytes p"
  "policy (callChangeHook opc k p) = policy p" "evicted (callChangeHook opc k p) = evicted p"
  "phub (callChangeHook opc k p) = phub p"
  by (simp_all add: callChangeHook_def)

lemma accounted_publish [simp]: "accounted c (publish q p) = accounted c p"
  by (rule accounted_cong) simp_all

lemma accounted_hook [simp]: "accounted c (callChangeHook opc k p) = accounted c p"
  by (rule accounted_cong) simp_all

lemma trackSet_fields [simp]:
  "db (trackSet e k v p) = db p" "maxBytes (trackSet e k v p) = maxBytes p"
  "policy (trackSet e k v p) = policy p" "phub (trackSet e k v p) = phub p"
  by (simp_all add: trackSet_def Let_def split: prod.split)

lemma trackGet_fields [simp]:
  "db (trackGet e k p) = db p" "maxBytes (trackGet e k p) = maxBytes p"
  "policy (trackGet e k p) = policy p" "phub (trackGet e k p) = phub p"
  "usedBytes (trackGet e k p) = usedBytes p"
  by (simp_all add: trackGet_def split: option.split)

lemma apply_batch_op:
  "apply_op (batch_op b) m = (if BDelete b then m(BKey b := None) else m(BKey b \<mapsto> BValue b))"
  by (simp add: apply_op_def batch_op_def)

lemma apply_set_del [simp]:
  "apply_op (set_op k v) m = m(k \<mapsto> v)" "apply_op (del_op k) m = m(k := None)"
  by (simp_all add: apply_op_def set_op_def del_op_def)

lemma accounted_track_batch:
  assumes "accounted c p"
  shows "accounted (replay (map batch_op bs) c) (fold (track_batch e) bs p)"
  using assms
proof (induction bs arbitrary: c p)
  case (Cons b bs)
  have "accounted (apply_op (batch_op b) c) (track_batch e b p)"
    using accounted_trackSet [OF Cons.prems, of "BKey b" "BValue b" e "db p"]
      accounted_trackDelete [OF Cons.prems, of "BKey b" "db p"]
    by (simp add: track_batch_def apply_batch_op)
  then show ?case using Cons.IH by simp
qed simp

subsection \<open>What an operation changes and publishes\<close>

text \<open>From one state to the next, the contents changed by the given changes, and the hub, if there
  is one, was handed exactly these changes in this order.\<close>

definition published :: "Op list \<Rightarrow> 'd Pebble \<Rightarrow> 'd Pebble \<Rightarrow> bool" where
  "published qs p p' \<longleftrightarrow>
     (case phub p of None \<Rightarrow> phub p' = None
      | Some h \<Rightarrow> \<exists>h'. phub p' = Some h'
          \<and> (\<forall>hs. backlog_of (backlog h) hs \<longrightarrow> backlog_of (backlog h') (hs @ qs)))"

lemma published_refl: "phub p' = phub p \<Longrightarrow> published [] p p'"
  by (simp add: published_def split: option.split)

lemma published_cong: "phub q' = phub q \<Longrightarrow> published b p q \<Longrightarrow> published b p q'"
  by (simp add: published_def split: option.splits)

lemma published_trans: "published a p q \<Longrightarrow> published b q r \<Longrightarrow> published (a @ b) p r"
  by (fastforce simp: published_def split: option.splits)

lemma published_publish: "phub p' = phub p \<Longrightarrow> published [q] p (publish q p')"
  by (auto simp: published_def publish_def Publish_def append_hub_def backlog_of_Append
      split: option.splits prod.splits) (metis backlog_of_Append(1) fst_conv)

lemma published_fold_batch: "published (map batch_op bs) p (fold (\<lambda>b. publish (batch_op b)) bs p)"
proof (induction bs arbitrary: p)
  case (Cons b bs)
  have "published ([batch_op b] @ map batch_op bs) p (fold (\<lambda>b. publish (batch_op b)) bs (publish (batch_op b) p))"
    by (rule published_trans [OF published_publish Cons]) simp
  then show ?case by simp
qed (simp add: published_refl)

lemma track_batch_fields:
  "db (fold (track_batch e) bs p) = db p" "maxBytes (fold (track_batch e) bs p) = maxBytes p"
  "policy (fold (track_batch e) bs p) = policy p" "phub (fold (track_batch e) bs p) = phub p"
  by (induction bs arbitrary: p) (auto simp: track_batch_def)

lemma fold_publish_fields:
  "db (fold (\<lambda>b. publish (batch_op b)) bs p) = db p"
  "maxBytes (fold (\<lambda>b. publish (batch_op b)) bs p) = maxBytes p"
  "policy (fold (\<lambda>b. publish (batch_op b)) bs p) = policy p"
  by (induction bs arbitrary: p) auto

lemma accounted_fold_publish: "accounted c (fold (\<lambda>b. publish (batch_op b)) bs p) = accounted c p"
  by (induction bs arbitrary: p) auto

text \<open>The store after a step: the contents changed by \<open>qs\<close>, \<open>rs\<close> was published, the accounting is
  right if it was, and the limit and the policy are the same.\<close>

definition goes :: "('d \<Rightarrow> bytes \<rightharpoonup> bytes) \<Rightarrow> Op list \<Rightarrow> Op list \<Rightarrow> 'd Pebble \<Rightarrow> 'd Pebble \<Rightarrow> bool" where
  "goes c qs rs p p' \<longleftrightarrow> c (db p') = replay qs (c (db p)) \<and> published rs p p'
     \<and> (accounted (c (db p)) p \<longrightarrow> accounted (c (db p')) p')
     \<and> maxBytes p' = maxBytes p \<and> policy p' = policy p"

lemma goes_refl: "goes c [] [] p p"
  by (simp add: goes_def published_refl)

lemma goes_trans: "goes c a b p q \<Longrightarrow> goes c a' b' q r \<Longrightarrow> goes c (a @ a') (b @ b') p r"
  by (auto simp: goes_def intro: published_trans)

lemma goes_cong:
  assumes "goes c a b p q" and "db q' = db q" "lru q' = lru q" "usedBytes q' = usedBytes q"
    "maxBytes q' = maxBytes q" "policy q' = policy q" "phub q' = phub q"
  shows "goes c a b p q'"
proof -
  have "published b p q" using assms(1) by (simp add: goes_def)
  then have "published b p q'" by (rule published_cong [OF assms(7)])
  moreover have "accounted (c (db q')) q' = accounted (c (db q)) q"
    unfolding assms(2) by (rule accounted_cong [OF assms(3,4)])
  ultimately show ?thesis using assms(1,2,5,6) unfolding goes_def by metis
qed

context pebble_db
begin

lemma deleteInternal_goes:
  assumes "deleteInternal D e k p = (r, p')"
  shows "if r = Ok () then goes contents [del_op k] [del_op k] p p' else p' = p"
proof (cases "ctxErr e")
  case False
  show ?thesis
  proof (cases "db_delete D (db p) k")
    case (Some d)
    let ?q = "trackDelete k (p\<lparr> db := d \<rparr>)"
    have "published [del_op k] p (publish (del_op k) ?q)" by (rule published_publish) simp
    with Some False assms remove [OF Some] accounted_trackDelete [of "contents (db p)" p k d] show ?thesis
      by (auto simp: deleteInternal_def goes_def)
  qed (use assms False in \<open>auto simp: deleteInternal_def\<close>)
qed (use assms in \<open>auto simp: deleteInternal_def\<close>)

lemma evictOne_goes:
  assumes "evictOne D e p = (b, p')"
  shows "if b then \<exists>k \<in> fst ` set (lru p). goes contents [del_op k] [del_op k] p p' \<and> evicted p' = evicted p + 1
                      \<and> lru p' = AList.delete k (lru p)
         else p' = p"
proof (cases "victim e p")
  case (Some k)
  obtain r q where d: "deleteInternal D e k p = (r, q)" by (cases "deleteInternal D e k p")
  show ?thesis
  proof (cases "r = Ok ()")
    case True
    have b: "b" and p': "p' = q\<lparr> evicted := evicted q + 1,
        calls := calls q @ (if evictHook q then [(CHR ''e'', k)] else []) \<rparr>"
      using assms Some d True by (simp_all add: evictOne_def)
    have q: "lru q = AList.delete k (lru p)" "evicted q = evicted p"
      using d True by (auto simp: deleteInternal_def lru_trackDelete split: option.splits if_splits)
    have "goes contents [del_op k] [del_op k] p q" using deleteInternal_goes [OF d] True by simp
    then have g: "goes contents [del_op k] [del_op k] p p'" by (rule goes_cong) (simp_all add: p')
    have f: "evicted p' = evicted p + 1" "lru p' = AList.delete k (lru p)" by (simp_all add: p' q)
    show ?thesis unfolding if_P [OF b]
      by (rule bexI [OF _ victim_in [OF Some]]) (intro conjI g f)
  next
    case False
    then have "q = p" using deleteInternal_goes [OF d] by simp
    with False assms Some d show ?thesis by (cases r) (simp_all add: evictOne_def)
  qed
qed (use assms in \<open>simp add: evictOne_def\<close>)

text \<open>The eviction loop deletes tracked keys, each deletion published, and makes room for \<open>delta\<close>
  unless it gives up.\<close>

lemma evictForDelta_goes:
  assumes "evictForDelta D e delta p = (r, p')"
  shows "\<exists>vs. goes contents (map del_op vs) (map del_op vs) p p' \<and> set vs \<subseteq> fst ` set (lru p)
           \<and> evicted p' = evicted p + length vs
           \<and> (r = Ok () \<longrightarrow> maxBytes p \<le> 0 \<or> usedBytes p' + delta \<le> maxBytes p)
           \<and> (r = Ok () \<or> r = Err ErrOOM)"
  using assms
proof (induction "length (lru p)" arbitrary: p rule: less_induct)
  case less
  show ?case
  proof (cases "0 < maxBytes p \<and> maxBytes p < usedBytes p + delta")
    case True
    obtain b q where o: "evictOne D e p = (b, q)" by (cases "evictOne D e p")
    show ?thesis
    proof (cases b)
      case b: True
      with evictOne_goes [OF o] obtain k where k: "k \<in> fst ` set (lru p)" "goes contents [del_op k] [del_op k] p q"
        "evicted q = evicted p + 1" "lru q = AList.delete k (lru p)" by auto
      have "evictForDelta D e delta q = (r, p')"
        using less.prems True o b by (simp add: evictForDelta.simps [of D e delta p])
      from less.hyps [OF _ this] evictOne_shrinks [of D e p q] o b
      obtain vs where vs: "goes contents (map del_op vs) (map del_op vs) q p'" "set vs \<subseteq> fst ` set (lru q)"
        "evicted p' = evicted q + length vs"
        "r = Ok () \<longrightarrow> maxBytes q \<le> 0 \<or> usedBytes p' + delta \<le> maxBytes q" "r = Ok () \<or> r = Err ErrOOM"
        by auto
      have "set vs \<subseteq> fst ` set (lru p)" using vs(2) k(4) by (auto simp: AList.delete_eq)
      moreover have "maxBytes q = maxBytes p" using k(2) by (simp add: goes_def)
      ultimately show ?thesis using goes_trans [OF k(2) vs(1)] k vs
        by (intro exI [of _ "k # vs"]) simp
    next
      case False
      with evictOne_goes [OF o] less.prems True o goes_refl show ?thesis
        by (intro exI [of _ "[]"]) (auto simp: evictForDelta.simps [of D e delta p])
    qed
  next
    case False
    with less.prems goes_refl show ?thesis
      by (intro exI [of _ "[]"]) (auto simp: evictForDelta.simps [of D e delta p])
  qed
qed

text \<open>Writing a key: evictions first, then the write; on any error the key is not written.\<close>

lemma Set_goes:
  assumes "Set D e k v p = (r, p')"
  shows "\<exists>vs. set vs \<subseteq> fst ` set (lru p)
    \<and> (let qs = map del_op vs @ (if r = Ok () then [set_op k v] else []) in goes contents qs qs p p')
    \<and> (maxBytes p \<le> 0 \<longrightarrow> vs = [] \<and> r \<noteq> Err ErrOOM)
    \<and> r \<noteq> Panic \<and> r \<noteq> Err ErrNotFound"
proof (cases "ctxErr e")
  case True
  with assms goes_refl show ?thesis by (intro exI [of _ "[]"]) (auto simp: Set_def)
next
  case ctx: False
  obtain t q where ev: "evictForDelta D e (deltaFor p k (int (length k + length v))) p = (t, q)"
    by (cases "evictForDelta D e (deltaFor p k (int (length k + length v))) p")
  from evictForDelta_goes [OF ev] obtain vs where vs: "goes contents (map del_op vs) (map del_op vs) p q"
    "set vs \<subseteq> fst ` set (lru p)" "t = Ok () \<or> t = Err ErrOOM" "evicted q = evicted p + length vs" by blast
  have none: "t = Ok () \<and> vs = []" if "maxBytes p \<le> 0"
    using that ev vs(4) by (auto simp: evictForDelta.simps [of D e _ p])
  show ?thesis
  proof (cases "t = Ok () \<and> db_set D (db q) k v \<noteq> None")
    case True
    then obtain d where d: "db_set D (db q) k v = Some d" by auto
    let ?q = "callChangeHook (CHR ''s'') k (trackSet e k v (q\<lparr> db := d \<rparr>))"
    have p': "p' = publish (set_op k v) ?q" "r = Ok ()" using assms ctx ev True d by (auto simp: Set_def)
    have "published [set_op k v] q (publish (set_op k v) ?q)" by (rule published_publish) simp
    then have "goes contents [set_op k v] [set_op k v] q p'"
      using put [OF d] accounted_trackSet [of "contents (db q)" q k v e d] by (simp add: goes_def p')
    from goes_trans [OF vs(1) this] vs(2) p'(2) none show ?thesis
      by (intro exI [of _ vs]) (simp add: Let_def)
  next
    case False
    then have "p' = q" "r = (if t = Ok () then Err ErrDB else t)"
      using assms ctx ev vs(3) by (auto simp: Set_def split: option.splits)
    with vs none show ?thesis by (intro exI [of _ vs]) (auto simp: Let_def)
  qed
qed

lemma Get_spec:
  assumes "Get D e k p = (r, p')"
  shows "goes contents [] [] p p'"
    and "r = Ok v \<Longrightarrow> contents (db p) k = Some v"
    and "r = Err ErrNotFound \<Longrightarrow> contents (db p) k = None"
    and "r = Err x \<Longrightarrow> p' = p" and "r \<noteq> Panic"
  using assms get [of "db p" k] goes_refl [of contents p] accounted_trackGet [of "contents (db p)" p e k]
  by (auto simp: Get_def goes_def published_def split: if_splits dbget.splits option.splits)

lemma Delete_goes:
  assumes "Delete D e k p = (r, p')"
  shows "if r = Ok () then goes contents [del_op k] [del_op k] p p' else p' = p"
proof -
  obtain t q where d: "deleteInternal D e k p = (t, q)" by (cases "deleteInternal D e k p")
  from deleteInternal_goes [OF d] show ?thesis
    using assms d goes_cong [of contents "[del_op k]" "[del_op k]" p q "callChangeHook (CHR ''d'') k q"]
    by (cases t) (auto simp: Delete_def)
qed

lemma Scan_spec:
  assumes "Scan D e pre p = Ok ks"
  shows "sorted ks \<and> distinct ks \<and> set ks = {k \<in> dom (contents (db p)). HasPrefix k pre}"
  using assms keys [of "db p"] scan_keys_eq
  by (auto simp: Scan_def sorted_filter [of id, simplified] split: if_splits option.splits)

lemma WriteBatch_unlimited:
  assumes "WriteBatch D e bs p = (r, p')" and "maxBytes p \<le> 0"
  shows "if r = Ok () then goes contents (map batch_op bs) (map batch_op bs) p p' else p' = p"
proof (cases "ctxErr e \<or> bs = []")
  case True
  with assms goes_refl show ?thesis by (cases "ctxErr e") (auto simp: WriteBatch_def)
next
  case ctx: False
  have ev: "evictForDelta D e delta q = (Ok (), q)" if "maxBytes q \<le> 0" for delta q
    using that by (simp add: evictForDelta.simps [of D e delta q])
  show ?thesis
  proof (cases "db_commit D (db p) bs")
    case (Some d)
    let ?q = "fold (track_batch e) bs (p\<lparr> db := d \<rparr>)"
    have q: "db ?q = d" "maxBytes ?q = maxBytes p" "policy ?q = policy p" "phub ?q = phub p"
      using track_batch_fields [of e bs "p\<lparr> db := d \<rparr>"] by simp_all
    then have p': "r = Ok ()" "p' = fold (\<lambda>b. publish (batch_op b)) bs ?q"
      using assms ctx Some ev by (auto simp: WriteBatch_def evictIfNeeded_def)
    have "published ([] @ map batch_op bs) p p'" unfolding p'
      by (rule published_trans [OF published_refl published_fold_batch]) (simp add: q)
    moreover have "accounted (replay (map batch_op bs) (contents (db p))) p'"
      if "accounted (contents (db p)) p"
      using accounted_track_batch [of "contents (db p)" "p\<lparr> db := d \<rparr>" bs e] that
      by (simp add: p' accounted_fold_publish accounted_cong [of "p\<lparr> db := d \<rparr>" p])
    moreover have "db p' = d" "maxBytes p' = maxBytes p" "policy p' = policy p"
      using fold_publish_fields [of bs ?q] q unfolding p' by simp_all
    ultimately show ?thesis using commit [OF Some] p' by (simp add: goes_def)
  qed (use assms ctx ev in \<open>auto simp: WriteBatch_def\<close>)
qed

end

subsection \<open>The interface the commands use\<close>

text \<open>The operations of the \<^verbatim>\<open>KV\<close> interfaces of \<^verbatim>\<open>internal/commands\<close> and \<^verbatim>\<open>internal/replication\<close>.\<close>

record 's kv =
  kvGet :: "bytes \<Rightarrow> 's \<Rightarrow> (storage_error, bytes) res \<times> 's"
  kvSet :: "bytes \<Rightarrow> bytes \<Rightarrow> 's \<Rightarrow> (storage_error, unit) res \<times> 's"
  kvDelete :: "bytes \<Rightarrow> 's \<Rightarrow> (storage_error, unit) res \<times> 's"
  kvScan :: "bytes \<Rightarrow> 's \<Rightarrow> (storage_error, bytes list) res"
  kvBatch :: "BatchOp list \<Rightarrow> 's \<Rightarrow> (storage_error, unit) res \<times> 's"
  kvText :: "storage_error \<Rightarrow> string"

definition pebble_kv :: "'d dbops \<Rightarrow> env \<Rightarrow> 'd Pebble kv" where
  "pebble_kv D e = \<lparr> kvGet = Get D e, kvSet = Set D e, kvDelete = Delete D e, kvScan = Scan D e,
     kvBatch = WriteBatch D e, kvText = errText e \<rparr>"

text \<open>What the commands rely on: the store is a map. This is what is left of the store when no
  memory limit is set, the context is not cancelled and the database does not fail.\<close>

locale kv_store =
  fixes K :: "'s kv" and view :: "'s \<Rightarrow> bytes \<rightharpoonup> bytes" and live :: "'s \<Rightarrow> bool"
  assumes kv_get: "live s \<Longrightarrow> kvGet K k s = (g, s') \<Longrightarrow>
      g = (case view s k of None \<Rightarrow> Err ErrNotFound | Some v \<Rightarrow> Ok v) \<and> view s' = view s \<and> live s'"
    and kv_set: "live s \<Longrightarrow> kvSet K k v s = (r, s') \<Longrightarrow> r = Ok () \<and> view s' = (view s)(k \<mapsto> v) \<and> live s'"
    and kv_delete: "live s \<Longrightarrow> kvDelete K k s = (r, s') \<Longrightarrow>
      r = Ok () \<and> view s' = (view s)(k := None) \<and> live s'"
    and kv_scan: "live s \<Longrightarrow> \<exists>ks. kvScan K pre s = Ok ks \<and> sorted ks \<and> distinct ks
      \<and> set ks = {k \<in> dom (view s). HasPrefix k pre}"
    and kv_batch: "live s \<Longrightarrow> kvBatch K bs s = (r, s') \<Longrightarrow>
      r = Ok () \<and> view s' = replay (map batch_op bs) (view s) \<and> live s'"
begin

text \<open>The same laws as equations on results.\<close>

lemma get_hit [simp]: "live s \<Longrightarrow> view s k = Some v \<Longrightarrow> fst (kvGet K k s) = Ok v"
  using kv_get [of s k "fst (kvGet K k s)" "snd (kvGet K k s)"] by simp

lemma get_miss [simp]: "live s \<Longrightarrow> view s k = None \<Longrightarrow> fst (kvGet K k s) = Err ErrNotFound"
  using kv_get [of s k "fst (kvGet K k s)" "snd (kvGet K k s)"] by simp

lemma view_get [simp]: "live s \<Longrightarrow> view (snd (kvGet K k s)) = view s"
  using kv_get [of s k "fst (kvGet K k s)" "snd (kvGet K k s)"] by simp

lemma live_get [simp]: "live s \<Longrightarrow> live (snd (kvGet K k s))"
  using kv_get [of s k "fst (kvGet K k s)" "snd (kvGet K k s)"] by simp

lemma set_ok [simp]:
  "live s \<Longrightarrow> fst (kvSet K k v s) = Ok ()" "live s \<Longrightarrow> view (snd (kvSet K k v s)) = (view s)(k \<mapsto> v)"
  "live s \<Longrightarrow> live (snd (kvSet K k v s))"
  using kv_set [of s k v "fst (kvSet K k v s)" "snd (kvSet K k v s)"] by simp_all

lemma delete_ok [simp]:
  "live s \<Longrightarrow> fst (kvDelete K k s) = Ok ()" "live s \<Longrightarrow> view (snd (kvDelete K k s)) = (view s)(k := None)"
  "live s \<Longrightarrow> live (snd (kvDelete K k s))"
  using kv_delete [of s k "fst (kvDelete K k s)" "snd (kvDelete K k s)"] by simp_all

lemma batch_ok [simp]:
  "live s \<Longrightarrow> fst (kvBatch K bs s) = Ok ()"
  "live s \<Longrightarrow> view (snd (kvBatch K bs s)) = replay (map batch_op bs) (view s)"
  "live s \<Longrightarrow> live (snd (kvBatch K bs s))"
  using kv_batch [of s bs "fst (kvBatch K bs s)" "snd (kvBatch K bs s)"] by simp_all

end

text \<open>A database that does not fail, under a context that is not cancelled.\<close>

locale reliable_db = pebble_db +
  fixes e :: env
  assumes no_cancel: "\<not> ctxErr e"
    and get_works: "db_get D d k \<noteq> Failed" and put_works: "db_set D d k v \<noteq> None"
    and remove_works: "db_delete D d k \<noteq> None" and commit_works: "db_commit D d bs \<noteq> None"
    and keys_works: "db_keys D d \<noteq> None"
begin

lemma Get_works:
  assumes "Get D e k p = (r, p')"
  shows "r = (case contents (db p) k of None \<Rightarrow> Err ErrNotFound | Some v \<Rightarrow> Ok v)"
  using assms get [of "db p" k] get_works [of "db p" k] no_cancel
  by (auto simp: Get_def split: option.splits)

lemma Set_works: "maxBytes p \<le> 0 \<Longrightarrow> Set D e k v p = (r, p') \<Longrightarrow> r = Ok ()"
  using put_works [of "db p" k v] no_cancel
  by (auto simp: Set_def evictForDelta.simps [of D e _ p])

lemma Delete_works: "Delete D e k p = (r, p') \<Longrightarrow> r = Ok ()"
  using remove_works [of "db p" k] no_cancel by (auto simp: Delete_def deleteInternal_def)

lemma WriteBatch_works:
  assumes "maxBytes p \<le> 0" and "WriteBatch D e bs p = (r, p')"
  shows "r = Ok ()"
proof -
  have ev: "evictForDelta D e delta q = (Ok (), q)" if "maxBytes q \<le> 0" for delta q
    using that by (simp add: evictForDelta.simps [of D e delta q])
  obtain d where d: "db_commit D (db p) bs = Some d" using commit_works by blast
  have "maxBytes (fold (track_batch e) bs (p\<lparr> db := d \<rparr>)) = maxBytes p"
    using track_batch_fields(2) [of e bs "p\<lparr> db := d \<rparr>"] by simp
  with assms d no_cancel ev show ?thesis
    by (auto simp: WriteBatch_def evictIfNeeded_def split: if_splits)
qed

end

sublocale reliable_db \<subseteq> kv_store "pebble_kv D e" "\<lambda>p. contents (db p)" "\<lambda>p. maxBytes p \<le> 0"
proof
  fix s s' :: "'a Pebble" and k
  assume live: "maxBytes s \<le> 0"
  show "r = (case contents (db s) k of None \<Rightarrow> Err ErrNotFound | Some v \<Rightarrow> Ok v)
      \<and> contents (db s') = contents (db s) \<and> maxBytes s' \<le> 0"
    if "kvGet (pebble_kv D e) k s = (r, s')" for r
  proof -
    from that have g: "Get D e k s = (r, s')" by (simp add: pebble_kv_def)
    from Get_spec(1) [OF g] Get_works [OF g] live show ?thesis by (simp add: goes_def)
  qed
next
  fix s s' :: "'a Pebble" and k v r
  assume live: "maxBytes s \<le> 0" and "kvSet (pebble_kv D e) k v s = (r, s')"
  then have g: "Set D e k v s = (r, s')" by (simp add: pebble_kv_def)
  from Set_goes [OF g] Set_works [OF live g] live
  show "r = Ok () \<and> contents (db s') = (contents (db s))(k \<mapsto> v) \<and> maxBytes s' \<le> 0"
    by (auto simp: goes_def)
next
  fix s s' :: "'a Pebble" and k r
  assume live: "maxBytes s \<le> 0" and "kvDelete (pebble_kv D e) k s = (r, s')"
  then have g: "Delete D e k s = (r, s')" by (simp add: pebble_kv_def)
  from Delete_goes [OF g] Delete_works [OF g] live
  show "r = Ok () \<and> contents (db s') = (contents (db s))(k := None) \<and> maxBytes s' \<le> 0"
    by (auto simp: goes_def)
next
  fix s :: "'a Pebble" and pre
  obtain ks where "db_keys D (db s) = Some ks" using keys_works by blast
  then have "Scan D e pre s = Ok (scan_keys pre ks)" using no_cancel by (simp add: Scan_def)
  with Scan_spec [OF this] show "\<exists>ks. kvScan (pebble_kv D e) pre s = Ok ks \<and> sorted ks \<and> distinct ks
      \<and> set ks = {k \<in> dom (contents (db s)). HasPrefix k pre}"
    by (simp add: pebble_kv_def)
next
  fix s s' :: "'a Pebble" and bs r
  assume live: "maxBytes s \<le> 0" and "kvBatch (pebble_kv D e) bs s = (r, s')"
  then have g: "WriteBatch D e bs s = (r, s')" by (simp add: pebble_kv_def)
  from WriteBatch_unlimited [OF g live] WriteBatch_works [OF live g] live
  show "r = Ok () \<and> contents (db s') = replay (map batch_op bs) (contents (db s)) \<and> maxBytes s' \<le> 0"
    by (auto simp: goes_def)
qed

subsection \<open>A database in memory\<close>

text \<open>A concrete database that satisfies the contract, for the concrete runs below.\<close>

definition memdb :: "(bytes \<times> bytes) list dbops" where
  "memdb = \<lparr>
     db_get = (\<lambda>d k. case map_of d k of None \<Rightarrow> Absent | Some v \<Rightarrow> Found v),
     db_set = (\<lambda>d k v. Some (AList.update k v d)),
     db_delete = (\<lambda>d k. Some (AList.delete k d)),
     db_commit = (\<lambda>d bs. Some (fold (\<lambda>b d. if BDelete b then AList.delete (BKey b) d
                                          else AList.update (BKey b) (BValue b) d) bs d)),
     db_keys = (\<lambda>d. Some (sort (remdups (map fst d)))) \<rparr>"

definition quiet_env :: env where
  "quiet_env = \<lparr> ctxErr = False, nowSec = 7, prio = (\<lambda>_ _. 0), rnd = (\<lambda>_ _. 0), errText = (\<lambda>_. ''error'') \<rparr>"

lemma memdb_commit:
  "map_of (fold (\<lambda>b d. if BDelete b then AList.delete (BKey b) d
                       else AList.update (BKey b) (BValue b) d) bs d) = replay (map batch_op bs) (map_of d)"
  by (induction bs arbitrary: d) (simp_all add: apply_batch_op delete_conv' update_conv')

interpretation memdb: reliable_db memdb map_of quiet_env
proof
  fix d :: "(bytes \<times> bytes) list" and k v d' bs ks
  show "db_get memdb d k = Failed \<or> db_get memdb d k = (case map_of d k of None \<Rightarrow> Absent | Some v \<Rightarrow> Found v)"
    "db_set memdb d k v = Some d' \<Longrightarrow> map_of d' = (map_of d)(k \<mapsto> v)"
    "db_delete memdb d k = Some d' \<Longrightarrow> map_of d' = (map_of d)(k := None)"
    "\<not> ctxErr quiet_env" "db_get memdb d k \<noteq> Failed" "db_set memdb d k v \<noteq> None"
    "db_delete memdb d k \<noteq> None" "db_commit memdb d bs \<noteq> None" "db_keys memdb d \<noteq> None"
    by (auto simp: memdb_def update_conv' delete_conv' quiet_env_def split: option.splits)
  show "sorted ks \<and> distinct ks \<and> set ks = dom (map_of d)" if "db_keys memdb d = Some ks"
  proof -
    from that have "ks = sort (remdups (map fst d))" by (simp add: memdb_def)
    then show ?thesis by (simp add: dom_map_of_conv_image_fst)
  qed
  show "db_commit memdb d bs = Some d' \<Longrightarrow> map_of d' = replay (map batch_op bs) (map_of d)"
    by (auto simp: memdb_def memdb_commit)
qed

subsection \<open>The store is sound\<close>

text \<open>
  C8. \<^verbatim>\<open>Set\<close> either writes or does not: on success the contents are the old contents without the
  evicted keys, all of them keys the accounting knew, and with the new value; on any error the key
  is not written and only evictions can have happened; without a memory limit nothing is evicted.
  The changes are handed to the replication hub in exactly the order in which they were made.
\<close>

theorem store_set:
  assumes "pebble_db D c" and "Set D e k v p = (r, p')"
  shows "\<exists>vs qs. set vs \<subseteq> fst ` set (lru p) \<and> qs = map del_op vs @ (if r = Ok () then [set_op k v] else [])
    \<and> c (db p') = replay qs (c (db p)) \<and> published qs p p'
    \<and> (maxBytes p \<le> 0 \<longrightarrow> vs = [] \<and> r \<noteq> Err ErrOOM)"
  using pebble_db.Set_goes [OF assms] by (auto simp: Let_def goes_def)

theorem store_set_witness:
  "map_of (db (snd (Set memdb quiet_env ''s:a'' ''1'' (New [] None)))) = [''s:a'' \<mapsto> ''1'']
   \<and> fst (Set memdb quiet_env ''s:a'' ''1'' (New [] None)) = Ok ()"
proof -
  let ?r = "Set memdb quiet_env ''s:a'' ''1'' (New [] None)"
  have ok: "fst ?r = Ok ()"
    by (simp add: Set_def quiet_env_def New_def memdb_def evictForDelta.simps)
  then have s: "?r = (Ok (), snd ?r)" by (simp add: prod_eq_iff)
  from store_set [OF memdb.pebble_db_axioms s] have "map_of (db (snd ?r)) = [''s:a'' \<mapsto> ''1'']"
    by (auto simp: New_def)
  with ok show ?thesis by simp
qed

lemma WriteBatch_accounted:
  assumes "pebble_db D c" and "accounted (c (db p)) p"
  shows "accounted (c (db (snd (WriteBatch D e bs p)))) (snd (WriteBatch D e bs p))"
proof (cases "ctxErr e \<or> bs = []")
  case ctx: False
  obtain t q where ev: "evictForDelta D e (batch_delta p [] (rev bs)) p = (t, q)"
    by (cases "evictForDelta D e (batch_delta p [] (rev bs)) p")
  have q: "accounted (c (db q)) q"
    using pebble_db.evictForDelta_goes [OF assms(1) ev] assms(2) by (auto simp: goes_def)
  show ?thesis
  proof (cases "t = Ok () \<and> db_commit D (db q) bs \<noteq> None")
    case True
    then obtain d where d: "db_commit D (db q) bs = Some d" by auto
    let ?q = "fold (track_batch e) bs (q\<lparr> db := d \<rparr>)"
    obtain u w where if_needed: "evictForDelta D e 0 ?q = (u, w)" by (cases "evictForDelta D e 0 ?q")
    have "accounted (c (db ?q)) ?q"
      using accounted_track_batch [of "c (db q)" "q\<lparr> db := d \<rparr>" bs e] q
        pebble_db.commit [OF assms(1) d] track_batch_fields(1) [of e bs "q\<lparr> db := d \<rparr>"]
      by (simp add: accounted_cong [of "q\<lparr> db := d \<rparr>" q])
    then have "accounted (c (db w)) w"
      using pebble_db.evictForDelta_goes [OF assms(1) if_needed] by (auto simp: goes_def)
    with True d ev if_needed ctx show ?thesis
      by (cases u) (simp_all add: WriteBatch_def evictIfNeeded_def fold_publish_fields accounted_fold_publish)
  next
    case False
    with q ev ctx show ?thesis by (cases t) (auto simp: WriteBatch_def split: option.split)
  qed
qed (use assms in \<open>auto simp: WriteBatch_def\<close>)

text \<open>
  C7. The accounting is exact: if every tracked key is stored with the size on record and the used
  bytes are the sum of the sizes, then this still holds after a read, a write, a deletion, a batch
  and a run of the eviction loop, whatever their results.
\<close>

theorem store_accounting:
  assumes "pebble_db D c" and "accounted (c (db p)) p"
  shows "let p1 = snd (Get D e k p); p2 = snd (Set D e k v p); p3 = snd (Delete D e k p);
             p4 = snd (WriteBatch D e bs p); p5 = snd (evictForDelta D e delta p)
         in accounted (c (db p1)) p1 \<and> accounted (c (db p2)) p2 \<and> accounted (c (db p3)) p3
            \<and> accounted (c (db p4)) p4 \<and> accounted (c (db p5)) p5"
proof -
  have "accounted (c (db (snd (Get D e k p)))) (snd (Get D e k p))"
    using pebble_db.Get_spec(1) [OF assms(1), of e k p "fst (Get D e k p)" "snd (Get D e k p)"] assms(2)
    by (auto simp: goes_def)
  moreover have "accounted (c (db (snd (Set D e k v p)))) (snd (Set D e k v p))"
    using pebble_db.Set_goes [OF assms(1), of e k v p "fst (Set D e k v p)" "snd (Set D e k v p)"] assms(2)
    by (auto simp: goes_def Let_def)
  moreover have "accounted (c (db (snd (Delete D e k p)))) (snd (Delete D e k p))"
    using pebble_db.Delete_goes [OF assms(1), of e k p "fst (Delete D e k p)" "snd (Delete D e k p)"] assms(2)
    by (auto simp: goes_def split: if_splits)
  moreover have "accounted (c (db (snd (evictForDelta D e delta p)))) (snd (evictForDelta D e delta p))"
    using pebble_db.evictForDelta_goes [OF assms(1), of e delta p "fst (evictForDelta D e delta p)"
        "snd (evictForDelta D e delta p)"] assms(2)
    by (auto simp: goes_def)
  ultimately show ?thesis using WriteBatch_accounted [OF assms] by (simp add: Let_def)
qed

theorem store_accounting_witness:
  "accounted (map_of (db (snd (Set memdb quiet_env ''s:a'' ''12'' (New [] None)))))
     (snd (Set memdb quiet_env ''s:a'' ''12'' (New [] None)))
   \<and> usedBytes (snd (Set memdb quiet_env ''s:a'' ''12'' (New [] None))) = 5"
proof -
  have a: "accounted (map_of (db (New [] None :: (bytes \<times> bytes) list Pebble))) (New [] None)"
    by (simp add: accounted_def New_def lru_total_def)
  have "usedBytes (snd (Set memdb quiet_env ''s:a'' ''12'' (New [] None))) = 5"
    by (simp add: Set_def quiet_env_def New_def memdb_def evictForDelta.simps trackSet_def Let_def
        split: prod.split)
  then show ?thesis
    using store_accounting [OF memdb.pebble_db_axioms a, of quiet_env "''s:a''" "''12''" "[]" 0]
    by (simp add: Let_def)
qed

text \<open>
  C9. A successful write of a key the accounting does not know keeps the used bytes within the limit,
  under every eviction policy and every order of iteration.
\<close>

theorem store_bound:
  assumes "pebble_db D c" and "Set D e k v p = (Ok (), p')" and "0 < maxBytes p"
    and "map_of (lru p) k = None"
  shows "usedBytes p' \<le> maxBytes p"
proof -
  let ?sz = "int (length k + length v)"
  have ctx: "\<not> ctxErr e" using assms(2) by (auto simp: Set_def split: if_splits)
  obtain t q where ev: "evictForDelta D e ?sz p = (t, q)" by (cases "evictForDelta D e ?sz p")
  have df: "deltaFor p k ?sz = ?sz" using assms(4) by (simp add: deltaFor_def)
  from pebble_db.evictForDelta_goes [OF assms(1) ev] obtain vs where
    t: "t = Ok () \<or> t = Err ErrOOM" and b: "t = Ok () \<longrightarrow> usedBytes q + ?sz \<le> maxBytes p"
    using assms(3) by auto
  have "fst ` set (lru q) \<subseteq> fst ` set (lru p)" by (rule evictForDelta_keys [OF ev])
  with assms(4) have none: "map_of (lru q) k = None" by (auto simp: map_of_eq_None_iff)
  from t show ?thesis
  proof
    assume "t = Ok ()"
    moreover from this obtain d where "db_set D (db q) k v = Some d"
      using assms(2) ctx ev df by (auto simp: Set_def split: option.splits)
    ultimately have "usedBytes p' = usedBytes (trackSet e k v (q\<lparr> db := d \<rparr>))"
      using assms(2) ctx ev df by (auto simp: Set_def)
    also have "\<dots> = usedBytes q + ?sz" using none by (simp add: trackSet_def Let_def split: prod.split)
    finally show ?thesis using b \<open>t = Ok ()\<close> by simp
  next
    assume "t = Err ErrOOM"
    then show ?thesis using assms(2) ctx ev df by (simp add: Set_def)
  qed
qed

definition full_store :: "(bytes \<times> bytes) list Pebble" where
  "full_store = SetMaxBytes 8 (snd (Set memdb quiet_env ''s:a'' ''12345'' (New [] (Some (NewHub 8)))))"

theorem store_bound_witness:
  "fst (Set memdb quiet_env ''s:b'' ''12'' full_store) = Ok ()
   \<and> usedBytes (snd (Set memdb quiet_env ''s:b'' ''12'' full_store)) \<le> 8"
proof -
  let ?r = "Set memdb quiet_env ''s:b'' ''12'' full_store"
  have ok: "fst ?r = Ok ()" by code_simp
  then have s: "?r = (Ok (), snd ?r)" by (simp add: prod_eq_iff)
  have "0 < maxBytes full_store" "map_of (lru full_store) ''s:b'' = None" "maxBytes full_store = 8"
    by code_simp+
  with store_bound [OF memdb.pebble_db_axioms s] ok show ?thesis by simp
qed


text \<open>
  Under \<^verbatim>\<open>noeviction\<close> a write that does not fit is refused with \<^verbatim>\<open>ErrOOM\<close> and changes nothing at
  all: not the contents, not the accounting, not the replication stream.
\<close>

theorem store_noeviction:
  assumes "\<not> ctxErr e" and "policy p = ''noeviction''" and "0 < maxBytes p"
    and "maxBytes p < usedBytes p + deltaFor p k (int (length k + length v))"
  shows "Set D e k v p = (Err ErrOOM, p)"
proof -
  have "evictOne D e p = (False, p)"
    using assms(2) by (simp add: evictOne_def victim_def Policy_def)
  then have "evictForDelta D e (deltaFor p k (int (length k + length v))) p = (Err ErrOOM, p)"
    using assms(3,4) by (simp add: evictForDelta.simps [of D e _ p])
  with assms(1) show ?thesis by (simp add: Set_def)
qed

theorem store_noeviction_witness:
  "Set memdb quiet_env ''s:b'' ''12'' (snd (SetPolicy ''NoEviction'' full_store))
     = (Err ErrOOM, snd (SetPolicy ''NoEviction'' full_store))"
proof (rule store_noeviction)
  show "\<not> ctxErr quiet_env" by (simp add: quiet_env_def)
  show "policy (snd (SetPolicy ''NoEviction'' full_store)) = ''noeviction''" by code_simp
  show "0 < maxBytes (snd (SetPolicy ''NoEviction'' full_store))" by code_simp
  show "maxBytes (snd (SetPolicy ''NoEviction'' full_store))
      < usedBytes (snd (SetPolicy ''NoEviction'' full_store))
        + deltaFor (snd (SetPolicy ''NoEviction'' full_store)) ''s:b'' (int (length ''s:b'' + length ''12''))"
    by code_simp
qed

text \<open>Sequences of single-key operations, each with the environment it runs in.\<close>

datatype store_cmd = CGet bytes | CSet bytes bytes | CDel bytes

fun exec :: "'d dbops \<Rightarrow> env \<times> store_cmd \<Rightarrow> 'd Pebble \<Rightarrow> 'd Pebble" where
  "exec D (e, CGet k) p = snd (Get D e k p)"
| "exec D (e, CSet k v) p = snd (Set D e k v p)"
| "exec D (e, CDel k) p = snd (Delete D e k p)"

lemma exec_goes:
  assumes "pebble_db D c"
  shows "\<exists>qs. goes c qs qs p (exec D x p)"
proof (cases "(D, x, p)" rule: exec.cases)
  case (1 D' e k p')
  then show ?thesis
    using pebble_db.Get_spec(1) [OF assms, of e k p "fst (Get D e k p)" "snd (Get D e k p)"] by auto
next
  case (2 D' e k v p')
  then show ?thesis
    using pebble_db.Set_goes [OF assms, of e k v p "fst (Set D e k v p)" "snd (Set D e k v p)"]
    by (auto simp: Let_def)
next
  case (3 D' e k p')
  then show ?thesis
    using pebble_db.Delete_goes [OF assms, of e k p "fst (Delete D e k p)" "snd (Delete D e k p)"]
      goes_refl [of c p]
    by (auto split: if_splits)
qed

lemma exec_fold_goes:
  assumes "pebble_db D c"
  shows "\<exists>qs. goes c qs qs p (fold (exec D) xs p)"
proof (induction xs arbitrary: p)
  case Nil
  show ?case using goes_refl by (intro exI [of _ "[]"]) simp
next
  case (Cons x xs)
  obtain a where "goes c a a p (exec D x p)" using exec_goes [OF assms] by blast
  moreover obtain b where "goes c b b (exec D x p) (fold (exec D) xs (exec D x p))" using Cons by blast
  ultimately show ?case using goes_trans by (intro exI [of _ "a @ b"]) simp
qed

text \<open>
  C3. The replication stream is complete: after any sequence of reads, writes and deletions, failed
  ones and evictions included, the contents of the store are what replaying the published changes
  on its initial contents gives, and the backlog represents exactly these changes.
\<close>

theorem store_log:
  assumes "pebble_db D c" and "phub p = Some (NewHub m)"
  shows "\<exists>h b. phub (fold (exec D) xs p) = Some b \<and> backlog_of (backlog b) h
    \<and> c (db (fold (exec D) xs p)) = replay h (c (db p))"
proof -
  obtain qs where g: "goes c qs qs p (fold (exec D) xs p)" using exec_fold_goes [OF assms(1)] by blast
  have "backlog_of (backlog (NewHub m)) []" by (simp add: NewHub_def backlog_of_New)
  with g assms(2) show ?thesis by (auto simp: goes_def published_def intro!: exI [of _ qs])
qed

theorem store_log_witness:
  "\<exists>h b. phub (fold (exec memdb) [(quiet_env, CSet ''s:b'' ''12''), (quiet_env, CDel ''s:b'')]
                (full_store\<lparr> phub := Some (NewHub 8) \<rparr>)) = Some b
     \<and> backlog_of (backlog b) h
     \<and> map_of (db (fold (exec memdb) [(quiet_env, CSet ''s:b'' ''12''), (quiet_env, CDel ''s:b'')]
                (full_store\<lparr> phub := Some (NewHub 8) \<rparr>)))
       = replay h (map_of (db (full_store\<lparr> phub := Some (NewHub 8) \<rparr>)))"
  by (rule store_log [OF memdb.pebble_db_axioms]) simp


text \<open>
  A prefix scan returns exactly the stored keys with the prefix, in ascending order and each once.
\<close>

theorem store_scan:
  assumes "pebble_db D c" and "Scan D e pre p = Ok ks"
  shows "sorted ks \<and> distinct ks \<and> set ks = {k \<in> dom (c (db p)). HasPrefix k pre}"
  by (rule pebble_db.Scan_spec [OF assms])

theorem store_scan_witness:
  "sorted [''s:a''] \<and> distinct [''s:a''] \<and> set [''s:a''] = {k \<in> dom (map_of (db full_store)). HasPrefix k ''s:''}"
proof (rule store_scan [OF memdb.pebble_db_axioms])
  show "Scan memdb quiet_env ''s:'' full_store = Ok [''s:a'']" by code_simp
qed

end
