(* ===== verification/Cluster.thy ===== *)
theory Cluster
  imports Codec
begin

unbundle bit_operations_syntax

text \<open>
  The cluster support of \<^verbatim>\<open>internal/cluster\<close>: the hash slot of a key (\<^verbatim>\<open>slot.go\<close>), the static topology
  with its migration states (\<^verbatim>\<open>topo.go\<close>), the text form of a snapshot (\<^verbatim>\<open>snapshot.go\<close>), the keys a
  command touches (\<^verbatim>\<open>keys.go\<close>), and the redirection of commands (\<^verbatim>\<open>intercept\<close> and \<^verbatim>\<open>CheckExec\<close> of
  \<^verbatim>\<open>internal/commands/cluster.go\<close>). The arrays over the 16384 slots are functions on the slot
  number; a read lock or a write lock covers each operation, so that every operation is one step.
\<close>

subsection \<open>Hash slots (\<^verbatim>\<open>slot.go\<close>)\<close>

definition NumSlots :: int where "NumSlots = 16384"

definition crc_bit :: "16 word \<Rightarrow> 16 word" where
  "crc_bit crc = (if crc AND 0x8000 \<noteq> 0 then push_bit 1 crc XOR 0x1021 else push_bit 1 crc)"

definition crc_byte :: "16 word \<Rightarrow> char \<Rightarrow> 16 word" where
  "crc_byte crc c = (crc_bit ^^ 8) (crc XOR push_bit 8 (of_nat (ord c)))"

definition crc16 :: "string \<Rightarrow> 16 word" where
  "crc16 s = foldl crc_byte 0 s"

definition tag :: "string \<Rightarrow> string" where
  "tag key =
     (let i = IndexByte key (CHR ''{'') in
      if 0 \<le> i then
        (let rest = drop (nat i + 1) key; j = IndexByte rest (CHR ''}'')
         in if 0 < j then take (nat j) rest else key)
      else key)"

definition Slot :: "string \<Rightarrow> int" where
  "Slot key = uint (crc16 (tag key) AND 16383)"

datatype cluster_error =
    EmptySlotSpec | InvalidSlotRange string | SlotRangeOut string | InvalidSlot string
  | InvalidServerAddr string | NodeMissingAddr | InvalidNodeAddr string | SlotClaimedTwice int
  | NoSelfEntry string | SlotOutOfRange | NotOwner | AlreadyOwner | UnknownNode string | EpochRegressed
  | BadEpochLine | BadEpoch string | BadLine string | BadSlot string | LineTooLong | MissingEpoch

definition parse_slot_range :: "string \<Rightarrow> (cluster_error, int \<times> int) res" where
  "parse_slot_range s0 =
     (let s = TrimSpace s0; i = IndexByte s (CHR ''-'') in
      if s = [] then Err EmptySlotSpec
      else if 0 \<le> i then
        (case (ParseInt (TrimSpace (take (nat i) s)), ParseInt (TrimSpace (drop (nat i + 1) s))) of
           (Some lo, Some hi) \<Rightarrow>
             if lo < 0 \<or> NumSlots \<le> hi \<or> hi < lo then Err (SlotRangeOut s) else Ok (lo, hi)
         | _ \<Rightarrow> Err (InvalidSlotRange s))
      else (case ParseInt s of
              Some n \<Rightarrow> if n < 0 \<or> NumSlots \<le> n then Err (InvalidSlot s) else Ok (n, n)
            | None \<Rightarrow> Err (InvalidSlot s)))"

fun ParseSlotRanges :: "string list \<Rightarrow> (cluster_error, (int \<times> int) list) res" where
  "ParseSlotRanges [] = Ok []"
| "ParseSlotRanges (s # specs) =
     bind_res (parse_slot_range s) (\<lambda>r. bind_res (ParseSlotRanges specs) (\<lambda>rs. Ok (r # rs)))"

lemma IndexByte_append: "c \<notin> set a \<Longrightarrow> IndexByte (a @ c # b) c = int (length a)"
  by (induction a) (auto simp: Let_def)

lemma IndexByte_absent: "c \<notin> set a \<Longrightarrow> IndexByte a c = -1"
  by (induction a) (auto simp: Let_def)

lemma IndexByte_nonneg: "0 \<le> IndexByte a c \<longleftrightarrow> c \<in> set a"
  by (induction a) (auto simp: Let_def)

lemma tag_braces:
  assumes "CHR ''{'' \<notin> set a" and "CHR ''}'' \<notin> set t" and "t \<noteq> []"
  shows "tag (a @ CHR ''{'' # t @ CHR ''}'' # b) = t"
proof -
  have "IndexByte (a @ CHR ''{'' # t @ CHR ''}'' # b) (CHR ''{'') = int (length a)"
    using assms(1) by (rule IndexByte_append)
  moreover have "IndexByte (t @ CHR ''}'' # b) (CHR ''}'') = int (length t)"
    using assms(2) by (rule IndexByte_append)
  ultimately show ?thesis using assms(3) by (simp add: tag_def Let_def)
qed

lemma tag_plain: "CHR ''{'' \<notin> set k \<Longrightarrow> tag k = k"
  by (simp add: tag_def IndexByte_absent)

lemma Slot_range: "0 \<le> Slot k \<and> Slot k < NumSlots"
proof -
  have "x AND 16383 = take_bit 14 x" for x :: "16 word"
    by (simp add: take_bit_eq_mask mask_eq_exp_minus_1)
  then have "Slot k = take_bit 14 (uint (crc16 (tag k)))"
    by (simp add: Slot_def unsigned_take_bit_eq)
  then show ?thesis using take_bit_int_less_exp [of 14 "uint (crc16 (tag k))"] by (simp add: NumSlots_def)
qed

subsection \<open>Node identifiers\<close>

text \<open>\<^verbatim>\<open>crypto/sha1\<close>: padding, the message schedule, and eighty rounds per block of 64 bytes.\<close>

definition be_word32 :: "bytes \<Rightarrow> 32 word" where
  "be_word32 b = of_nat (be_val b)"

definition sha1_pad :: "bytes \<Rightarrow> bytes" where
  "sha1_pad m = m @ [byte 128] @ replicate ((119 - length m mod 64) mod 64) (byte 0) @ be_bytes 8 (8 * length m)"

definition rotl32 :: "nat \<Rightarrow> 32 word \<Rightarrow> 32 word" where
  "rotl32 n w = push_bit n w OR drop_bit (32 - n) w"

fun sha1_schedule :: "nat \<Rightarrow> 32 word list \<Rightarrow> 32 word list" where
  "sha1_schedule 0 ws = ws"
| "sha1_schedule (Suc n) ws =
     (let t = length ws
      in sha1_schedule n (ws @ [rotl32 1 (ws ! (t - 3) XOR ws ! (t - 8) XOR ws ! (t - 14) XOR ws ! (t - 16))]))"

type_synonym sha1_state = "32 word \<times> 32 word \<times> 32 word \<times> 32 word \<times> 32 word"

definition sha1_round :: "sha1_state \<Rightarrow> nat \<times> 32 word \<Rightarrow> sha1_state" where
  "sha1_round st x =
     (case (st, x) of ((a, b, c, d, e), (i, w)) \<Rightarrow>
        (let (f, k) =
           (if i < 20 then ((b AND c) OR (NOT b AND d), 0x5A827999)
            else if i < 40 then (b XOR c XOR d, 0x6ED9EBA1)
            else if i < 60 then ((b AND c) OR (b AND d) OR (c AND d), 0x8F1BBCDC)
            else (b XOR c XOR d, 0xCA62C1D6))
         in (rotl32 5 a + f + e + k + w, a, rotl32 30 b, c, d)))"

fun chunks :: "nat \<Rightarrow> nat \<Rightarrow> bytes \<Rightarrow> bytes list" where
  "chunks n 0 b = []"
| "chunks n (Suc k) b = take n b # chunks n k (drop n b)"

definition sha1_block :: "sha1_state \<Rightarrow> bytes \<Rightarrow> sha1_state" where
  "sha1_block st blk =
     (let ws = sha1_schedule 64 (map be_word32 (chunks 4 16 blk))
      in case (st, foldl sha1_round st (enumerate 0 ws)) of
           ((a, b, c, d, e), (a', b', c', d', e')) \<Rightarrow> (a + a', b + b', c + c', d + d', e + e'))"

definition sha1 :: "bytes \<Rightarrow> bytes" where
  "sha1 m =
     (let p = sha1_pad m
      in case foldl sha1_block (0x67452301, 0xEFCDAB89, 0x98BADCFE, 0x10325476, 0xC3D2E1F0)
                (chunks 64 (length p div 64) p) of
           (a, b, c, d, e) \<Rightarrow> concat (map (\<lambda>w. be_bytes 4 (unat w)) [a, b, c, d, e]))"

definition hexd :: string where
  "hexd = ''0123456789abcdef''"

definition DeriveID :: "string \<Rightarrow> string" where
  "DeriveID addr = concat (map (\<lambda>b. [hexd ! (ord b div 16), hexd ! (ord b mod 16)]) (sha1 addr))"

subsection \<open>Host and port\<close>

text \<open>\<^verbatim>\<open>net.SplitHostPort\<close>; \<^const>\<open>None\<close> is one of its address errors.\<close>

definition LastIndexByte :: "string \<Rightarrow> char \<Rightarrow> int" where
  "LastIndexByte s c = (let i = IndexByte (rev s) c in if i < 0 then -1 else int (length s) - 1 - i)"

definition SplitHostPort :: "string \<Rightarrow> (string \<times> string) option" where
  "SplitHostPort hp =
     (let i = LastIndexByte hp (CHR '':'') in
      if i < 0 then None
      else let port = drop (nat i + 1) hp in
      if hp ! 0 = CHR ''['' then
        (let en = IndexByte hp (CHR '']'') in
         if en < 0 \<or> en + 1 \<noteq> i then None
         else if CHR ''['' \<in> set (drop 1 hp) \<or> CHR '']'' \<in> set (drop (nat en + 1) hp) then None
         else Some (drop 1 (take (nat en) hp), port))
      else
        (let host = take (nat i) hp in
         if CHR '':'' \<in> set host \<or> CHR ''['' \<in> set hp \<or> CHR '']'' \<in> set hp then None
         else Some (host, port)))"

definition splitAddr :: "string \<Rightarrow> (string \<times> string) option" where
  "splitAddr addr = (case SplitHostPort addr of None \<Rightarrow> None
     | Some (h, p) \<Rightarrow> if h = [] \<and> p = [] then None else Some (h, p))"

subsection \<open>The topology (\<^verbatim>\<open>topo.go\<close>)\<close>

record TopoNode =
  NID :: string
  Addr :: string
  Ranges :: "(int \<times> int) list"

record Topology =
  Enabled :: bool
  self :: int
  nodes :: "TopoNode list"
  owned :: "int \<Rightarrow> bool"
  owner :: "int \<Rightarrow> int"
  migrating :: "(int \<times> string) list"
  importing :: "(int \<times> string) list"
  epoch :: nat

definition slot_ok :: "int \<Rightarrow> bool" where
  "slot_ok s \<longleftrightarrow> 0 \<le> s \<and> s < NumSlots"

text \<open>The slots a range loop visits: \<^verbatim>\<open>for s := r[0]; s <= r[1] && s < NumSlots; s++\<close>, negative
  ones skipped.\<close>

definition range_slots :: "int \<times> int \<Rightarrow> int list" where
  "range_slots r = [max 0 (fst r)..min (snd r) (NumSlots - 1)]"

definition zero_topology :: Topology where
  "zero_topology = \<lparr> Enabled = False, self = 0, nodes = [], owned = (\<lambda>_. False), owner = (\<lambda>_. 0),
     migrating = [], importing = [], epoch = 0 \<rparr>"

definition own_slots :: "int \<Rightarrow> int list \<Rightarrow> Topology \<Rightarrow> Topology" where
  "own_slots idx ss t = fold (\<lambda>s t. t\<lparr> owned := (owned t)(s := True), owner := (owner t)(s := idx) \<rparr>) ss t"

definition NewTopology :: "bool \<Rightarrow> (int \<times> int) list \<Rightarrow> Topology" where
  "NewTopology enabled ranges =
     (if \<not> enabled then zero_topology
      else own_slots 0 (concat (map range_slots ranges))
        (zero_topology\<lparr> Enabled := True, owner := (\<lambda>_. -1),
           nodes := [\<lparr> NID = [], Addr = [], Ranges = ranges \<rparr>] \<rparr>))"

definition FullTopology :: Topology where
  "FullTopology = zero_topology\<lparr> Enabled := True, owned := slot_ok, owner := (\<lambda>_. 0),
     nodes := [\<lparr> NID = [], Addr = [], Ranges = [(0, NumSlots - 1)] \<rparr>] \<rparr>"

fun claim_slots :: "int \<Rightarrow> int list \<Rightarrow> Topology \<Rightarrow> (cluster_error, Topology) res" where
  "claim_slots idx [] t = Ok t"
| "claim_slots idx (s # ss) t =
     (if 0 \<le> owner t s then Err (SlotClaimedTwice s)
      else claim_slots idx ss (t\<lparr> owned := (owned t)(s := True), owner := (owner t)(s := idx) \<rparr>))"

text \<open>The loop of \<^verbatim>\<open>Build\<close>: a \<^verbatim>\<open>NodeSpec\<close> has the fields of a \<^verbatim>\<open>TopoNode\<close>. \<open>sf\<close> is \<^verbatim>\<open>self\<close>.\<close>

fun build_loop ::
  "string \<Rightarrow> string \<Rightarrow> TopoNode list \<Rightarrow> int \<Rightarrow> Topology \<Rightarrow> (cluster_error, int \<times> Topology) res" where
  "build_loop selfHost selfPort [] sf t = Ok (sf, t)"
| "build_loop selfHost selfPort (s # specs) sf t =
     (if Addr s = [] then Err NodeMissingAddr
      else case splitAddr (Addr s) of
        None \<Rightarrow> Err (InvalidNodeAddr (Addr s))
      | Some (h, p) \<Rightarrow>
          (let match = (h = selfHost \<and> p = selfPort)
                 \<or> ((selfHost = [] \<or> selfHost = ''0.0.0.0'') \<and> p = selfPort);
               nid = (if NID s = [] then DeriveID (Addr s) else NID s);
               ranges = sort_key fst (Ranges s);
               idx = int (length (nodes t));
               t = t\<lparr> nodes := nodes t @ [\<lparr> NID = nid, Addr = Addr s, Ranges = ranges \<rparr>] \<rparr>;
               sf = (if match \<and> sf < 0 then idx else sf)
           in bind_res (claim_slots idx (concat (map range_slots ranges)) t)
                (build_loop selfHost selfPort specs sf)))"

definition Build :: "string \<Rightarrow> TopoNode list \<Rightarrow> (cluster_error, Topology) res" where
  "Build selfAddr specs0 =
     (let specs = (if specs0 = [] then [\<lparr> NID = [], Addr = selfAddr, Ranges = [(0, NumSlots - 1)] \<rparr>] else specs0)
      in case splitAddr selfAddr of
           None \<Rightarrow> Err (InvalidServerAddr selfAddr)
         | Some (selfHost, selfPort) \<Rightarrow>
             bind_res (build_loop selfHost selfPort specs (-1) (zero_topology\<lparr> Enabled := True, owner := (\<lambda>_. -1) \<rparr>))
               (\<lambda>(sf, t). if sf < 0 then Err (NoSelfEntry selfAddr) else Ok (t\<lparr> self := sf \<rparr>)))"

definition Owns :: "Topology \<Rightarrow> int \<Rightarrow> bool" where
  "Owns t slot =
     (if \<not> Enabled t \<or> slot < 0 \<or> NumSlots \<le> slot then False
      else owned t slot \<and> owner t slot = self t)"

definition OwnerAddr :: "Topology \<Rightarrow> int \<Rightarrow> string" where
  "OwnerAddr t slot =
     (if \<not> Enabled t \<or> slot < 0 \<or> NumSlots \<le> slot then []
      else let idx = owner t slot in
        if 0 \<le> idx \<and> idx < int (length (nodes t)) then Addr (nodes t ! nat idx) else [])"

definition SelfID :: "Topology \<Rightarrow> string" where
  "SelfID t = (if \<not> Enabled t \<or> nodes t = [] then [] else NID (nodes t ! nat (self t)))"

definition SelfAddr :: "Topology \<Rightarrow> string" where
  "SelfAddr t = (if \<not> Enabled t \<or> nodes t = [] then [] else Addr (nodes t ! nat (self t)))"

definition AssignedCount :: "Topology \<Rightarrow> nat" where
  "AssignedCount t =
     (if \<not> Enabled t then 0 else length (filter (\<lambda>s. 0 \<le> owner t s) [0..NumSlots - 1]))"

definition SetMigrating :: "int \<Rightarrow> string \<Rightarrow> Topology \<Rightarrow> (cluster_error, unit) res \<times> Topology" where
  "SetMigrating slot targetID t =
     (if slot < 0 \<or> NumSlots \<le> slot then (Err SlotOutOfRange, t)
      else if owner t slot \<noteq> self t then (Err NotOwner, t)
      else if map_of (migrating t) slot = Some targetID then (Ok (), t)
      else (Ok (), t\<lparr> migrating := AList.update slot targetID (migrating t), epoch := (epoch t + 1) mod 2 ^ 64 \<rparr>))"

definition SetImporting :: "int \<Rightarrow> string \<Rightarrow> Topology \<Rightarrow> (cluster_error, unit) res \<times> Topology" where
  "SetImporting slot sourceID t =
     (if slot < 0 \<or> NumSlots \<le> slot then (Err SlotOutOfRange, t)
      else if owner t slot = self t then (Err AlreadyOwner, t)
      else if map_of (importing t) slot = Some sourceID then (Ok (), t)
      else (Ok (), t\<lparr> importing := AList.update slot sourceID (importing t), epoch := (epoch t + 1) mod 2 ^ 64 \<rparr>))"

definition SetStable :: "int \<Rightarrow> Topology \<Rightarrow> Topology" where
  "SetStable slot t =
     (if slot < 0 \<or> NumSlots \<le> slot then t
      else t\<lparr> migrating := AList.delete slot (migrating t), importing := AList.delete slot (importing t) \<rparr>)"

fun node_index :: "string \<Rightarrow> TopoNode list \<Rightarrow> nat option" where
  "node_index i [] = None"
| "node_index i (n # ns) = (if NID n = i then Some 0 else map_option Suc (node_index i ns))"

definition SetNode :: "int \<Rightarrow> string \<Rightarrow> Topology \<Rightarrow> (cluster_error, unit) res \<times> Topology" where
  "SetNode slot nodeID t =
     (if slot < 0 \<or> NumSlots \<le> slot then (Err SlotOutOfRange, t)
      else case node_index nodeID (nodes t) of
        None \<Rightarrow> (Err (UnknownNode nodeID), t)
      | Some idx \<Rightarrow>
          (Ok (), t\<lparr> owner := (owner t)(slot := int idx), owned := (owned t)(slot := True),
                     migrating := AList.delete slot (migrating t),
                     importing := AList.delete slot (importing t), epoch := (epoch t + 1) mod 2 ^ 64 \<rparr>))"

definition MigratingTo :: "Topology \<Rightarrow> int \<Rightarrow> string option" where
  "MigratingTo t slot = map_of (migrating t) slot"

definition ImportingFrom :: "Topology \<Rightarrow> int \<Rightarrow> string option" where
  "ImportingFrom t slot = map_of (importing t) slot"

definition AddrOf :: "Topology \<Rightarrow> string \<Rightarrow> string" where
  "AddrOf t i = (case node_index i (nodes t) of None \<Rightarrow> [] | Some k \<Rightarrow> Addr (nodes t ! k))"

record Snapshot =
  snOwner :: "int \<Rightarrow> int"
  snMigrating :: "(int \<times> string) list"
  snImporting :: "(int \<times> string) list"
  snEpoch :: nat

definition TopoSnapshot :: "Topology \<Rightarrow> Snapshot" where
  "TopoSnapshot t = \<lparr> snOwner = owner t, snMigrating = migrating t, snImporting = importing t, snEpoch = epoch t \<rparr>"

definition LoadSnapshot :: "Snapshot \<Rightarrow> Topology \<Rightarrow> (cluster_error, unit) res \<times> Topology" where
  "LoadSnapshot snap t =
     (if snEpoch snap < epoch t then (Err EpochRegressed, t)
      else (Ok (), t\<lparr> owner := snOwner snap,
                      owned := (\<lambda>s. if slot_ok s then 0 \<le> snOwner snap s else owned t s),
                      migrating := snMigrating snap, importing := snImporting snap, epoch := snEpoch snap \<rparr>))"

subsection \<open>The text of a snapshot (\<^verbatim>\<open>snapshot.go\<close>)\<close>

definition text_line :: "string list \<Rightarrow> string" where
  "text_line ws = Join ws '' '' @ [byte 10]"

definition owner_id :: "TopoNode list \<Rightarrow> int \<Rightarrow> string" where
  "owner_id ns idx = (if 0 \<le> idx \<and> idx < int (length ns) then NID (ns ! nat idx) else ''-'')"

definition all_slots :: "int list" where
  "all_slots = [0..NumSlots - 1]"

definition MarshalSnapshot :: "Snapshot \<Rightarrow> TopoNode list \<Rightarrow> bytes" where
  "MarshalSnapshot snap ns =
     text_line [''epoch'', FormatUint (snEpoch snap)]
     @ concat (map (\<lambda>s. text_line [''owner'', FormatInt s, owner_id ns (snOwner snap s)]) all_slots)
     @ concat (map (\<lambda>(s, i). text_line [''migrating'', FormatInt s, i]) (snMigrating snap))
     @ concat (map (\<lambda>(s, i). text_line [''importing'', FormatInt s, i]) (snImporting snap))"

text \<open>\<^verbatim>\<open>bufio.ScanLines\<close>: the lines without their terminator; a last line without one counts unless it
  is empty.\<close>

definition drop_cr :: "string \<Rightarrow> string" where
  "drop_cr l = (if l \<noteq> [] \<and> last l = byte 13 then butlast l else l)"

definition scan_lines :: "bytes \<Rightarrow> string list" where
  "scan_lines b = (let ls = Split b (byte 10) in if last ls = [] then butlast ls else ls)"

definition snap_line ::
  "TopoNode list \<Rightarrow> string \<Rightarrow> bool \<times> Snapshot \<Rightarrow> (cluster_error, bool \<times> Snapshot) res" where
  "snap_line ns line st =
     (case st of (seen, snap) \<Rightarrow>
      if 1024 * 1024 \<le> length line then Err LineTooLong
      else case Fields (drop_cr line) of
        [] \<Rightarrow> Ok st
      | f # fs \<Rightarrow>
          if f = ''epoch'' then
            (case fs of
               [x] \<Rightarrow> (case ParseUint x of None \<Rightarrow> Err (BadEpoch x)
                      | Some n \<Rightarrow> Ok (True, snap\<lparr> snEpoch := n \<rparr>))
             | _ \<Rightarrow> Err BadEpochLine)
          else if f = ''owner'' \<or> f = ''migrating'' \<or> f = ''importing'' then
            (case fs of
               [x, i] \<Rightarrow>
                 (case ParseInt x of
                    None \<Rightarrow> Err (BadSlot x)
                  | Some slot \<Rightarrow>
                      if slot < 0 \<or> NumSlots \<le> slot then Err (BadSlot x)
                      else if f = ''owner'' then
                        (if i = ''-'' then Ok (seen, snap\<lparr> snOwner := (snOwner snap)(slot := -1) \<rparr>)
                         else case map_of (gomap_of (map (\<lambda>(k, n). (NID n, k)) (enumerate 0 ns))) i of
                           None \<Rightarrow> Err (UnknownNode i)
                         | Some idx \<Rightarrow> Ok (seen, snap\<lparr> snOwner := (snOwner snap)(slot := int idx) \<rparr>))
                      else if f = ''migrating'' then
                        Ok (seen, snap\<lparr> snMigrating := AList.update slot i (snMigrating snap) \<rparr>)
                      else Ok (seen, snap\<lparr> snImporting := AList.update slot i (snImporting snap) \<rparr>))
             | _ \<Rightarrow> Err (BadLine f))
          else Err (BadLine line))"

fun snap_lines ::
  "TopoNode list \<Rightarrow> string list \<Rightarrow> bool \<times> Snapshot \<Rightarrow> (cluster_error, bool \<times> Snapshot) res" where
  "snap_lines ns [] st = Ok st"
| "snap_lines ns (l # ls) st = bind_res (snap_line ns l st) (snap_lines ns ls)"

definition UnmarshalSnapshot :: "bytes \<Rightarrow> TopoNode list \<Rightarrow> (cluster_error, Snapshot) res" where
  "UnmarshalSnapshot data ns =
     bind_res (snap_lines ns (scan_lines data)
       (False, \<lparr> snOwner = (\<lambda>_. -1), snMigrating = [], snImporting = [], snEpoch = 0 \<rparr>))
       (\<lambda>(seen, snap). if seen then Ok snap else Err MissingEpoch)"

subsection \<open>A snapshot survives its text form\<close>

lemma split_by_lines:
  assumes "list_all (\<lambda>l. c \<notin> set l) ls"
  shows "split_by (\<lambda>x. x = c) (concat (map (\<lambda>l. l @ [c]) ls)) = ls @ [[]]"
  using assms
proof (induction ls)
  case (Cons l ls)
  have "list_all (\<lambda>x. x \<noteq> c) l" using Cons.prems by (auto simp: list_all_iff)
  with Cons split_by_append [of "\<lambda>x. x = c" l c] show ?case by simp
qed simp

lemma scan_lines_concat:
  "list_all (\<lambda>l. byte 10 \<notin> set l) ls \<Longrightarrow> scan_lines (concat (map (\<lambda>l. l @ [byte 10]) ls)) = ls"
  by (simp add: scan_lines_def Split_def split_by_lines Let_def)

lemma is_space_ctl [simp]: "is_space (byte 10)" "is_space (byte 13)"
  by (simp_all add: is_space_def)

lemma Join_tokens_chars:
  assumes "list_all is_token ws" and "is_space c" and "c \<noteq> CHR '' ''"
  shows "c \<notin> set (Join ws '' '')"
  using assms by (induction ws "'' ''" rule: Join.induct) (auto dest: token_char)

lemma drop_cr_tokens: "list_all is_token ws \<Longrightarrow> drop_cr (Join ws '' '') = Join ws '' ''"
proof -
  assume t: "list_all is_token ws"
  have "byte 13 \<noteq> CHR '' ''" by (simp add: byte_char_iff ord_def)
  then have "byte 13 \<notin> set (Join ws '' '')" using Join_tokens_chars [OF t] by simp
  then have "\<not> (Join ws '' '' \<noteq> [] \<and> last (Join ws '' '') = byte 13)" using last_in_set by metis
  then show ?thesis unfolding drop_cr_def by auto
qed

lemma FormatInt_token [simp]: "is_token (FormatInt i)"
proof (rule is_token_ascii)
  have m: "ord CHR ''-'' = 45" by (simp add: ord_def)
  have "is_token (FormatUint n) \<and> list_all is_digit (FormatUint n)" for n using FormatUint_digits by simp
  then show "FormatInt i \<noteq> []" "list_all (\<lambda>c. ord c < 128 \<and> \<not> is_space c) (FormatInt i)"
    using is_digit_not_space is_digit_ascii m by (auto simp: FormatInt_def list_all_iff is_space_def is_token_def)
qed

lemma text_words_token [simp]:
  "is_token ''epoch''" "is_token ''owner''" "is_token ''migrating''" "is_token ''importing''" "is_token ''-''"
  by code_simp+

text \<open>A node list and a snapshot that the text can carry.\<close>

definition short_line :: "string list \<Rightarrow> bool" where
  "short_line ws \<longleftrightarrow> length (Join ws '' '') < 1024 * 1024"

definition nodes_ok :: "TopoNode list \<Rightarrow> bool" where
  "nodes_ok ns \<longleftrightarrow> distinct (map NID ns) \<and> list_all (\<lambda>n. is_token (NID n) \<and> NID n \<noteq> ''-'' \<and> length (NID n) < 1000000) ns"

definition moves_ok :: "(int \<times> string) list \<Rightarrow> bool" where
  "moves_ok m \<longleftrightarrow> gomap m \<and> list_all (\<lambda>(s, i). slot_ok s \<and> is_token i \<and> length i < 1000000) m"

definition snap_ok :: "TopoNode list \<Rightarrow> Snapshot \<Rightarrow> bool" where
  "snap_ok ns snap \<longleftrightarrow> snEpoch snap < 2 ^ 64 \<and> moves_ok (snMigrating snap) \<and> moves_ok (snImporting snap)
     \<and> (\<forall>s. if slot_ok s then -1 \<le> snOwner snap s \<and> snOwner snap s < int (length ns) else snOwner snap s = -1)"

lemma map_of_ids:
  assumes "nodes_ok ns" and "k < length ns"
  shows "map_of (gomap_of (map (\<lambda>(k, n). (NID n, k)) (enumerate 0 ns))) (NID (ns ! k)) = Some k"
proof -
  let ?ps = "map (\<lambda>(k, n). (NID n, k)) (enumerate 0 ns)"
  have keys: "map fst ?ps = map NID ns"
    by (rule nth_equalityI) (simp_all add: nth_enumerate_eq)
  then have d: "distinct (map fst ?ps)" using assms(1) by (simp add: nodes_ok_def)
  moreover have "(NID (ns ! k), k) \<in> set ?ps"
    using assms(2) by (auto simp: in_set_enumerate_eq image_iff intro!: bexI [of _ "(k, ns ! k)"])
  ultimately show ?thesis by (simp add: map_of_gomap_of)
qed

lemma slot_line_short:
  assumes "slot_ok s" and "length w \<le> 9" and "length i < 1000000"
  shows "short_line [w, FormatInt s, i]"
proof -
  have "nat s < 10 ^ 5" using assms(1) by (auto simp: slot_ok_def NumSlots_def nat_less_iff)
  then have "length (FormatInt s) \<le> 5"
    using FormatUint_length [of "nat s" 5] assms(1) by (simp add: FormatInt_def slot_ok_def)
  with assms show ?thesis by (simp add: short_line_def)
qed

lemma snap_line_tokens:
  assumes "list_all is_token ws" and "short_line ws"
  shows "Fields (drop_cr (Join ws '' '')) = ws" and "\<not> 1024 * 1024 \<le> length (Join ws '' '')"
  using assms by (simp_all add: drop_cr_tokens Fields_Join short_line_def)

lemma slot_ok_Parse: "slot_ok s \<Longrightarrow> ParseInt (FormatInt s) = Some s"
  by (simp add: slot_ok_def NumSlots_def int64_range_def)

lemma owner_line:
  assumes n: "nodes_ok ns" and s: "slot_ok s" and oo: "-1 \<le> idx" "idx < int (length ns)"
  shows "snap_line ns (Join [''owner'', FormatInt s, owner_id ns idx] '' '') (seen, snap)
    = Ok (seen, snap\<lparr> snOwner := (snOwner snap)(s := idx) \<rparr>)"
proof -
  have i: "is_token (owner_id ns idx)" "length (owner_id ns idx) < 1000000"
    using n oo by (auto simp: owner_id_def nodes_ok_def list_all_iff)
  have t: "list_all is_token [''owner'', FormatInt s, owner_id ns idx]" using i by simp
  have sh: "short_line [''owner'', FormatInt s, owner_id ns idx]"
    using s i(2) by (intro slot_line_short) simp_all
  have sr: "\<not> (s < 0 \<or> NumSlots \<le> s)" using s by (auto simp: slot_ok_def)
  show ?thesis
  proof (cases "idx = -1")
    case True
    then show ?thesis using snap_line_tokens [OF t sh] slot_ok_Parse [OF s] sr
      by (simp add: snap_line_def owner_id_def)
  next
    case False
    with oo(1) have "0 \<le> idx" by simp
    then obtain k where "idx = int k" by (rule nonneg_int_cases)
    with oo(2) have k: "idx = int k" "k < length ns" by simp_all
    have "owner_id ns idx \<noteq> ''-''" "owner_id ns idx = NID (ns ! k)"
      using k n by (auto simp: owner_id_def nodes_ok_def list_all_iff)
    then show ?thesis using snap_line_tokens [OF t sh] slot_ok_Parse [OF s] sr map_of_ids [OF n k(2)] k
      by (simp add: snap_line_def)
  qed
qed

lemma move_line:
  assumes "slot_ok s" and "is_token i" and "length i < 1000000"
  shows "snap_line ns (Join [''migrating'', FormatInt s, i] '' '') (seen, snap)
      = Ok (seen, snap\<lparr> snMigrating := AList.update s i (snMigrating snap) \<rparr>)"
    and "snap_line ns (Join [''importing'', FormatInt s, i] '' '') (seen, snap)
      = Ok (seen, snap\<lparr> snImporting := AList.update s i (snImporting snap) \<rparr>)"
proof -
  have sr: "\<not> (s < 0 \<or> NumSlots \<le> s)" using assms(1) by (auto simp: slot_ok_def)
  have t: "list_all is_token [w, FormatInt s, i]" if "is_token w" for w using assms(2) that by simp
  have sh: "short_line [w, FormatInt s, i]" if "length w \<le> 9" for w
    using assms that by (intro slot_line_short) simp_all
  show "snap_line ns (Join [''migrating'', FormatInt s, i] '' '') (seen, snap)
      = Ok (seen, snap\<lparr> snMigrating := AList.update s i (snMigrating snap) \<rparr>)"
    using snap_line_tokens [OF t sh, of "''migrating''"] slot_ok_Parse [OF assms(1)] sr
    by (simp add: snap_line_def)
  show "snap_line ns (Join [''importing'', FormatInt s, i] '' '') (seen, snap)
      = Ok (seen, snap\<lparr> snImporting := AList.update s i (snImporting snap) \<rparr>)"
    using snap_line_tokens [OF t sh, of "''importing''"] slot_ok_Parse [OF assms(1)] sr
    by (simp add: snap_line_def)
qed

lemma epoch_line:
  assumes "n < 2 ^ 64"
  shows "snap_line ns (Join [''epoch'', FormatUint n] '' '') (seen, snap) = Ok (True, snap\<lparr> snEpoch := n \<rparr>)"
proof -
  have "n < 10 ^ 20" using assms by simp
  then have "length (FormatUint n) \<le> 20" by (rule FormatUint_length) simp
  then have "short_line [''epoch'', FormatUint n]" by (simp add: short_line_def)
  then show ?thesis using snap_line_tokens [of "[''epoch'', FormatUint n]"] assms
    by (simp add: snap_line_def)
qed

lemma snap_lines_append: "snap_lines ns (a @ b) st = bind_res (snap_lines ns a st) (snap_lines ns b)"
proof (induction a arbitrary: st)
  case (Cons l a)
  then show ?case by (cases "snap_line ns l st") simp_all
qed simp

lemma owner_lines:
  assumes "nodes_ok ns" and "list_all (\<lambda>s. slot_ok s \<and> -1 \<le> f s \<and> f s < int (length ns)) ss"
  shows "snap_lines ns (map (\<lambda>s. Join [''owner'', FormatInt s, owner_id ns (f s)] '' '') ss) (seen, snap)
    = Ok (seen, snap\<lparr> snOwner := (\<lambda>s. if s \<in> set ss then f s else snOwner snap s) \<rparr>)"
  using assms(2)
proof (induction ss arbitrary: snap)
  case (Cons s ss)
  then show ?case
    using owner_line [OF assms(1), of s "f s" seen snap] by (auto simp: fun_eq_iff simp del: Join.simps intro!: arg_cong [where f = "\<lambda>g. snap\<lparr> snOwner := g \<rparr>"])
qed simp

lemma move_lines:
  assumes "list_all (\<lambda>(s, i). slot_ok s \<and> is_token i \<and> length i < 1000000) m"
  shows "snap_lines ns (map (\<lambda>(s, i). Join [''migrating'', FormatInt s, i] '' '') m) (seen, snap)
      = Ok (seen, snap\<lparr> snMigrating := fold (\<lambda>(s, i). AList.update s i) m (snMigrating snap) \<rparr>)"
    and "snap_lines ns (map (\<lambda>(s, i). Join [''importing'', FormatInt s, i] '' '') m) (seen, snap)
      = Ok (seen, snap\<lparr> snImporting := fold (\<lambda>(s, i). AList.update s i) m (snImporting snap) \<rparr>)"
  using assms by (induction m arbitrary: snap) (auto simp: move_line simp del: Join.simps)

lemma fold_update_fresh:
  "distinct (map fst (a @ m)) \<Longrightarrow> fold (\<lambda>(s, i). AList.update s i) m a = a @ m"
proof (induction m arbitrary: a)
  case (Cons p m)
  obtain s i where p: "p = (s, i)" by (cases p)
  have "AList.update s i a = a @ [(s, i)]" if "s \<notin> fst ` set a" for a :: "('a \<times> 'b) list"
    using that by (induction a) auto
  with Cons p show ?case by simp
qed simp

lemma set_all_slots: "s \<in> set all_slots \<longleftrightarrow> slot_ok s"
  by (auto simp: all_slots_def slot_ok_def)

lemma UnmarshalSnapshot_MarshalSnapshot:
  assumes n: "nodes_ok ns" and s: "snap_ok ns snap"
  shows "UnmarshalSnapshot (MarshalSnapshot snap ns) ns = Ok snap"
proof -
  let ?o = "map (\<lambda>s. Join [''owner'', FormatInt s, owner_id ns (snOwner snap s)] '' '') all_slots"
  let ?m = "map (\<lambda>(s, i). Join [''migrating'', FormatInt s, i] '' '') (snMigrating snap)"
  let ?i = "map (\<lambda>(s, i). Join [''importing'', FormatInt s, i] '' '') (snImporting snap)"
  let ?ls = "Join [''epoch'', FormatUint (snEpoch snap)] '' '' # ?o @ ?m @ ?i"
  have mar: "MarshalSnapshot snap ns = concat (map (\<lambda>l. l @ [byte 10]) ?ls)"
    unfolding MarshalSnapshot_def text_line_def by (simp add: comp_def case_prod_unfold del: Join.simps)
  have own: "list_all (\<lambda>x. slot_ok x \<and> -1 \<le> snOwner snap x \<and> snOwner snap x < int (length ns)) all_slots"
    using s by (auto simp: list_all_iff set_all_slots snap_ok_def split: if_splits)
  have lf: "byte 10 \<notin> set (Join ws '' '')" if "list_all is_token ws" for ws
    using Join_tokens_chars [OF that, of "byte 10"] by (simp add: byte_char_iff ord_def)
  have lf': "byte 10 \<notin> set (Join [w, x, y] '' '')" "byte 10 \<notin> set (Join [w, x] '' '')"
    if "is_token w" "is_token x" "is_token y" for w x y
    using that lf by (simp_all del: Join.simps)
  have tok: "is_token (owner_id ns idx)" for idx
    using n by (auto simp: owner_id_def nodes_ok_def list_all_iff)
  have "list_all (\<lambda>l. byte 10 \<notin> set l) ?ls"
    using s lf'(2) [of "''epoch''" "FormatUint (snEpoch snap)" "''-''"]
    by (auto simp: list_all_iff snap_ok_def moves_ok_def tok lf'(1) simp del: Join.simps)
  then have sc: "scan_lines (MarshalSnapshot snap ns) = ?ls" unfolding mar by (rule scan_lines_concat)
  have d: "fold (\<lambda>(s, i). AList.update s i) (snMigrating snap) [] = snMigrating snap"
    "fold (\<lambda>(s, i). AList.update s i) (snImporting snap) [] = snImporting snap"
    using s fold_update_fresh [of "[]" "snMigrating snap"] fold_update_fresh [of "[]" "snImporting snap"]
    by (simp_all add: snap_ok_def moves_ok_def gomap_def)
  have f: "(\<lambda>x. if x \<in> set all_slots then snOwner snap x else -1) = snOwner snap"
    using s by (auto simp: fun_eq_iff set_all_slots snap_ok_def split: if_splits)
  have "snap_lines ns ?ls (False, \<lparr> snOwner = (\<lambda>_. -1), snMigrating = [], snImporting = [], snEpoch = 0 \<rparr>)
      = Ok (True, snap)"
    using s d f unfolding snap_ok_def moves_ok_def
    by (simp add: epoch_line snap_lines_append owner_lines [OF n own] move_lines del: Join.simps cong: if_cong)
  then show ?thesis by (simp only: UnmarshalSnapshot_def sc bind_res.simps prod.case if_True)
qed

subsection \<open>The topology invariant\<close>

text \<open>\<open>covers t i s\<close>: the configured ranges of node \<open>i\<close> contain slot \<open>s\<close>.\<close>

definition covers :: "Topology \<Rightarrow> nat \<Rightarrow> int \<Rightarrow> bool" where
  "covers t i s \<longleftrightarrow> (\<exists>r \<in> set (Ranges (nodes t ! i)). fst r \<le> s \<and> s \<le> snd r)"

definition owners_ok :: "Topology \<Rightarrow> bool" where
  "owners_ok t \<longleftrightarrow> (\<forall>s. if slot_ok s then (owned t s \<longleftrightarrow> 0 \<le> owner t s) \<and> -1 \<le> owner t s \<and> owner t s < int (length (nodes t))
     else owner t s = -1)"

definition topo_ok :: "Topology \<Rightarrow> bool" where
  "topo_ok t \<longleftrightarrow> Enabled t \<and> 0 \<le> self t \<and> self t < int (length (nodes t)) \<and> owners_ok t
     \<and> epoch t < 2 ^ 64
     \<and> gomap (migrating t) \<and> gomap (importing t)
     \<and> (\<forall>(s, i) \<in> set (migrating t). slot_ok s \<and> owner t s = self t \<and> i \<in> NID ` set (nodes t))
     \<and> (\<forall>(s, i) \<in> set (importing t). slot_ok s \<and> owner t s \<noteq> self t \<and> i \<in> NID ` set (nodes t))"

lemma range_slots_mem: "s \<in> set (range_slots r) \<longleftrightarrow> slot_ok s \<and> fst r \<le> s \<and> s \<le> snd r"
  by (auto simp: range_slots_def slot_ok_def)

lemma claim_slots_Ok:
  assumes "claim_slots idx ss t = Ok t'" "0 \<le> idx"
  shows "t' = t\<lparr> owned := (\<lambda>s. s \<in> set ss \<or> owned t s), owner := (\<lambda>s. if s \<in> set ss then idx else owner t s) \<rparr>
     \<and> (\<forall>s \<in> set ss. owner t s < 0)"
  using assms
proof (induction ss arbitrary: t)
  case (Cons s ss)
  then have s: "owner t s < 0" by (simp split: if_splits)
  let ?t = "t\<lparr> owned := (owned t)(s := True), owner := (owner t)(s := idx) \<rparr>"
  from Cons.prems s have C: "claim_slots idx ss ?t = Ok t'" by simp
  note IH = Cons.IH [OF C Cons.prems(2)]
  from IH have "\<forall>x \<in> set ss. owner ?t x < 0" ..
  with Cons.prems(2) have "s \<notin> set ss" and rest: "\<forall>x \<in> set ss. owner t x < 0"
    by (auto split: if_splits)
  moreover have "t' = ?t\<lparr> owned := (\<lambda>x. x \<in> set ss \<or> owned ?t x), owner := (\<lambda>x. if x \<in> set ss then idx else owner ?t x) \<rparr>"
    using IH ..
  ultimately show ?case using s by (auto intro!: Topology.equality simp: fun_eq_iff)
qed auto

definition build_inv :: "Topology \<Rightarrow> bool" where
  "build_inv t \<longleftrightarrow> Enabled t \<and> owners_ok t \<and> migrating t = [] \<and> importing t = [] \<and> epoch t = 0
     \<and> (\<forall>s i. slot_ok s \<longrightarrow> i < length (nodes t) \<longrightarrow> owner t s = int i \<longleftrightarrow> covers t i s)"

lemma build_step:
  assumes "build_inv t"
    and "claim_slots (int (length (nodes t))) (concat (map range_slots (Ranges n)))
      (t\<lparr> nodes := nodes t @ [n] \<rparr>) = Ok t'"
  shows "build_inv t' \<and> nodes t' = nodes t @ [n]"
proof -
  let ?k = "length (nodes t)" and ?ss = "set (concat (map range_slots (Ranges n)))"
  note C = claim_slots_Ok [OF assms(2)]
  have t': "t' = t\<lparr> nodes := nodes t @ [n], owned := (\<lambda>s. s \<in> ?ss \<or> owned t s),
      owner := (\<lambda>s. if s \<in> ?ss then int ?k else owner t s) \<rparr>"
    and fresh: "\<And>s. s \<in> ?ss \<Longrightarrow> owner t s < 0"
    using C by (auto cong: if_cong)
  have ss: "s \<in> ?ss \<longleftrightarrow> slot_ok s \<and> covers t' ?k s" for s
    by (auto simp: t' covers_def range_slots_mem)
  have old: "if slot_ok s then (owned t s \<longleftrightarrow> 0 \<le> owner t s) \<and> -1 \<le> owner t s \<and> owner t s < int ?k
      else owner t s = -1" for s
    using assms(1) by (simp add: build_inv_def owners_ok_def)
  have O: "owners_ok t'"
    unfolding owners_ok_def
  proof
    fix s
    show "if slot_ok s then (owned t' s \<longleftrightarrow> 0 \<le> owner t' s) \<and> -1 \<le> owner t' s \<and> owner t' s < int (length (nodes t'))
        else owner t' s = -1"
      using old [of s] ss [of s] by (cases "s \<in> ?ss") (simp_all add: t' split: if_splits)
  qed
  have "owner t' s = int i \<longleftrightarrow> covers t' i s" if "slot_ok s" "i < length (nodes t')" for s i
  proof (cases "i = ?k")
    case True
    then show ?thesis using that ss [of s] old [of s] by (simp add: t')
  next
    case False
    then have i: "i < ?k" using that by (simp add: t')
    then have "covers t' i s \<longleftrightarrow> covers t i s" by (simp add: covers_def t' nth_append)
    moreover have "owner t s = int i \<longleftrightarrow> covers t i s"
      using assms(1) that i by (simp add: build_inv_def)
    ultimately show ?thesis using fresh [of s] i by (cases "s \<in> ?ss") (simp_all add: t')
  qed
  with O assms(1) show ?thesis by (simp add: build_inv_def t')
qed

lemma build_loop_inv:
  assumes "build_loop h p specs sf t = Ok (sf', t')" "build_inv t" "sf < int (length (nodes t))"
  shows "build_inv t' \<and> sf' < int (length (nodes t')) \<and> length (nodes t') = length (nodes t) + length specs"
  using assms
proof (induction specs arbitrary: sf t)
  case (Cons s specs)
  from Cons.prems(1) obtain n sf1 t1 where
      claim: "claim_slots (int (length (nodes t))) (concat (map range_slots (Ranges n))) (t\<lparr> nodes := nodes t @ [n] \<rparr>) = Ok t1"
    and loop: "build_loop h p specs sf1 t1 = Ok (sf', t')"
    and sf1: "sf1 = sf \<or> sf1 = int (length (nodes t))"
    by (auto simp: Let_def split: if_splits option.splits prod.splits) (metis TopoNode.select_convs(3))+
  have B: "build_inv t1 \<and> nodes t1 = nodes t @ [n]" by (rule build_step [OF Cons.prems(2) claim])
  with sf1 Cons.prems(3) have "sf1 < int (length (nodes t1))" by auto
  from Cons.IH [OF loop _ this] B show ?case by simp
qed simp

lemma Build_ok:
  assumes "Build a specs = Ok t"
  shows "topo_ok t \<and> build_inv t"
proof -
  let ?t0 = "zero_topology\<lparr> Enabled := True, owner := (\<lambda>_. -1) \<rparr>"
  from assms obtain h p specs' sf t' where
      L: "build_loop h p specs' (-1) ?t0 = Ok (sf, t')" and t: "t = t'\<lparr> self := sf \<rparr>" and sf: "0 \<le> sf"
    by (auto simp: Build_def Let_def simp del: build_loop.simps split: option.splits if_splits)
  have "build_inv ?t0" by (simp add: build_inv_def owners_ok_def zero_topology_def)
  from build_loop_inv [OF L this] have "build_inv t' \<and> sf < int (length (nodes t'))"
    by (simp add: zero_topology_def)
  with t sf show ?thesis
    by (simp add: topo_ok_def build_inv_def owners_ok_def covers_def gomap_def)
qed

lemma owners_ok_cong:
  "owned t' = owned t \<Longrightarrow> owner t' = owner t \<Longrightarrow> nodes t' = nodes t \<Longrightarrow> owners_ok t' = owners_ok t"
  by (simp add: owners_ok_def)

lemma node_index_Some: "node_index i ns = Some k \<Longrightarrow> k < length ns \<and> NID (ns ! k) = i"
  by (induction ns arbitrary: k) (auto split: if_splits)

lemma AddrOf_known: "AddrOf t i \<noteq> [] \<Longrightarrow> i \<in> NID ` set (nodes t)"
  by (auto simp: AddrOf_def dest!: node_index_Some split: option.splits)

lemma set_update_cases:
  assumes "x \<in> set (AList.update k v m)" "gomap m"
  shows "x = (k, v) \<or> (x \<in> set m \<and> fst x \<noteq> k)"
proof -
  obtain a b where x: "x = (a, b)" by (cases x)
  have "map_of (AList.update k v m) a = Some b"
    using assms x gomap_update [OF assms(2)] by (simp add: gomap_def)
  then show ?thesis
    using x by (cases "a = k") (auto simp: update_conv dest: map_of_SomeD)
qed

lemma set_delete_cases: "x \<in> set (AList.delete k m) \<longleftrightarrow> x \<in> set m \<and> fst x \<noteq> k"
  by (auto simp: AList.delete_eq)

lemma SetMigrating_ok:
  assumes "topo_ok t" "i \<in> NID ` set (nodes t)"
  shows "topo_ok (snd (SetMigrating s i t))"
proof (cases "fst (SetMigrating s i t) = Ok () \<and> map_of (migrating t) s \<noteq> Some i")
  case True
  then have S: "slot_ok s" "owner t s = self t"
    by (auto simp: SetMigrating_def slot_ok_def split: if_splits)
  have t': "snd (SetMigrating s i t) = t\<lparr> migrating := AList.update s i (migrating t), epoch := (epoch t + 1) mod 2 ^ 64 \<rparr>"
    using S True by (auto simp: SetMigrating_def slot_ok_def)
  show ?thesis unfolding t' topo_ok_def
    using assms S by (auto simp: topo_ok_def gomap_update owners_ok_def dest!: set_update_cases)
next
  case False
  then have "snd (SetMigrating s i t) = t" by (auto simp: SetMigrating_def split: if_splits)
  with assms(1) show ?thesis by simp
qed

lemma SetImporting_ok:
  assumes "topo_ok t" "i \<in> NID ` set (nodes t)"
  shows "topo_ok (snd (SetImporting s i t))"
proof (cases "fst (SetImporting s i t) = Ok () \<and> map_of (importing t) s \<noteq> Some i")
  case True
  then have S: "slot_ok s" "owner t s \<noteq> self t"
    by (auto simp: SetImporting_def slot_ok_def split: if_splits)
  have t': "snd (SetImporting s i t) = t\<lparr> importing := AList.update s i (importing t), epoch := (epoch t + 1) mod 2 ^ 64 \<rparr>"
    using S True by (auto simp: SetImporting_def slot_ok_def)
  show ?thesis unfolding t' topo_ok_def
    using assms S by (auto simp: topo_ok_def gomap_update owners_ok_def dest!: set_update_cases)
next
  case False
  then have "snd (SetImporting s i t) = t" by (auto simp: SetImporting_def split: if_splits)
  with assms(1) show ?thesis by simp
qed

lemma SetStable_ok: "topo_ok t \<Longrightarrow> topo_ok (SetStable s t)"
  by (auto simp: topo_ok_def SetStable_def owners_ok_def gomap_delete set_delete_cases)

lemma SetNode_ok:
  assumes "topo_ok t" shows "topo_ok (snd (SetNode s i t))"
proof (cases "slot_ok s \<and> node_index i (nodes t) \<noteq> None")
  case True
  then obtain k where k: "node_index i (nodes t) = Some k" by auto
  then have "k < length (nodes t)" by (simp add: node_index_Some)
  with True k assms show ?thesis
    by (auto simp: SetNode_def slot_ok_def topo_ok_def owners_ok_def gomap_delete set_delete_cases)
next
  case False
  then have "snd (SetNode s i t) = t" by (auto simp: SetNode_def slot_ok_def split: option.splits)
  with assms show ?thesis by simp
qed

lemmas topo_ops_ok = SetMigrating_ok SetImporting_ok SetStable_ok SetNode_ok

lemma topo_ok_snap_ok:
  assumes "topo_ok t" "nodes_ok (nodes t)"
  shows "snap_ok (nodes t) (TopoSnapshot t)"
proof -
  have "is_token i \<and> length i < 1000000" if "i \<in> NID ` set (nodes t)" for i
    using assms(2) that by (auto simp: nodes_ok_def list_all_iff)
  with assms(1) show ?thesis
    by (fastforce simp: snap_ok_def TopoSnapshot_def topo_ok_def moves_ok_def owners_ok_def list_all_iff)
qed

subsection \<open>The properties\<close>

text \<open>C16. \<^verbatim>\<open>Build\<close> accepts only configurations that give each slot at most one node. The topology is
  well formed, and for every slot the owner is node \<open>i\<close> exactly when the configured ranges of node
  \<open>i\<close> contain the slot.\<close>

theorem build_partition:
  assumes "Build a specs = Ok t"
  shows "topo_ok t \<and> (\<forall>s i. slot_ok s \<longrightarrow> i < length (nodes t) \<longrightarrow> owner t s = int i \<longleftrightarrow> covers t i s)
    \<and> (\<forall>s i j. slot_ok s \<longrightarrow> i < length (nodes t) \<longrightarrow> j < length (nodes t) \<longrightarrow> covers t i s \<longrightarrow> covers t j s \<longrightarrow> i = j)"
proof -
  from Build_ok [OF assms] have "topo_ok t"
    and own: "\<And>s i. slot_ok s \<Longrightarrow> i < length (nodes t) \<Longrightarrow> owner t s = int i \<longleftrightarrow> covers t i s"
    by (auto simp: build_inv_def)
  moreover have "i = j" if "slot_ok s" "i < length (nodes t)" "j < length (nodes t)" "covers t i s" "covers t j s" for s i j
    using own [OF that(1,2)] own [OF that(1,3)] that by simp
  ultimately show ?thesis by blast
qed

theorem build_partition_witness:
  "\<exists>t. Build ''a:1'' [\<lparr> NID = ''aa'', Addr = ''a:1'', Ranges = [(0, 1)] \<rparr>, \<lparr> NID = ''bb'', Addr = ''b:2'', Ranges = [(2, 2)] \<rparr>] = Ok t
     \<and> topo_ok t \<and> (owner t 1 = int 0 \<longleftrightarrow> covers t 0 1)"
proof -
  have split: "splitAddr ''a:1'' = Some (''a'', ''1'')" "splitAddr ''b:2'' = Some (''b'', ''2'')" by code_simp+
  have slots: "range_slots (0, 1) = [0, 1]" "range_slots (2, 2) = [2]"
    by (simp_all add: range_slots_def NumSlots_def upto.simps)
  obtain t where t: "Build ''a:1'' [\<lparr> NID = ''aa'', Addr = ''a:1'', Ranges = [(0, 1)] \<rparr>, \<lparr> NID = ''bb'', Addr = ''b:2'', Ranges = [(2, 2)] \<rparr>] = Ok t"
      "0 < length (nodes t)"
    by (simp add: Build_def split slots Let_def zero_topology_def)
  moreover have "slot_ok 1" by (simp add: slot_ok_def NumSlots_def)
  ultimately show ?thesis using build_partition [OF t(1)] by blast
qed


end
