(* ===== verification/Command.thy ===== *)
theory Command
  imports Resp Storage "HOL-Library.State_Monad"
begin

text \<open>
  The frame of the command handlers of \<^verbatim>\<open>internal/commands\<close>. A handler is a computation in the state
  monad over a \<open>world\<close>: the store behind the \<^verbatim>\<open>KV\<close> interface, the calls made to \<^verbatim>\<open>Notify\<close>, and the counter
  of expired keys. It takes the store interface, the time (the clock is read once per command), and
  the arguments; its result is the reply, or \<^const>\<open>Panic\<close>. An early \<^verbatim>\<open>return\<close> of the source is the
  end of a branch.

  Every handler is written for an arbitrary store interface. The simulation \<open>sim\<close> relates its run on
  a store that satisfies the laws of \<^verbatim>\<open>kv_store\<close> to its run on a plain map, so that the functional
  theorems are proved once, on maps.
\<close>

subsection \<open>The world\<close>

record 's world =
  store :: 's
  events :: "(string \<times> string \<times> string) list"
  expiredN :: nat

type_synonym reply = "(unit, RVal) res"
type_synonym 's handler = "('s world, reply) state"

abbreviation answer :: "RVal \<Rightarrow> 's handler" where
  "answer v \<equiv> State_Monad.return (Ok v)"

abbreviation fail :: "string \<Rightarrow> 's handler" where
  "fail msg \<equiv> answer (RError msg)"

abbreviation crash :: "'s handler" where
  "crash \<equiv> State_Monad.return Panic"

definition kget :: "'s kv \<Rightarrow> bytes \<Rightarrow> ('s world, (storage_error, bytes) res) state" where
  "kget K k = State (\<lambda>w. case kvGet K k (store w) of (r, s) \<Rightarrow> (r, w\<lparr> store := s \<rparr>))"

definition kset :: "'s kv \<Rightarrow> bytes \<Rightarrow> bytes \<Rightarrow> ('s world, (storage_error, unit) res) state" where
  "kset K k v = State (\<lambda>w. case kvSet K k v (store w) of (r, s) \<Rightarrow> (r, w\<lparr> store := s \<rparr>))"

definition kdel :: "'s kv \<Rightarrow> bytes \<Rightarrow> ('s world, (storage_error, unit) res) state" where
  "kdel K k = State (\<lambda>w. case kvDelete K k (store w) of (r, s) \<Rightarrow> (r, w\<lparr> store := s \<rparr>))"

definition kbatch :: "'s kv \<Rightarrow> BatchOp list \<Rightarrow> ('s world, (storage_error, unit) res) state" where
  "kbatch K bs = State (\<lambda>w. case kvBatch K bs (store w) of (r, s) \<Rightarrow> (r, w\<lparr> store := s \<rparr>))"

definition kscan :: "'s kv \<Rightarrow> bytes \<Rightarrow> ('s world, (storage_error, bytes list) res) state" where
  "kscan K pre = State (\<lambda>w. (kvScan K pre (store w), w))"

definition notify :: "string \<Rightarrow> string \<Rightarrow> string \<Rightarrow> ('s world, unit) state" where
  "notify cls event key = State (\<lambda>w. ((), w\<lparr> events := events w @ [(cls, event, key)] \<rparr>))"

definition incExpired :: "('s world, unit) state" where
  "incExpired = State (\<lambda>w. ((), w\<lparr> expiredN := expiredN w + 1 \<rparr>))"

subsection \<open>Errors and arguments\<close>

text \<open>The errors a handler sees, and their texts.\<close>

datatype cmd_error = Stored storage_error | Data ds_error | Message string

definition isNotFound :: "cmd_error \<Rightarrow> bool" where
  "isNotFound e \<longleftrightarrow> e = Stored ErrNotFound"

fun ds_text :: "ds_error \<Rightarrow> string" where
  "ds_text (TruncatedEntry n) = ''datastruct: truncated entry '' @ FormatUint n @ '' bytes''"
| "ds_text (TruncatedPayload t) = ''datastruct: truncated '' @ t @ '' payload''"
| "ds_text (BadCount t) = ''datastruct: bad '' @ t @ '' count''"
| "ds_text (TruncatedElem t i) = ''datastruct: truncated '' @ t @ '' '' @ FormatUint i"
| "ds_text (DimMismatch d dim) = ''datastruct: vectorset dim mismatch '' @ FormatUint d @ '' != '' @ FormatInt dim"
| "ds_text (TruncatedVector t) = ''datastruct: truncated vectorset '' @ t"
| "ds_text (BadStream _) = ''datastruct: bad stream payload''"
| "ds_text NotValidFloat = ''ERR value is not a valid float''"

fun err_text :: "'s kv \<Rightarrow> cmd_error \<Rightarrow> string" where
  "err_text K (Stored e) = kvText K e"
| "err_text K (Data e) = ds_text e"
| "err_text K (Message m) = m"

definition errValue :: "'s kv \<Rightarrow> cmd_error \<Rightarrow> RVal" where
  "errValue K e = RError (err_text K e)"

definition bulk :: "bytes option \<Rightarrow> string" where
  "bulk b = (case b of None \<Rightarrow> [] | Some s \<Rightarrow> s)"

fun argString :: "RVal \<Rightarrow> string option" where
  "argString (BulkString b) = Some (bulk b)"
| "argString _ = None"

abbreviation NilBulk :: RVal where
  "NilBulk \<equiv> BulkString None"

definition wrongargs :: "string \<Rightarrow> string" where
  "wrongargs name = ''ERR wrong number of arguments for '' @ [CHR 0x27] @ name @ [CHR 0x27] @ '' command''"

definition notint :: string where
  "notint = ''ERR value is not an integer or out of range''"

definition wrongtype :: string where
  "wrongtype = ''WRONGTYPE Operation against a key holding the wrong kind of value''"

subsection \<open>The store as a map\<close>

definition map_kv :: "(storage_error \<Rightarrow> string) \<Rightarrow> (bytes \<rightharpoonup> bytes) kv" where
  "map_kv T = \<lparr> kvGet = (\<lambda>k m. ((case m k of None \<Rightarrow> Err ErrNotFound | Some v \<Rightarrow> Ok v), m)),
     kvSet = (\<lambda>k v m. (Ok (), m(k \<mapsto> v))), kvDelete = (\<lambda>k m. (Ok (), m(k := None))),
     kvScan = (\<lambda>pre m. Ok (sorted_list_of_set {k \<in> dom m. HasPrefix k pre})),
     kvBatch = (\<lambda>bs m. (Ok (), replay (map batch_op bs) m)), kvText = T \<rparr>"

lemma kvText_map_kv [simp]: "kvText (map_kv T) = T"
  by (simp add: map_kv_def)

lemma err_text_map_kv: "err_text (map_kv (kvText K)) e = err_text K e"
  by (cases e) simp_all

lemma errValue_map_kv [simp]: "errValue (map_kv (kvText K)) e = errValue K e"
  by (simp add: errValue_def err_text_map_kv)

named_theorems runs

lemma run_kget [runs]:
  "run_state (kget (map_kv T) k) w = ((case store w k of None \<Rightarrow> Err ErrNotFound | Some v \<Rightarrow> Ok v), w)"
  by (simp add: kget_def map_kv_def)

lemma run_kset [runs]: "run_state (kset (map_kv T) k v) w = (Ok (), w\<lparr> store := (store w)(k \<mapsto> v) \<rparr>)"
  by (simp add: kset_def map_kv_def)

lemma run_kdel [runs]: "run_state (kdel (map_kv T) k) w = (Ok (), w\<lparr> store := (store w)(k := None) \<rparr>)"
  by (simp add: kdel_def map_kv_def)

lemma run_kbatch [runs]:
  "run_state (kbatch (map_kv T) bs) w = (Ok (), w\<lparr> store := replay (map batch_op bs) (store w) \<rparr>)"
  by (simp add: kbatch_def map_kv_def)

lemma run_kscan [runs]:
  "run_state (kscan (map_kv T) pre) w = (Ok (sorted_list_of_set {k \<in> dom (store w). HasPrefix k pre}), w)"
  by (simp add: kscan_def map_kv_def)

lemma run_notify [runs]: "run_state (notify c e k) w = ((), w\<lparr> events := events w @ [(c, e, k)] \<rparr>)"
  by (simp add: notify_def)

lemma run_incExpired [runs]: "run_state incExpired w = ((), w\<lparr> expiredN := expiredN w + 1 \<rparr>)"
  by (simp add: incExpired_def)

interpretation mapped: kv_store "map_kv T" id "\<lambda>m. finite (dom m)"
proof (unfold_locales, goal_cases)
  case (4 s pre)
  then have "finite {k \<in> dom s. HasPrefix k pre}" by simp
  then show ?case by (simp add: map_kv_def)
next
  case (5 s bs r s')
  have "finite (dom (replay (map batch_op bs) s))"
    using 5(1) by (induction bs arbitrary: s) (auto simp: apply_batch_op)
  with 5(2) show ?case by (auto simp: map_kv_def)
qed (auto simp: map_kv_def)

subsection \<open>Simulation\<close>

definition absw :: "('s \<Rightarrow> bytes \<rightharpoonup> bytes) \<Rightarrow> 's world \<Rightarrow> (bytes \<rightharpoonup> bytes) world" where
  "absw view w = \<lparr> store = view (store w), events = events w, expiredN = expiredN w \<rparr>"

definition sim ::
  "('s \<Rightarrow> bytes \<rightharpoonup> bytes) \<Rightarrow> ('s \<Rightarrow> bool) \<Rightarrow> ('s world, 'a) state \<Rightarrow> ((bytes \<rightharpoonup> bytes) world, 'a) state \<Rightarrow> bool" where
  "sim view live m n \<longleftrightarrow> (\<forall>w. live (store w) \<longrightarrow>
     run_state n (absw view w) = (fst (run_state m w), absw view (snd (run_state m w)))
     \<and> live (store (snd (run_state m w))))"

lemma simD:
  assumes "sim view live m n" "live (store w)"
  shows "fst (run_state m w) = fst (run_state n (absw view w))"
    "view (store (snd (run_state m w))) = store (snd (run_state n (absw view w)))"
    "events (snd (run_state m w)) = events (snd (run_state n (absw view w)))"
    "expiredN (snd (run_state m w)) = expiredN (snd (run_state n (absw view w)))"
    "live (store (snd (run_state m w)))"
  using assms by (auto simp: sim_def absw_def)

lemma absw_simps [simp]:
  "store (absw view w) = view (store w)" "events (absw view w) = events w" "expiredN (absw view w) = expiredN w"
  by (simp_all add: absw_def)

named_theorems sim_intros

lemma sim_return [sim_intros]: "x = y \<Longrightarrow> sim view live (State_Monad.return x) (State_Monad.return y)"
  by (simp add: sim_def)

lemma sim_bind [sim_intros]:
  fixes m :: "('s world, 'a) state"
  assumes "sim view live m n" "\<And>x. sim view live (f x) (g x)"
  shows "sim view live (State_Monad.bind m f) (State_Monad.bind n g)"
  unfolding sim_def
proof (intro allI impI)
  fix w :: "'s world"
  assume live: "live (store w)"
  obtain a w1 where m: "run_state m w = (a, w1)" by (cases "run_state m w")
  with assms(1) live have n: "run_state n (absw view w) = (a, absw view w1)" and l1: "live (store w1)"
    by (auto simp: sim_def)
  from assms(2) [of a] l1 show "run_state (State_Monad.bind n g) (absw view w)
      = (fst (run_state (State_Monad.bind m f) w), absw view (snd (run_state (State_Monad.bind m f) w)))
      \<and> live (store (snd (run_state (State_Monad.bind m f) w)))"
    by (simp add: m n sim_def)
qed

lemma sim_if [sim_intros]:
  "(c \<Longrightarrow> sim view live a a') \<Longrightarrow> (\<not> c \<Longrightarrow> sim view live b b') \<Longrightarrow>
    sim view live (if c then a else b) (if c then a' else b')"
  by simp

lemma sim_let [sim_intros]: "(\<And>x. sim view live (f x) (g x)) \<Longrightarrow> sim view live (Let y f) (Let y g)"
  by simp

lemma sim_case_option [sim_intros]:
  "sim view live a a' \<Longrightarrow> (\<And>x. sim view live (f x) (f' x)) \<Longrightarrow> sim view live (case_option a f y) (case_option a' f' y)"
  by (cases y) simp_all

lemma sim_case_res [sim_intros]:
  "(\<And>x. sim view live (f x) (f' x)) \<Longrightarrow> (\<And>x. sim view live (g x) (g' x)) \<Longrightarrow> sim view live h h' \<Longrightarrow>
    sim view live (case_res f g h y) (case_res f' g' h' y)"
  by (cases y) simp_all

lemma sim_case_prod [sim_intros]:
  "(\<And>x z. sim view live (f x z) (f' x z)) \<Longrightarrow> sim view live (case_prod f y) (case_prod f' y)"
  by (cases y) simp_all

lemma sim_case_list [sim_intros]:
  "sim view live a a' \<Longrightarrow> (\<And>x xs. sim view live (f x xs) (f' x xs)) \<Longrightarrow> sim view live (case_list a f y) (case_list a' f' y)"
  by (cases y) simp_all

lemma sim_notify [sim_intros]: "sim view live (notify c e k) (notify c e k)"
  by (simp add: sim_def notify_def absw_def)

lemma sim_incExpired [sim_intros]: "sim view live incExpired incExpired"
  by (simp add: sim_def incExpired_def absw_def)

context kv_store
begin

abbreviation msim :: "('s world, 'a) state \<Rightarrow> ((bytes \<rightharpoonup> bytes) world, 'a) state \<Rightarrow> bool" where
  "msim \<equiv> sim view live"

abbreviation M :: "(bytes \<rightharpoonup> bytes) kv" where
  "M \<equiv> map_kv (kvText K)"

lemma sim_kget [sim_intros]: "msim (kget K k) (kget M k)"
  unfolding sim_def by (auto simp: kget_def map_kv_def absw_def case_prod_beta split: option.split)

lemma sim_kset [sim_intros]: "msim (kset K k v) (kset M k v)"
  unfolding sim_def by (simp add: kset_def map_kv_def absw_def case_prod_beta)

lemma sim_kdel [sim_intros]: "msim (kdel K k) (kdel M k)"
  unfolding sim_def by (simp add: kdel_def map_kv_def absw_def case_prod_beta)

lemma sim_kbatch [sim_intros]: "msim (kbatch K bs) (kbatch M bs)"
  unfolding sim_def by (simp add: kbatch_def map_kv_def absw_def case_prod_beta)

lemma scan_eq:
  assumes "live s"
  shows "kvScan K pre s = Ok (sorted_list_of_set {k \<in> dom (view s). HasPrefix k pre})"
proof -
  from kv_scan [OF assms, of pre] obtain ks where ks: "kvScan K pre s = Ok ks" "sorted ks" "distinct ks"
    "set ks = {k \<in> dom (view s). HasPrefix k pre}" by blast
  then have "sorted_list_of_set {k \<in> dom (view s). HasPrefix k pre} = ks"
    using sorted_list_of_set.idem_if_sorted_distinct [of ks] by simp
  with ks(1) show ?thesis by simp
qed

lemma sim_kscan [sim_intros]: "msim (kscan K pre) (kscan M pre)"
  unfolding sim_def by (simp add: kscan_def scan_eq map_kv_def absw_def)

end

end
