(* ===== verification/Routing.thy ===== *)
theory Routing
  imports Cluster Command
begin

text \<open>
  Command routing in cluster mode. \<^verbatim>\<open>internal/cluster/keys.go\<close> extracts the keys of a command;
  \<^verbatim>\<open>intercept\<close>, \<^verbatim>\<open>CheckExec\<close> and \<^verbatim>\<open>setslot\<close> of \<^verbatim>\<open>internal/commands/cluster.go\<close> redirect commands and move slots.
  A command is the list of its elements; a reply is an \<^typ>\<open>RVal\<close>. A slice expression out of range
  is \<^const>\<open>Panic\<close>.
\<close>

subsection \<open>The keys of a command (\<^verbatim>\<open>keys.go\<close>)\<close>

definition slice :: "int \<Rightarrow> int \<Rightarrow> 'a list \<Rightarrow> ('e, 'a list) res" where
  "slice lo hi xs =
     (if 0 \<le> lo \<and> lo \<le> hi \<and> hi \<le> int (length xs) then Ok (take (nat (hi - lo)) (drop (nat lo) xs)) else Panic)"

abbreviation mapr :: "('a \<Rightarrow> 'b) \<Rightarrow> ('e, 'a) res \<Rightarrow> ('e, 'b) res" where
  "mapr f r \<equiv> bind_res r (\<lambda>x. Ok (f x))"

definition allNonEmpty :: "string list \<Rightarrow> string list option" where
  "allNonEmpty args = (if args = [] \<or> [] \<in> set args then None else Some args)"

text \<open>The shared shape \<^verbatim>\<open>numkeys key...\<close> with \<^verbatim>\<open>numkeys\<close> at index \<open>pos\<close>: the test
  \<^verbatim>\<open>len(args) < pos+1+n\<close> is on wrapped 64-bit sums.\<close>

definition numKeys :: "nat \<Rightarrow> int \<Rightarrow> string list \<Rightarrow> (cluster_error, string list option) res" where
  "numKeys pos least args =
     (case ParseInt (args ! pos) of
        None \<Rightarrow> Ok None
      | Some n \<Rightarrow>
          if n < least \<or> int (length args) < wrap64 (int pos + 1 + n) then Ok None
          else mapr Some (slice (int pos + 1) (wrap64 (int pos + 1 + n)) args))"

definition evalKeys :: "string list \<Rightarrow> (cluster_error, string list option) res" where
  "evalKeys args =
     (if length args < 1 then Ok None
      else mapr (\<lambda>ks. Option.bind ks allNonEmpty) (numKeys 0 0 args))"

definition fcallKeys :: "string list \<Rightarrow> (cluster_error, string list option) res" where
  "fcallKeys args =
     (if length args < 2 then Ok None
      else case ParseInt (args ! 1) of
        None \<Rightarrow> Ok None
      | Some n \<Rightarrow>
          if n < 0 \<or> int (length args) - 2 < n then Ok None
          else if n = 0 then Ok None
          else mapr allNonEmpty (slice 2 (wrap64 (2 + n)) args))"

fun after_streams :: "string list \<Rightarrow> string list option" where
  "after_streams [] = None"
| "after_streams (a # as) = (if ToUpper a = ''STREAMS'' then Some as else after_streams as)"

definition xreadKeys :: "string list \<Rightarrow> string list option" where
  "xreadKeys args =
     (case after_streams args of
        None \<Rightarrow> None
      | Some rest \<Rightarrow>
          if rest = [] \<or> length rest mod 2 \<noteq> 0 then None
          else allNonEmpty (take (length rest div 2) rest))"

fun sort_store :: "string list \<Rightarrow> string list option" where
  "sort_store [] = Some []"
| "sort_store (a # as) =
     (if ToUpper a = ''STORE'' then (case as of [] \<Rightarrow> None | d # _ \<Rightarrow> if d = [] then None else Some [d])
      else sort_store as)"

definition sortKeys :: "string list \<Rightarrow> string list option" where
  "sortKeys args =
     (case args of
        [] \<Rightarrow> None
      | k # rest \<Rightarrow> if k = [] then None else map_option (\<lambda>d. k # d) (sort_store rest))"

fun mset_keys :: "string list \<Rightarrow> string list option" where
  "mset_keys (k # v # rest) = (if k = [] then None else map_option (\<lambda>ks. k # ks) (mset_keys rest))"
| "mset_keys _ = Some []"

definition msetKeys :: "string list \<Rightarrow> string list option" where
  "msetKeys args = (case mset_keys args of None \<Rightarrow> None | Some ks \<Rightarrow> if ks = [] then None else Some ks)"

definition singleFirstCmd :: "string \<Rightarrow> bool" where
  "singleFirstCmd cmd \<longleftrightarrow> cmd \<in> set
     [''GET'', ''SET'', ''SETNX'', ''GETSET'', ''GETDEL'', ''GETEX'',
      ''SETEX'', ''PSETEX'', ''SETRANGE'', ''GETRANGE'', ''SUBSTR'', ''STRLEN'', ''APPEND'',
      ''INCR'', ''DECR'', ''INCRBY'', ''DECRBY'', ''INCRBYFLOAT'',
      ''HSET'', ''HGET'', ''HGETALL'', ''HKEYS'', ''HVALS'', ''HLEN'', ''HDEL'',
      ''HEXISTS'', ''HMGET'', ''HSETNX'', ''HINCRBY'', ''HINCRBYFLOAT'', ''HSTRLEN'', ''HRANDFIELD'',
      ''HEXPIRE'', ''HEXPIREAT'', ''HPEXPIRE'', ''HPEXPIREAT'', ''HTTL'', ''HPTTL'', ''HPERSIST'',
      ''HEXPIRETIME'', ''HPEXPIRETIME'',
      ''LPUSH'', ''RPUSH'', ''LPUSHX'', ''RPUSHX'', ''LPOP'', ''RPOP'', ''LLEN'',
      ''LRANGE'', ''LINDEX'', ''LSET'', ''LTRIM'', ''LREM'', ''LINSERT'', ''LMOVE'',
      ''RPOPLPUSH'', ''BRPOPLPUSH'', ''BLPOP'', ''BRPOP'', ''BLMOVE'',
      ''SADD'', ''SREM'', ''SCARD'', ''SISMEMBER'', ''SMEMBERS'', ''SMISMEMBER'',
      ''SPOP'', ''SRANDMEMBER'',
      ''ZADD'', ''ZREM'', ''ZSCORE'', ''ZRANK'', ''ZREVRANK'', ''ZCARD'', ''ZCOUNT'',
      ''ZINCRBY'', ''ZRANGE'', ''ZREVRANGE'', ''ZRANGEBYSCORE'', ''ZREVRANGEBYSCORE'',
      ''ZREMRANGEBYSCORE'', ''ZREMRANGEBYRANK'', ''ZREMRANGEBYLEX'', ''ZRANGEBYLEX'',
      ''ZREVRANGEBYLEX'', ''ZLEXCOUNT'', ''ZPOPMIN'', ''ZPOPMAX'', ''ZRANDMEMBER'',
      ''ZRANGESTORE'', ''ZMSCORE'',
      ''PFADD'', ''PFMERGE'',
      ''GETBIT'', ''SETBIT'', ''BITCOUNT'', ''BITPOS'', ''BITFIELD'', ''BITFIELD_RO'',
      ''EXPIRE'', ''EXPIREAT'', ''PEXPIRE'', ''PEXPIREAT'', ''PERSIST'',
      ''TTL'', ''PTTL'', ''EXPIRETIME'', ''PEXPIRETIME'',
      ''TYPE'', ''DUMP'', ''RESTORE'', ''MOVE'', ''KEYS'',
      ''XADD'', ''XLEN'', ''XRANGE'', ''XREVRANGE'', ''XACK'', ''XCLAIM'',
      ''XAUTOCLAIM'', ''XPENDING'', ''XTRIM'', ''XDEL'', ''XSETID'',
      ''GEOADD'', ''GEODIST'', ''GEOHASH'', ''GEOPOS'', ''GEORADIUS'',
      ''GEORADIUSBYMEMBER'', ''GEOSEARCH'', ''GEOSEARCHSTORE'',
      ''SORT_RO'',
      ''DELEX'', ''GETDELEX'']"

definition nth_key :: "nat \<Rightarrow> string list \<Rightarrow> string list option" where
  "nth_key i args = (if i < length args \<and> args ! i \<noteq> [] then Some [args ! i] else None)"

definition zstore_cmds :: "string list" where
  "zstore_cmds = [''ZUNIONSTORE'', ''ZINTERSTORE'', ''ZDIFFSTORE'']"

definition numkeys_cmds :: "string list" where
  "numkeys_cmds = [''ZUNION'', ''ZINTER'', ''ZDIFF'', ''ZINTERCARD'', ''LMPOP'', ''BLMPOP'', ''ZMPOP'', ''BZMPOP'']"

definition zstoreKeys :: "string list \<Rightarrow> (cluster_error, string list option) res" where
  "zstoreKeys args =
     (if length args < 3 then Ok None
      else mapr (\<lambda>ks. Option.bind ks (\<lambda>ks. allNonEmpty (args ! 0 # ks))) (numKeys 1 1 args))"

definition listedKeys :: "string list \<Rightarrow> (cluster_error, string list option) res" where
  "listedKeys args =
     (if length args < 2 then Ok None
      else mapr (\<lambda>ks. Option.bind ks allNonEmpty) (numKeys 0 1 args))"

definition KeysOf :: "string \<Rightarrow> string list \<Rightarrow> (cluster_error, string list option) res" where
  "KeysOf cmd args =
     (if cmd \<in> set [''EVAL'', ''EVALSHA'', ''EVAL_RO'', ''EVALSHA_RO''] then evalKeys args
      else if cmd \<in> set [''FCALL'', ''FCALL_RO''] then fcallKeys args
      else if cmd \<in> set [''XREAD'', ''XREADGROUP''] then Ok (xreadKeys args)
      else if cmd = ''SORT'' then Ok (sortKeys args)
      else if cmd = ''MIGRATE'' then Ok (nth_key 2 args)
      else if cmd \<in> set [''OBJECT'', ''MEMORY'', ''XGROUP'', ''XINFO''] then Ok (nth_key 1 args)
      else if cmd = ''BITOP'' then Ok (allNonEmpty args)
      else if cmd \<in> set [''COPY'', ''RENAME'', ''RENAMENX'', ''LCS''] then Ok (allNonEmpty (take 2 args))
      else if cmd = ''SMOVE'' then Ok (if 2 \<le> length args then allNonEmpty (take 2 args) else None)
      else if cmd \<in> set [''DEL'', ''UNLINK'', ''EXISTS'', ''TOUCH'', ''MGET''] then Ok (allNonEmpty args)
      else if cmd \<in> set [''MSET'', ''MSETNX''] then
        Ok (msetKeys args)
      else if cmd \<in> set [''PFCOUNT'', ''SINTER'', ''SUNION'', ''SDIFF'', ''SINTERSTORE'', ''SUNIONSTORE'', ''SDIFFSTORE'', ''SINTERCARD'']
      then Ok (allNonEmpty args)
      else if cmd \<in> set zstore_cmds then zstoreKeys args
      else if cmd \<in> set numkeys_cmds then listedKeys args
      else if singleFirstCmd cmd then Ok (nth_key 0 args)
      else Ok None)"

subsection \<open>Redirection (\<^verbatim>\<open>intercept\<close>, \<^verbatim>\<open>CheckExec\<close>)\<close>

fun argStrings :: "RVal list \<Rightarrow> string list option" where
  "argStrings [] = Some []"
| "argStrings (a # as) = (case argString a of None \<Rightarrow> None | Some s \<Rightarrow> map_option ((#) s) (argStrings as))"

text \<open>\<^verbatim>\<open>CheckExec\<close> stops at the first argument that is not a bulk string and keeps those before it.\<close>

fun argPrefix :: "RVal list \<Rightarrow> string list" where
  "argPrefix [] = []"
| "argPrefix (a # as) = (case argString a of None \<Rightarrow> [] | Some s \<Rightarrow> s # argPrefix as)"

definition crossslot :: RVal where
  "crossslot = RError ''CROSSSLOT Keys in request don't hash to the same slot''"

definition clusterdown :: RVal where
  "clusterdown = RError ''CLUSTERDOWN Hash slot not served by this node. Check your cluster configuration.''"

definition moved :: "int \<Rightarrow> string \<Rightarrow> RVal" where
  "moved slot addr = RError (''MOVED '' @ FormatInt slot @ '' '' @ addr)"

definition ask :: "int \<Rightarrow> string \<Rightarrow> RVal" where
  "ask slot addr = RError (''ASK '' @ FormatInt slot @ '' '' @ addr)"

definition nodeAddrOr :: "Topology \<Rightarrow> string \<Rightarrow> string \<Rightarrow> string" where
  "nodeAddrOr t i fallback = (case node_index i (nodes t) of None \<Rightarrow> fallback | Some k \<Rightarrow> Addr (nodes t ! k))"

text \<open>The decision of \<^verbatim>\<open>intercept\<close> once the keys are known: \<^const>\<open>None\<close> lets the command pass.
  \<open>present\<close> is \<^verbatim>\<open>keyPresent\<close>.\<close>

definition route :: "Topology \<Rightarrow> (string \<Rightarrow> bool) \<Rightarrow> bool \<Rightarrow> string \<Rightarrow> string list \<Rightarrow> RVal option" where
  "route t present was_asked name keys =
     (let slot = Slot (hd keys) in
      if \<exists>k \<in> set (tl keys). Slot k \<noteq> slot then Some crossslot
      else case MigratingTo t slot of
        Some targetID \<Rightarrow>
          if name = ''MIGRATE'' then None
          else if present (hd keys) then None
          else Some (ask slot (nodeAddrOr t targetID (OwnerAddr t slot)))
      | None \<Rightarrow>
          (case ImportingFrom t slot of
             Some _ \<Rightarrow>
               if was_asked then None
               else if OwnerAddr t slot = [] then Some clusterdown
               else Some (moved slot (OwnerAddr t slot))
           | None \<Rightarrow>
               if Owns t slot then None
               else if OwnerAddr t slot = [] then Some clusterdown
               else if was_asked \<and> present (hd keys) then None
               else if was_asked then Some (ask slot (OwnerAddr t slot))
               else Some (moved slot (OwnerAddr t slot))))"

text \<open>The one-shot \<^verbatim>\<open>ASKING\<close> flags by connection; a context may carry no connection.\<close>

type_synonym AskRegistry = "nat \<Rightarrow> bool"

definition ask_set :: "nat option \<Rightarrow> AskRegistry \<Rightarrow> bool \<times> AskRegistry" where
  "ask_set conn m = (case conn of None \<Rightarrow> (False, m) | Some c \<Rightarrow> (True, m(c := True)))"

definition ask_consume :: "nat option \<Rightarrow> AskRegistry \<Rightarrow> bool \<times> AskRegistry" where
  "ask_consume conn m = (case conn of None \<Rightarrow> (False, m) | Some c \<Rightarrow> (m c, m(c := False)))"

definition ask_closed :: "nat \<Rightarrow> AskRegistry \<Rightarrow> AskRegistry" where
  "ask_closed c m = m(c := False)"

definition enabled :: "Topology option \<Rightarrow> bool" where
  "enabled topo = (case topo of None \<Rightarrow> False | Some t \<Rightarrow> Enabled t)"

text \<open>The result is the reply that answers the command, if any, and the registry. \<open>replaying\<close>: the
  context carries the mark of an \<^verbatim>\<open>EXEC\<close> replay.\<close>

definition intercept ::
  "Topology option \<Rightarrow> (string \<Rightarrow> bool) \<Rightarrow> bool \<Rightarrow> nat option \<Rightarrow> RVal list \<Rightarrow> AskRegistry
    \<Rightarrow> (cluster_error, RVal option) res \<times> AskRegistry" where
  "intercept topo present replaying conn elems m =
     (if \<not> enabled topo \<or> replaying then (Ok None, m)
      else case elems of
        BulkString b # rest \<Rightarrow>
          (let name = ToUpper (bulk b) in
           if name = ''ASKING'' then (Ok None, m)
           else case ask_consume conn m of (was_asked, m') \<Rightarrow>
             (case argStrings rest of
                None \<Rightarrow> (Ok None, m')
              | Some strArgs \<Rightarrow>
                  (mapr (\<lambda>ks. case ks of None \<Rightarrow> None
                       | Some keys \<Rightarrow> if keys = [] then None else route (the topo) present was_asked name keys)
                     (KeysOf name strArgs), m')))
      | _ \<Rightarrow> (Ok None, m))"

text \<open>The keys of one queued command, and the scan of the whole queue: \<open>slot\<close> is -1 until a key
  is seen; \<^term>\<open>Err ()\<close> is \<^verbatim>\<open>CROSSSLOT\<close>.\<close>

definition queued_keys :: "RVal list \<Rightarrow> (cluster_error, string list) res" where
  "queued_keys elems =
     (case elems of
        BulkString b # rest \<Rightarrow>
          mapr (\<lambda>ks. case ks of None \<Rightarrow> [] | Some keys \<Rightarrow> keys) (KeysOf (ToUpper (bulk b)) (argPrefix rest))
      | _ \<Rightarrow> Ok [])"

fun same_slot :: "string list \<Rightarrow> int \<Rightarrow> int option" where
  "same_slot [] slot = Some slot"
| "same_slot (k # ks) slot =
     (if slot < 0 then same_slot ks (Slot k) else if Slot k \<noteq> slot then None else same_slot ks slot)"

fun exec_slot :: "RVal list list \<Rightarrow> int \<Rightarrow> (cluster_error, int option) res" where
  "exec_slot [] slot = Ok (Some slot)"
| "exec_slot (q # qs) slot =
     bind_res (queued_keys q) (\<lambda>keys. case same_slot keys slot of None \<Rightarrow> Ok None | Some s \<Rightarrow> exec_slot qs s)"

definition CheckExec :: "Topology option \<Rightarrow> RVal list list \<Rightarrow> (cluster_error, RVal option) res" where
  "CheckExec topo queue =
     (if \<not> enabled topo \<or> queue = [] then Ok None
      else mapr (\<lambda>r. case r of None \<Rightarrow> Some crossslot
             | Some slot \<Rightarrow>
                 if 0 \<le> slot \<and> \<not> Owns (the topo) slot then
                   (let owner = OwnerAddr (the topo) slot in
                    if owner = [] then Some clusterdown else Some (moved slot owner))
                 else None)
             (exec_slot queue (-1)))"

subsection \<open>Moving a slot (\<^verbatim>\<open>setslot\<close>) and the snapshot file\<close>

text \<open>The topology and the content of \<^verbatim>\<open>nodes.conf\<close>, \<^const>\<open>None\<close> when it does not exist.\<close>

record ClusterNode =
  topo :: Topology
  disk :: "bytes option"

definition parseSlotArg :: "string \<Rightarrow> int option" where
  "parseSlotArg s = (case ParseInt s of None \<Rightarrow> None | Some n \<Rightarrow> if n < 0 \<or> NumSlots \<le> n then None else Some n)"

text \<open>\<^verbatim>\<open>saveSnapshot\<close> with the callback of \<^verbatim>\<open>main.go\<close>. \<open>wr\<close> is \<^verbatim>\<open>os.WriteFile\<close>: \<^const>\<open>None\<close> when it succeeds,
  or what an error leaves in the file. Without a data directory there is no callback.\<close>

definition saveSnapshot :: "(bytes \<Rightarrow> bytes option) option \<Rightarrow> ClusterNode \<Rightarrow> bool \<times> ClusterNode" where
  "saveSnapshot persist c =
     (case persist of
        None \<Rightarrow> (True, c)
      | Some wr \<Rightarrow>
          (let txt = MarshalSnapshot (TopoSnapshot (topo c)) (nodes (topo c)) in
           case wr txt of
             None \<Rightarrow> (True, c\<lparr> disk := Some txt \<rparr>)
           | Some part \<Rightarrow> (False, c\<lparr> disk := Some part \<rparr>)))"

definition save_reply :: "(bytes \<Rightarrow> bytes option) option \<Rightarrow> ClusterNode \<Rightarrow> RVal \<times> ClusterNode" where
  "save_reply persist c =
     (case saveSnapshot persist c of
        (True, c') \<Rightarrow> (SimpleString ''OK'', c')
      | (False, c') \<Rightarrow> (RError ''ERR Failed to persist cluster state'', c'))"

definition arg_or_empty :: "RVal \<Rightarrow> string" where
  "arg_or_empty v = (case argString v of None \<Rightarrow> [] | Some s \<Rightarrow> s)"

definition unknown_node :: "string \<Rightarrow> RVal" where
  "unknown_node i = RError (''ERR I don't know about node '' @ i)"

definition setslot ::
  "(bytes \<Rightarrow> bytes option) option \<Rightarrow> RVal list \<Rightarrow> ClusterNode \<Rightarrow> RVal \<times> ClusterNode" where
  "setslot persist rest c =
     (if length rest < 2 then (RError ''ERR wrong number of arguments for 'cluster|setslot' command'', c)
      else case Option.bind (argString (rest ! 0)) parseSlotArg of
        None \<Rightarrow> (RError ''ERR Invalid or out of range slot'', c)
      | Some slot \<Rightarrow>
          (let op = ToUpper (arg_or_empty (rest ! 1)) in
           if op = ''MIGRATING'' then
             (if length rest \<noteq> 3 then (RError ''ERR syntax error'', c)
              else let target = arg_or_empty (rest ! 2) in
                if AddrOf (topo c) target = [] then (unknown_node target, c)
                else case SetMigrating slot target (topo c) of
                  (Ok _, t) \<Rightarrow> save_reply persist (c\<lparr> topo := t \<rparr>)
                | (_, t) \<Rightarrow> (RError (''ERR I'm not the owner of hash slot '' @ FormatInt slot), c\<lparr> topo := t \<rparr>))
           else if op = ''IMPORTING'' then
             (if length rest \<noteq> 3 then (RError ''ERR syntax error'', c)
              else let source = arg_or_empty (rest ! 2) in
                if AddrOf (topo c) source = [] then (unknown_node source, c)
                else case SetImporting slot source (topo c) of
                  (Ok _, t) \<Rightarrow> save_reply persist (c\<lparr> topo := t \<rparr>)
                | (_, t) \<Rightarrow> (RError ''ERR I'm already the owner of hash slot.'', c\<lparr> topo := t \<rparr>))
           else if op = ''STABLE'' then
             (if length rest \<noteq> 2 then (RError ''ERR syntax error'', c)
              else save_reply persist (c\<lparr> topo := SetStable slot (topo c) \<rparr>))
           else if op = ''NODE'' then
             (if length rest \<noteq> 3 then (RError ''ERR syntax error'', c)
              else let i = arg_or_empty (rest ! 2) in
                case SetNode slot i (topo c) of
                  (Ok _, t) \<Rightarrow> save_reply persist (c\<lparr> topo := t \<rparr>)
                | (_, t) \<Rightarrow> (unknown_node i, c\<lparr> topo := t \<rparr>))
           else (RError ''ERR syntax error'', c)))"

text \<open>\<^verbatim>\<open>loadClusterSnapshot\<close>: \<^const>\<open>None\<close> is the content of a missing file.\<close>

definition loadClusterSnapshot :: "bytes option \<Rightarrow> Topology \<Rightarrow> (cluster_error, unit) res \<times> Topology" where
  "loadClusterSnapshot file t =
     (case file of
        None \<Rightarrow> (Ok (), t)
      | Some data \<Rightarrow>
          (case UnmarshalSnapshot data (nodes t) of
             Ok snap \<Rightarrow> LoadSnapshot snap t
           | Err e \<Rightarrow> (Err e, t)
           | Panic \<Rightarrow> (Panic, t)))"

text \<open>What \<^verbatim>\<open>CLUSTER SLOTS\<close> lists: the configured ranges of each node, joined where they touch.\<close>

fun merged_acc :: "int \<times> int \<Rightarrow> (int \<times> int) list \<Rightarrow> (int \<times> int) list" where
  "merged_acc l [] = [l]"
| "merged_acc l (r # rs) =
     (if fst r \<le> snd l + 1 then merged_acc (fst l, max (snd l) (snd r)) rs
      else l # merged_acc r rs)"

fun merged :: "(int \<times> int) list \<Rightarrow> (int \<times> int) list" where
  "merged [] = []"
| "merged (r # rs) = merged_acc r rs"

definition slots :: "Topology \<Rightarrow> ((int \<times> int) \<times> string) list" where
  "slots t = concat (map (\<lambda>n. map (\<lambda>r. (r, NID n)) (merged (Ranges n))) (nodes t))"

subsection \<open>Key extraction\<close>

lemma allNonEmpty_Some: "allNonEmpty a = Some ks \<longleftrightarrow> ks = a \<and> a \<noteq> [] \<and> [] \<notin> set a"
  by (auto simp: allNonEmpty_def)

lemma nth_key_Some: "nth_key i a = Some ks \<longleftrightarrow> i < length a \<and> ks = [a ! i] \<and> a ! i \<noteq> []"
  by (auto simp: nth_key_def)

lemma mset_keys_Some: "mset_keys a = Some ks \<Longrightarrow> [] \<notin> set ks \<and> set ks \<subseteq> set a"
  by (induction a arbitrary: ks rule: mset_keys.induct) (auto split: if_splits)

lemma sort_store_Some: "sort_store a = Some ks \<Longrightarrow> [] \<notin> set ks \<and> set ks \<subseteq> set a"
proof (induction a arbitrary: ks)
  case (Cons x xs)
  show ?case
  proof (cases "ToUpper x = ''STORE''")
    case True
    with Cons.prems show ?thesis by (cases xs) (auto split: if_splits)
  next
    case False
    with Cons.prems have "sort_store xs = Some ks" by simp
    from Cons.IH [OF this] show ?thesis by auto
  qed
qed simp

lemma after_streams_Some: "after_streams a = Some r \<Longrightarrow> set r \<subseteq> set a"
  by (induction a) (auto split: if_splits)

lemma slice_Ok: "slice lo hi xs = Ok ys \<Longrightarrow> set ys \<subseteq> set xs"
  by (auto simp: slice_def split: if_splits dest: in_set_takeD in_set_dropD)

lemma numKeys_Ok: "numKeys pos l args = Ok (Some ks) \<Longrightarrow> set ks \<subseteq> set args"
  by (auto simp: numKeys_def split: option.splits if_splits dest!: slice_Ok)

definition keys_from :: "string list \<Rightarrow> string list \<Rightarrow> bool" where
  "keys_from args ks \<longleftrightarrow> ks \<noteq> [] \<and> [] \<notin> set ks \<and> set ks \<subseteq> set args"

named_theorems key_intro

lemma allNonEmpty_from [key_intro]:
  "allNonEmpty a = Some ks \<Longrightarrow> set a \<subseteq> set args \<Longrightarrow> keys_from args ks"
  by (simp add: allNonEmpty_Some keys_from_def)

lemma nth_key_from [key_intro]: "nth_key i args = Some ks \<Longrightarrow> keys_from args ks"
  by (auto simp: nth_key_Some keys_from_def)

lemma xreadKeys_from [key_intro]: "xreadKeys args = Some ks \<Longrightarrow> keys_from args ks"
  by (auto simp: xreadKeys_def split: option.splits if_splits dest!: after_streams_Some dest: in_set_takeD
      intro!: allNonEmpty_from)

lemma sortKeys_from [key_intro]: "sortKeys args = Some ks \<Longrightarrow> keys_from args ks"
  by (auto simp: sortKeys_def keys_from_def split: list.splits if_splits dest!: sort_store_Some)

lemma evalKeys_from [key_intro]: "evalKeys args = Ok (Some ks) \<Longrightarrow> keys_from args ks"
  by (auto simp: evalKeys_def split: if_splits bind_splits dest!: numKeys_Ok intro!: allNonEmpty_from)

lemma fcallKeys_from [key_intro]: "fcallKeys args = Ok (Some ks) \<Longrightarrow> keys_from args ks"
  by (auto simp: fcallKeys_def split: if_splits option.splits dest!: slice_Ok intro!: allNonEmpty_from)

lemma listedKeys_from [key_intro]: "listedKeys args = Ok (Some ks) \<Longrightarrow> keys_from args ks"
  by (auto simp: listedKeys_def split: if_splits bind_splits dest!: numKeys_Ok intro!: allNonEmpty_from)

lemma msetKeys_from [key_intro]: "msetKeys args = Some ks \<Longrightarrow> keys_from args ks"
  by (auto simp: msetKeys_def keys_from_def split: option.splits if_splits dest!: mset_keys_Some)

lemma zstoreKeys_from [key_intro]:
  assumes "zstoreKeys args = Ok (Some ks)"
  shows "keys_from args ks"
proof -
  from assms obtain ks' where "\<not> length args < 3" "numKeys 1 1 args = Ok (Some ks')" "allNonEmpty (args ! 0 # ks') = Some ks"
    by (auto simp: zstoreKeys_def split: bind_splits if_splits)
  moreover from this have "args ! 0 \<in> set args" by (intro nth_mem) auto
  ultimately show ?thesis by (auto dest!: numKeys_Ok intro!: allNonEmpty_from)
qed

lemma if_okE:
  assumes "(if c then x else y) = Ok (Some ks)"
  obtains "x = Ok (Some ks)" | "y = Ok (Some ks)"
  using assms by (cases c) simp_all

lemma KeysOf_from:
  assumes "KeysOf cmd args = Ok (Some ks)"
  shows "keys_from args ks"
proof -
  have T: "keys_from args ks" if "allNonEmpty (take n args) = Some ks" for n
    using that set_take_subset by (rule allNonEmpty_from)
  from assms show ?thesis
    unfolding KeysOf_def
    by (elim if_okE) (simp_all add: key_intro, auto intro: key_intro T split: if_splits)
qed


subsection \<open>When key extraction panics\<close>

text \<open>\<open>huge pos s\<close>: the number of keys is so large that \<^verbatim>\<open>pos+1+n\<close> wraps around.\<close>

definition huge :: "nat \<Rightarrow> string \<Rightarrow> bool" where
  "huge pos s \<longleftrightarrow> (case ParseInt s of None \<Rightarrow> False | Some n \<Rightarrow> 2 ^ 63 - 1 < int pos + 1 + n)"

lemma wrap64_over:
  assumes "2 ^ 63 \<le> i" "i < 2 ^ 64"
  shows "wrap64 i = i - 2 ^ 64"
proof -
  have "(i + 2 ^ 63) mod 2 ^ 64 = (i + 2 ^ 63 - 2 ^ 64) mod 2 ^ 64" by (simp only: minus_mod_self2)
  also have "\<dots> = i + 2 ^ 63 - 2 ^ 64" using assms by (intro mod_pos_pos_trivial) auto
  finally show ?thesis by (simp add: wrap64_def)
qed

lemma numKeys_Panic:
  assumes "pos < 2" "0 \<le> least" "least \<le> 1"
  shows "numKeys pos least args = Panic \<longleftrightarrow> huge pos (args ! pos)"
proof (cases "ParseInt (args ! pos)")
  case (Some n)
  then have n: "- (2 ^ 63) \<le> n" "n < 2 ^ 63" using ParseInt_range [OF Some] by (auto simp: int64_range_def)
  show ?thesis
  proof (cases "2 ^ 63 - 1 < int pos + 1 + n")
    case True
    then have "wrap64 (int pos + 1 + n) = int pos + 1 + n - 2 ^ 64"
      using n assms(1) by (intro wrap64_over) auto
    then show ?thesis using True Some n assms by (auto simp: numKeys_def huge_def slice_def)
  next
    case False
    show ?thesis
    proof (cases "n < least")
      case True
      with Some False show ?thesis by (simp add: numKeys_def huge_def)
    next
      case nonneg: False
      then have "wrap64 (int pos + 1 + n) = int pos + 1 + n"
        using n False assms(2) by (intro wrap64_id) (simp add: int64_range_def)
      then show ?thesis using nonneg False Some assms(2) by (auto simp: numKeys_def huge_def slice_def)
    qed
  qed
qed (simp add: numKeys_def huge_def)

lemma fcallKeys_total:
  assumes "int (length args) < 2 ^ 63"
  shows "fcallKeys args \<noteq> Panic"
proof (cases "ParseInt (args ! 1)")
  case (Some n)
  show ?thesis
  proof (cases "n \<le> 0 \<or> int (length args) - 2 < n")
    case True
    with Some show ?thesis by (auto simp: fcallKeys_def)
  next
    case False
    then have "wrap64 (2 + n) = 2 + n" using assms by (intro wrap64_id) (auto simp: int64_range_def)
    with False Some show ?thesis by (auto simp: fcallKeys_def slice_def)
  qed
qed (simp add: fcallKeys_def)

lemma bind_res_Panic: "bind_res m f = Panic \<longleftrightarrow> m = Panic \<or> (\<exists>x. m = Ok x \<and> f x = Panic)"
  by (cases m) simp_all

definition eval_cmds :: "string list" where
  "eval_cmds = [''EVAL'', ''EVALSHA'', ''EVAL_RO'', ''EVALSHA_RO'']"

lemma evalKeys_Panic: "evalKeys args = Panic \<longleftrightarrow> args \<noteq> [] \<and> huge 0 (args ! 0)"
  using numKeys_Panic [of 0 0 args] by (cases args) (simp_all add: evalKeys_def bind_res_Panic)

lemma zstoreKeys_Panic: "zstoreKeys args = Panic \<longleftrightarrow> 3 \<le> length args \<and> huge 1 (args ! 1)"
  using numKeys_Panic [of 1 1 args] by (simp add: zstoreKeys_def bind_res_Panic not_less)

lemma listedKeys_Panic: "listedKeys args = Panic \<longleftrightarrow> 2 \<le> length args \<and> huge 0 (args ! 0)"
  using numKeys_Panic [of 0 1 args] by (simp add: listedKeys_def bind_res_Panic not_less)

lemma if_panicE:
  assumes "(if c then x else y) = Panic"
  obtains "c" "x = Panic" | "y = Panic"
  using assms by (cases c) simp_all

lemma KeysOf_Panic:
  assumes "int (length args) < 2 ^ 63"
  shows "KeysOf cmd args = Panic \<longleftrightarrow>
    (cmd \<in> set eval_cmds \<and> args \<noteq> [] \<and> huge 0 (args ! 0))
    \<or> (cmd \<in> set zstore_cmds \<and> 3 \<le> length args \<and> huge 1 (args ! 1))
    \<or> (cmd \<in> set numkeys_cmds \<and> 2 \<le> length args \<and> huge 0 (args ! 0))" (is "_ \<longleftrightarrow> ?E \<or> ?Z \<or> ?L")
proof
  assume "KeysOf cmd args = Panic"
  then show "?E \<or> ?Z \<or> ?L"
    unfolding KeysOf_def
    by (elim if_panicE)
      (simp_all add: evalKeys_Panic zstoreKeys_Panic listedKeys_Panic fcallKeys_total [OF assms] eval_cmds_def)
next
  assume "?E \<or> ?Z \<or> ?L"
  then show "KeysOf cmd args = Panic"
  proof (elim disjE)
    assume ?E
    then show ?thesis by (simp add: KeysOf_def eval_cmds_def evalKeys_Panic)
  next
    assume ?Z
    then have L: "zstoreKeys args = Panic" by (simp add: zstoreKeys_Panic)
    from \<open>?Z\<close> have "KeysOf cmd args = zstoreKeys args"
      unfolding zstore_cmds_def by (elim conjE) (simp, elim disjE; simp add: KeysOf_def zstore_cmds_def)
    with L show ?thesis by simp
  next
    assume ?L
    then have L: "listedKeys args = Panic" by (simp add: listedKeys_Panic)
    from \<open>?L\<close> have "KeysOf cmd args = listedKeys args"
      unfolding numkeys_cmds_def by (elim conjE) (simp, elim disjE; simp add: KeysOf_def zstore_cmds_def numkeys_cmds_def)
    with L show ?thesis by simp
  qed
qed


subsection \<open>Routing decisions\<close>

lemma topo_ok_owns: "topo_ok t \<Longrightarrow> slot_ok s \<Longrightarrow> Owns t s \<longleftrightarrow> owner t s = self t"
  by (auto simp: topo_ok_def owners_ok_def Owns_def slot_ok_def)

lemma topo_ok_migrating: "topo_ok t \<Longrightarrow> MigratingTo t s = Some i \<Longrightarrow> slot_ok s \<and> owner t s = self t"
  by (auto simp: topo_ok_def MigratingTo_def dest!: map_of_SomeD)

lemma topo_ok_importing: "topo_ok t \<Longrightarrow> ImportingFrom t s = Some i \<Longrightarrow> slot_ok s \<and> owner t s \<noteq> self t"
  by (auto simp: topo_ok_def ImportingFrom_def dest!: map_of_SomeD)

lemma slot_ok_Slot: "slot_ok (Slot k)"
  using Slot_range by (simp add: slot_ok_def)

lemma intercept_keys:
  assumes "Enabled t" "ToUpper (bulk b) \<noteq> ''ASKING''" "argStrings rest = Some args"
    and K: "KeysOf (ToUpper (bulk b)) args = Ok (Some keys)"
  shows "intercept (Some t) present False conn (BulkString b # rest) m =
    (Ok (route t present (fst (ask_consume conn m)) (ToUpper (bulk b)) keys), snd (ask_consume conn m))"
  using KeysOf_from [OF K] assms
  by (simp add: intercept_def enabled_def Let_def keys_from_def split: prod.split)

lemma route_None:
  assumes "topo_ok t" "keys \<noteq> []" "route t present was_asked name keys = None"
  defines "s \<equiv> Slot (hd keys)"
  shows "(\<forall>k \<in> set keys. Slot k = s) \<and>
    (Owns t s \<and> (MigratingTo t s = None \<or> name = ''MIGRATE'' \<or> present (hd keys))
     \<or> \<not> Owns t s \<and> was_asked \<and> (ImportingFrom t s \<noteq> None \<or> present (hd keys)))"
proof -
  have O: "Owns t s \<longleftrightarrow> owner t s = self t" by (simp add: assms(1) s_def topo_ok_owns slot_ok_Slot)
  have tl: "\<not> (\<exists>k \<in> set (tl keys). Slot k \<noteq> s)"
  proof
    assume "\<exists>k \<in> set (tl keys). Slot k \<noteq> s"
    with assms(3) show False by (simp add: route_def Let_def s_def [symmetric])
  qed
  then have all: "\<forall>k \<in> set keys. Slot k = s" using assms(2) by (cases keys) (auto simp: s_def)
  show ?thesis
  proof (cases "MigratingTo t s")
    case (Some i)
    with tl assms(3) have "name = ''MIGRATE'' \<or> present (hd keys)"
      by (simp add: route_def Let_def s_def [symmetric] split: if_splits)
    moreover have "Owns t s" using O topo_ok_migrating [OF assms(1) Some] by simp
    ultimately show ?thesis using all by simp
  next
    case None
    show ?thesis
    proof (cases "ImportingFrom t s")
      case (Some i)
      with None tl assms(3) have "was_asked"
        by (simp add: route_def Let_def s_def [symmetric] split: if_splits)
      moreover have "\<not> Owns t s" using O topo_ok_importing [OF assms(1) Some] by simp
      ultimately show ?thesis using all Some by simp
    next
      case N: None
      from None N tl assms(3) have "Owns t s \<or> was_asked \<and> present (hd keys)"
        by (simp add: route_def Let_def s_def [symmetric] split: if_splits)
      with all None show ?thesis by blast
    qed
  qed
qed

subsection \<open>Moving slots keeps the invariant and the file\<close>

lemma save_reply_topo: "topo (snd (save_reply p c)) = topo c"
  by (auto simp: save_reply_def saveSnapshot_def Let_def split: option.splits)

lemma topo_ok_SetX:
  "topo_ok t \<Longrightarrow> AddrOf t i \<noteq> [] \<Longrightarrow> SetMigrating s i t = (r, t') \<Longrightarrow> topo_ok t'"
  "topo_ok t \<Longrightarrow> AddrOf t i \<noteq> [] \<Longrightarrow> SetImporting s i t = (r, t') \<Longrightarrow> topo_ok t'"
  "topo_ok t \<Longrightarrow> SetNode s i t = (r, t') \<Longrightarrow> topo_ok t'"
  using topo_ops_ok AddrOf_known by (metis snd_conv)+

text \<open>The fields that no operation of a running node changes.\<close>

definition same_config :: "Topology \<Rightarrow> Topology \<Rightarrow> bool" where
  "same_config t t' \<longleftrightarrow> Enabled t' = Enabled t \<and> self t' = self t \<and> nodes t' = nodes t
     \<and> (\<forall>s. \<not> slot_ok s \<longrightarrow> owned t' s = owned t s)"

lemma same_config_refl [simp]: "same_config t t"
  by (simp add: same_config_def)

lemma same_config_SetX:
  "SetMigrating s i t = (r, t') \<Longrightarrow> same_config t t'"
  "SetImporting s i t = (r, t') \<Longrightarrow> same_config t t'"
  "SetNode s i t = (r, t') \<Longrightarrow> same_config t t'"
  "same_config t (SetStable s t)"
  by (auto simp: same_config_def SetMigrating_def SetImporting_def SetNode_def SetStable_def slot_ok_def
      split: if_splits option.splits)

lemma SetX_error:
  "SetMigrating s i t = (Err e, t') \<Longrightarrow> t' = t" "SetMigrating s i t \<noteq> (Panic, t')"
  "SetImporting s i t = (Err e, t') \<Longrightarrow> t' = t" "SetImporting s i t \<noteq> (Panic, t')"
  "SetNode s i t = (Err e, t') \<Longrightarrow> t' = t" "SetNode s i t \<noteq> (Panic, t')"
  by (auto simp: SetMigrating_def SetImporting_def SetNode_def split: if_splits option.splits)

text \<open>What a \<^verbatim>\<open>SETSLOT\<close> can do: nothing, or one operation on the topology followed by a save.\<close>

definition slot_moved :: "(bytes \<Rightarrow> bytes option) option \<Rightarrow> ClusterNode \<Rightarrow> ClusterNode \<Rightarrow> bool" where
  "slot_moved p c c' \<longleftrightarrow> c' = c \<or> (\<exists>t. c' = snd (save_reply p (c\<lparr> topo := t \<rparr>)) \<and> same_config (topo c) t
     \<and> (topo_ok (topo c) \<longrightarrow> topo_ok t))"

lemma slot_movedI:
  "save_reply p (c\<lparr> topo := t \<rparr>) = (r, c') \<Longrightarrow> same_config (topo c) t \<Longrightarrow> (topo_ok (topo c) \<Longrightarrow> topo_ok t)
    \<Longrightarrow> slot_moved p c c'"
  unfolding slot_moved_def by (intro disjI2 exI [of _ t]) simp

lemma slot_moved_refl [simp]: "slot_moved p c c"
  by (simp add: slot_moved_def)

lemma setslot_moved:
  assumes "setslot p rest c = (r, c')"
  shows "slot_moved p c c'"
  using assms
  by (auto simp: setslot_def Let_def SetX_error split: if_splits option.splits prod.splits res.splits
      intro: slot_movedI topo_ok_SetX same_config_SetX SetStable_ok dest!: SetX_error(1,3,5))

text \<open>A node that runs from a configuration \<open>t0\<close>: a start reads the file, a \<^verbatim>\<open>SETSLOT\<close> runs with
  working writes.\<close>

inductive node_reach :: "Topology \<Rightarrow> ClusterNode \<Rightarrow> bool" for t0 where
  first: "node_reach t0 \<lparr> topo = t0, disk = None \<rparr>"
| command: "node_reach t0 c \<Longrightarrow> setslot (Some (\<lambda>_. None)) rest c = (r, c') \<Longrightarrow> node_reach t0 c'"
| restart: "node_reach t0 c \<Longrightarrow> loadClusterSnapshot (disk c) t0 = (Ok (), t) \<Longrightarrow> node_reach t0 (c\<lparr> topo := t \<rparr>)"

definition node_inv :: "Topology \<Rightarrow> ClusterNode \<Rightarrow> bool" where
  "node_inv t0 c \<longleftrightarrow> topo_ok (topo c) \<and> same_config t0 (topo c)
     \<and> (if disk c = None then topo c = t0
        else disk c = Some (MarshalSnapshot (TopoSnapshot (topo c)) (nodes t0)))"

lemma same_config_trans: "same_config a b \<Longrightarrow> same_config b c \<Longrightarrow> same_config a c"
  by (simp add: same_config_def)

lemma load_saved:
  assumes "topo_ok t0" "epoch t0 = 0" "nodes_ok (nodes t0)" "node_inv t0 c"
  shows "loadClusterSnapshot (disk c) t0 = (Ok (), topo c)"
proof (cases "disk c")
  case None
  with assms(4) show ?thesis by (simp add: node_inv_def loadClusterSnapshot_def)
next
  case (Some d)
  let ?t = "topo c"
  have inv: "topo_ok ?t" "same_config t0 ?t" and d: "d = MarshalSnapshot (TopoSnapshot ?t) (nodes t0)"
    using assms(4) Some by (auto simp: node_inv_def)
  then have "snap_ok (nodes t0) (TopoSnapshot ?t)"
    using topo_ok_snap_ok [of ?t] assms(3) by (simp add: same_config_def)
  then have "UnmarshalSnapshot d (nodes t0) = Ok (TopoSnapshot ?t)"
    using UnmarshalSnapshot_MarshalSnapshot assms(3) d by blast
  moreover have owned: "owned ?t = (\<lambda>s. if slot_ok s then 0 \<le> owner ?t s else owned t0 s)"
    using inv by (intro ext) (simp add: topo_ok_def owners_ok_def same_config_def)
  have "LoadSnapshot (TopoSnapshot ?t) t0 = (Ok (), ?t)"
    unfolding LoadSnapshot_def TopoSnapshot_def Snapshot.select_convs owned [symmetric]
    using inv(2) assms(2) by (simp add: same_config_def)
  ultimately show ?thesis
    using Some by (simp add: loadClusterSnapshot_def)
qed

lemma node_reach_inv:
  assumes "node_reach t0 c" "topo_ok t0" "epoch t0 = 0" "nodes_ok (nodes t0)"
  shows "node_inv t0 c"
  using assms(1)
proof induction
  case first
  with assms show ?case by (simp add: node_inv_def)
next
  case (command c rest r c')
  from setslot_moved [OF command.hyps(2)] show ?case
    unfolding slot_moved_def
  proof (elim disjE exE conjE)
    fix t assume c': "c' = snd (save_reply (Some (\<lambda>_. None)) (c\<lparr> topo := t \<rparr>))"
      and t: "same_config (topo c) t" "topo_ok (topo c) \<longrightarrow> topo_ok t"
    from c' have "c' = c\<lparr> topo := t, disk := Some (MarshalSnapshot (TopoSnapshot t) (nodes t)) \<rparr>"
      by (simp add: save_reply_def saveSnapshot_def Let_def)
    moreover have "same_config t0 t" using command.IH t(1) by (auto simp: node_inv_def intro: same_config_trans)
    ultimately show ?thesis using command.IH t by (auto simp: node_inv_def same_config_def)
  qed (use command.IH in simp)
next
  case (restart c t)
  with load_saved [OF assms(2,3,4) restart.IH] have "t = topo c" by simp
  with restart.IH show ?case by simp
qed


subsection \<open>The properties\<close>


definition node_a :: TopoNode where "node_a = \<lparr> NID = ''aa'', Addr = ''a:1'', Ranges = [(0, 8191)] \<rparr>"

definition node_b :: TopoNode where "node_b = \<lparr> NID = ''bb'', Addr = ''b:2'', Ranges = [(8192, 16383)] \<rparr>"

definition halves :: "int \<Rightarrow> Topology" where
  "halves sf = \<lparr> Enabled = True, self = sf, nodes = [node_a, node_b], owned = slot_ok,
     owner = (\<lambda>s. if slot_ok s then if s < 8192 then 0 else 1 else -1), migrating = [], importing = [], epoch = 0 \<rparr>"

lemma halves_ok: "topo_ok (halves 0)" "topo_ok (halves 1)"
  by (auto simp: topo_ok_def halves_def owners_ok_def gomap_def)

lemma ToUpper_get: "ToUpper ''get'' = ''GET''"
  by code_simp

lemma Slot_foo: "Slot ''foo'' = 12182"
  by code_simp

lemma KeysOf_get: "KeysOf ''GET'' [''foo''] = Ok (Some [''foo''])"
  by (simp add: KeysOf_def singleFirstCmd_def zstore_cmds_def numkeys_cmds_def nth_key_def)

lemma halves_get:
  "intercept (Some (halves 1)) (\<lambda>_. False) False (Some 7) [BulkString (Some ''get''), BulkString (Some ''foo'')] (\<lambda>_. False)
    = (Ok None, (\<lambda>_. False)(7 := False))"
  by (simp add: intercept_def enabled_def bulk_def ToUpper_get KeysOf_get ask_consume_def route_def Slot_foo
      MigratingTo_def ImportingFrom_def Owns_def halves_def slot_ok_def NumSlots_def)




lemma same_slot_Some:
  "same_slot ks slot = Some s \<Longrightarrow> (0 \<le> slot \<longrightarrow> s = slot) \<and> (\<forall>k \<in> set ks. Slot k = s)"
proof (induction ks arbitrary: slot)
  case (Cons k ks)
  have k: "0 \<le> Slot k" using Slot_range by blast
  from Cons.prems have S: "same_slot ks (Slot k) = Some s" "0 \<le> slot \<longrightarrow> Slot k = slot"
    by (auto split: if_splits)
  from Cons.IH [OF S(1)] k S(2) show ?case by auto
qed simp

lemma exec_slot_Some:
  assumes "exec_slot qs slot = Ok (Some s)"
  shows "(0 \<le> slot \<longrightarrow> s = slot) \<and> (\<forall>q \<in> set qs. \<exists>ks. queued_keys q = Ok ks \<and> (\<forall>k \<in> set ks. Slot k = s))"
  using assms
proof (induction qs arbitrary: slot)
  case (Cons q qs)
  then obtain ks s1 where q: "queued_keys q = Ok ks" "same_slot ks slot = Some s1" "exec_slot qs s1 = Ok (Some s)"
    by (auto split: option.splits)
  have S: "0 \<le> slot \<longrightarrow> s1 = slot" "\<forall>k \<in> set ks. Slot k = s1" using same_slot_Some [OF q(2)] by auto
  have IH: "0 \<le> s1 \<longrightarrow> s = s1" "\<forall>q \<in> set qs. \<exists>ks. queued_keys q = Ok ks \<and> (\<forall>k \<in> set ks. Slot k = s)"
    using Cons.IH [OF q(3)] by auto
  have "Slot k = s" if "k \<in> set ks" for k
  proof -
    have "0 \<le> Slot k" using Slot_range by blast
    with S(2) that IH(1) show ?thesis by auto
  qed
  with S IH q(1) show ?case by auto
qed simp

text \<open>C18. A transaction is routed as a whole. When \<^verbatim>\<open>CheckExec\<close> lets a queue pass, there is one slot
  such that every key of every queued command is in it, and the node owns that slot when there is
  any key.\<close>

theorem exec_safe:
  assumes "CheckExec (Some t) queue = Ok None" "Enabled t"
  shows "\<exists>s. \<forall>q \<in> set queue. \<exists>ks. queued_keys q = Ok ks \<and> (\<forall>k \<in> set ks. Slot k = s \<and> Owns t s)"
proof (cases "queue = []")
  case False
  with assms obtain r where r: "exec_slot queue (-1) = Ok r"
    by (cases "exec_slot queue (-1)") (simp_all add: CheckExec_def enabled_def)
  with False assms obtain s where "r = Some s"
    by (cases r) (simp_all add: CheckExec_def enabled_def)
  with r False assms have s: "exec_slot queue (-1) = Ok (Some s)" "\<not> (0 \<le> s \<and> \<not> Owns t s)"
    by (simp_all add: CheckExec_def enabled_def Let_def split: if_splits)
  show ?thesis
  proof (intro exI [of _ s] ballI)
    fix q assume "q \<in> set queue"
    with exec_slot_Some [OF s(1)] obtain ks where ks: "queued_keys q = Ok ks" "\<forall>k \<in> set ks. Slot k = s" by blast
    have "Owns t s" if "k \<in> set ks" for k
      using s(2) ks(2) that Slot_range [of k] by auto
    with ks show "\<exists>ks. queued_keys q = Ok ks \<and> (\<forall>k \<in> set ks. Slot k = s \<and> Owns t s)" by blast
  qed
qed simp

lemma queue_get: "queued_keys [BulkString (Some ''get''), BulkString (Some ''foo'')] = Ok [''foo'']"
  by (simp add: queued_keys_def bulk_def ToUpper_get KeysOf_get)

theorem exec_safe_witness:
  "Slot ''foo'' = 12182 \<and> Owns (halves 1) 12182"
proof -
  let ?q = "[BulkString (Some ''get''), BulkString (Some ''foo'')]"
  have "CheckExec (Some (halves 1)) [?q] = Ok None"
    by (simp add: CheckExec_def queue_get enabled_def halves_def Slot_foo Owns_def slot_ok_def NumSlots_def)
  from exec_safe [OF this] show ?thesis by (simp add: queue_get halves_def Slot_foo)
qed

text \<open>C4. A restart loses no slot. Start a node from a configuration that \<^verbatim>\<open>Build\<close> accepts, with
  distinct node ids that fit the text format. After any sequence of \<^verbatim>\<open>CLUSTER SETSLOT\<close> commands and
  restarts with working writes, the topology is well formed, and reading the file on a fresh start
  gives exactly the topology in memory.\<close>

theorem cluster_restart:
  assumes "Build a specs = Ok t0" "nodes_ok (nodes t0)" "node_reach t0 c"
  shows "topo_ok (topo c) \<and> loadClusterSnapshot (disk c) t0 = (Ok (), topo c)"
proof -
  have t0: "topo_ok t0" "epoch t0 = 0" using Build_ok [OF assms(1)] by (auto simp: build_inv_def)
  have inv: "node_inv t0 c" by (rule node_reach_inv [OF assms(3) t0 assms(2)])
  then show ?thesis using load_saved [OF t0 assms(2) inv] by (simp add: node_inv_def)
qed

definition small_specs :: "TopoNode list" where
  "small_specs = [\<lparr> NID = ''aa'', Addr = ''a:1'', Ranges = [(0, 1)] \<rparr>, \<lparr> NID = ''bb'', Addr = ''b:2'', Ranges = [(2, 2)] \<rparr>]"

lemma split_small: "splitAddr ''a:1'' = Some (''a'', ''1'')" "splitAddr ''b:2'' = Some (''b'', ''2'')"
  by code_simp+

lemma small_slots: "range_slots (0, 1) = [0, 1]" "range_slots (2, 2) = [2]"
  by (simp_all add: range_slots_def NumSlots_def upto.simps)

lemma small_build: "\<exists>t. Build ''a:1'' small_specs = Ok t \<and> nodes t = small_specs \<and> self t = 0 \<and> owner t 1 = 0"
  by (simp add: Build_def small_specs_def split_small small_slots Let_def zero_topology_def)

lemma ToUpper_migrating: "ToUpper ''migrating'' = ''MIGRATING''"
  by code_simp

lemma Parse_1: "ParseInt ''1'' = Some 1"
  by (simp add: parse_simps)

theorem cluster_restart_witness:
  "\<exists>t (c :: ClusterNode). Build ''a:1'' small_specs = Ok t \<and> MigratingTo (topo c) 1 = Some ''bb''
     \<and> loadClusterSnapshot (disk c) t = (Ok (), topo c)"
proof -
  obtain t where t: "Build ''a:1'' small_specs = Ok t" "nodes t = small_specs" "self t = 0" "owner t 1 = 0"
    using small_build by blast
  let ?cmd = "[BulkString (Some ''1''), BulkString (Some ''migrating''), BulkString (Some ''bb'')]"
  define c where "c = snd (setslot (Some (\<lambda>_. None)) ?cmd \<lparr> topo = t, disk = None \<rparr>)"
  then have step: "setslot (Some (\<lambda>_. None)) ?cmd \<lparr> topo = t, disk = None \<rparr>
      = (fst (setslot (Some (\<lambda>_. None)) ?cmd \<lparr> topo = t, disk = None \<rparr>), c)" by simp
  have m: "migrating t = []" using Build_ok [OF t(1)] by (simp add: build_inv_def)
  have addr: "AddrOf t ''bb'' = ''b:2''" by (simp add: AddrOf_def t(2) small_specs_def)
  have slot: "parseSlotArg ''1'' = Some 1" by (simp add: parseSlotArg_def Parse_1 NumSlots_def)
  have "MigratingTo (topo c) 1 = Some ''bb''"
    by (simp add: c_def setslot_def addr slot t arg_or_empty_def bulk_def ToUpper_migrating SetMigrating_def NumSlots_def m
        save_reply_topo MigratingTo_def)
  moreover have ok: "nodes_ok (nodes t)"
  proof -
    have "is_token ''aa''" "is_token ''bb''" by code_simp+
    then show ?thesis by (simp add: nodes_ok_def t(2) small_specs_def)
  qed
  have "loadClusterSnapshot (disk c) t = (Ok (), topo c)"
    using cluster_restart [OF t(1) ok node_reach.command [OF node_reach.first step]] by simp
  ultimately show ?thesis using t(1) by (intro exI [of _ t] exI [of _ c]) simp
qed

text \<open>Key extraction panics exactly when the number of keys in \<^verbatim>\<open>EVAL\<close>, the \<^verbatim>\<open>Z...STORE\<close> commands
  or the \<^verbatim>\<open>numkeys\<close> commands is so near the largest 64-bit integer that the bounds check wraps around,
  and then \<^verbatim>\<open>intercept\<close> panics too.\<close>

theorem keysof_panics:
  assumes "int (length args) < 2 ^ 63"
  shows "KeysOf cmd args = Panic \<longleftrightarrow>
    (cmd \<in> set eval_cmds \<and> args \<noteq> [] \<and> huge 0 (args ! 0))
    \<or> (cmd \<in> set zstore_cmds \<and> 3 \<le> length args \<and> huge 1 (args ! 1))
    \<or> (cmd \<in> set numkeys_cmds \<and> 2 \<le> length args \<and> huge 0 (args ! 0))"
  using assms by (rule KeysOf_Panic)

lemma Parse_max: "ParseInt ''9223372036854775807'' = Some 9223372036854775807"
  by (simp add: parse_simps)

theorem keysof_panics_witness:
  "KeysOf ''ZUNIONSTORE'' [''d'', ''9223372036854775807'', ''k''] = Panic"
  using keysof_panics [of "[''d'', ''9223372036854775807'', ''k'']" "''ZUNIONSTORE''"]
  by (simp add: zstore_cmds_def huge_def Parse_max)
end
