(* ===== verification/Keyspace.thy ===== *)
theory Keyspace
  imports Command StreamDS
begin

text \<open>
  The generic key commands: the lookup over all type prefixes with passive expiry
  (\<^verbatim>\<open>internal/commands/keyspace.go\<close>), \<^verbatim>\<open>TYPE\<close>, \<^verbatim>\<open>EXISTS\<close>, \<^verbatim>\<open>MOVE\<close>, \<^verbatim>\<open>RANDOMKEY\<close>, \<^verbatim>\<open>DEL\<close>, \<^verbatim>\<open>TOUCH\<close>, \<^verbatim>\<open>TTL\<close>, the
  expiry commands of \<^verbatim>\<open>expire.go\<close>, and the active expiry of \<^verbatim>\<open>expiry.go\<close>. A time is a number of
  nanoseconds; \<open>now\<close> is \<^verbatim>\<open>time.Now().UnixNano()\<close>.
\<close>

subsection \<open>Lookup (\<^verbatim>\<open>keyspace.go\<close>)\<close>

definition typePrefixes :: "string list" where
  "typePrefixes = [''s:'', ''h:'', ''l:'', ''st:'', ''z:'', ''hll:'', ''x:'', ''vs:'']"

fun lookup_loop ::
  "'s kv \<Rightarrow> int \<Rightarrow> string \<Rightarrow> string list \<Rightarrow> ('s world, (cmd_error, bytes \<times> Entry) res) state" where
  "lookup_loop K now key [] = State_Monad.return (Err (Stored ErrNotFound))"
| "lookup_loop K now key (p # ps) = do {
     r \<leftarrow> kget K (p @ key);
     (case r of
        Err e \<Rightarrow> if e \<noteq> ErrNotFound then State_Monad.return (Err (Stored e)) else lookup_loop K now key ps
      | Panic \<Rightarrow> State_Monad.return Panic
      | Ok val \<Rightarrow>
          (case Decode val of
             Err e \<Rightarrow> State_Monad.return (Err (Data e))
           | Panic \<Rightarrow> State_Monad.return Panic
           | Ok e \<Rightarrow>
               if Expiry e \<noteq> 0 \<and> Expiry e \<le> now then do {
                 _ \<leftarrow> kdel K (p @ key);
                 _ \<leftarrow> kdel K (HashExpKey key);
                 incExpired;
                 notify ''x'' ''expired'' key;
                 State_Monad.return (Err (Stored ErrNotFound))
               } else State_Monad.return (Ok (p @ key, e))))
   }"

definition lookupRaw :: "'s kv \<Rightarrow> int \<Rightarrow> string \<Rightarrow> ('s world, (cmd_error, bytes \<times> Entry) res) state" where
  "lookupRaw K now key = lookup_loop K now key typePrefixes"

definition getAny :: "'s kv \<Rightarrow> int \<Rightarrow> string \<Rightarrow> ('s world, (cmd_error, Entry) res) state" where
  "getAny K now key = do {
     r \<leftarrow> lookupRaw K now key;
     State_Monad.return (bind_res r (\<lambda>(_, e). Ok e))
   }"

definition typeName :: "char \<Rightarrow> string" where
  "typeName t =
     (if t = TypeString then ''string'' else if t = TypeHash then ''hash'' else if t = TypeList then ''list''
      else if t = TypeSet then ''set'' else if t = TypeZSet then ''zset'' else if t = TypeHLL then ''string''
      else if t = TypeStream then ''stream'' else if t = TypeVector then ''vectorset'' else ''none'')"

text \<open>The branch that most handlers share: \<^verbatim>\<open>if isNotFound(err) { return dflt }; return errValue(err)\<close>.\<close>

definition missing :: "'s kv \<Rightarrow> RVal \<Rightarrow> cmd_error \<Rightarrow> 's handler" where
  "missing K dflt e = (if isNotFound e then answer dflt else answer (errValue K e))"

definition type_cmd :: "'s kv \<Rightarrow> int \<Rightarrow> RVal list \<Rightarrow> 's handler" where
  "type_cmd K now args =
     (case args of
        [a] \<Rightarrow>
          (case argString a of
             None \<Rightarrow> fail ''ERR invalid key''
           | Some key \<Rightarrow> do {
               r \<leftarrow> getAny K now key;
               (case r of
                  Ok e \<Rightarrow> answer (SimpleString (typeName (Type e)))
                | Err e \<Rightarrow> missing K (SimpleString ''none'') e
                | Panic \<Rightarrow> crash)
             })
      | _ \<Rightarrow> fail (wrongargs ''type''))"

fun exists_loop :: "'s kv \<Rightarrow> int \<Rightarrow> RVal list \<Rightarrow> int \<Rightarrow> 's handler" where
  "exists_loop K now [] n = answer (Integer n)"
| "exists_loop K now (a # as) n =
     (case argString a of
        None \<Rightarrow> exists_loop K now as n
      | Some key \<Rightarrow> do {
          r \<leftarrow> getAny K now key;
          (case r of
             Ok _ \<Rightarrow> exists_loop K now as (n + 1)
           | Err e \<Rightarrow> if \<not> isNotFound e then answer (errValue K e) else exists_loop K now as n
           | Panic \<Rightarrow> crash)
        })"

definition exists_cmd :: "'s kv \<Rightarrow> int \<Rightarrow> RVal list \<Rightarrow> 's handler" where
  "exists_cmd K now args = (if length args < 1 then fail (wrongargs ''exists'') else exists_loop K now args 0)"

text \<open>The longest matching prefix is stripped.\<close>

definition stripTypePrefix :: "string \<Rightarrow> string option" where
  "stripTypePrefix k =
     (let best = foldl (\<lambda>best p. if HasPrefix k p \<and> length best < length p then p else best) [] typePrefixes
      in if best = [] then None else Some (drop (length best) k))"

fun user_keys_add :: "bytes list \<Rightarrow> (string \<times> bytes) list \<Rightarrow> (string \<times> bytes) list" where
  "user_keys_add [] acc = acc"
| "user_keys_add (k # ks) acc =
     (case stripTypePrefix k of
        None \<Rightarrow> user_keys_add ks acc
      | Some name \<Rightarrow>
          if name \<in> fst ` set acc then user_keys_add ks acc else user_keys_add ks (acc @ [(name, k)]))"

text \<open>The names with the stored keys, in the order of discovery.\<close>

fun user_keys_loop ::
  "'s kv \<Rightarrow> string list \<Rightarrow> (string \<times> bytes) list \<Rightarrow> ('s world, (cmd_error, (string \<times> bytes) list) res) state" where
  "user_keys_loop K [] acc = State_Monad.return (Ok acc)"
| "user_keys_loop K (p # ps) acc = do {
     r \<leftarrow> kscan K p;
     (case r of
        Err e \<Rightarrow> State_Monad.return (Err (Stored e))
      | Panic \<Rightarrow> State_Monad.return Panic
      | Ok raw \<Rightarrow> user_keys_loop K ps (user_keys_add raw acc))
   }"

definition allUserKeys :: "'s kv \<Rightarrow> ('s world, (cmd_error, (string \<times> bytes) list) res) state" where
  "allUserKeys K = user_keys_loop K typePrefixes []"

definition move :: "'s kv \<Rightarrow> int \<Rightarrow> RVal list \<Rightarrow> 's handler" where
  "move K now args =
     (case args of
        [a, b] \<Rightarrow>
          (case argString a of
             None \<Rightarrow> fail ''ERR invalid key''
           | Some key \<Rightarrow>
               (case Option.bind (argString b) ParseInt of
                  None \<Rightarrow> fail notint
                | Some dbi \<Rightarrow>
                    if dbi < 0 then fail ''ERR DB index is out of range''
                    else if dbi = 0 then fail ''ERR source and destination objects are the same''
                    else do {
                      r \<leftarrow> getAny K now key;
                      (case r of
                         Ok _ \<Rightarrow> answer (Integer 0)
                       | Err e \<Rightarrow> missing K (Integer 0) e
                       | Panic \<Rightarrow> crash)
                    }))
      | _ \<Rightarrow> fail (wrongargs ''move''))"

text \<open>\<open>intn\<close> is \<^verbatim>\<open>rand.Intn\<close>.\<close>

definition randomKey :: "'s kv \<Rightarrow> (nat \<Rightarrow> nat) \<Rightarrow> RVal list \<Rightarrow> 's handler" where
  "randomKey K intn args =
     (if args \<noteq> [] then fail (wrongargs ''randomkey'')
      else do {
        r \<leftarrow> allUserKeys K;
        (case r of
           Err e \<Rightarrow> answer (errValue K e)
         | Panic \<Rightarrow> crash
         | Ok names \<Rightarrow>
             if names = [] then answer NilBulk
             else answer (BulkOf (fst (names ! intn (length names)))))
      })"

subsection \<open>Deletion and inspection (\<^verbatim>\<open>string.go\<close>)\<close>

fun touch_loop :: "'s kv \<Rightarrow> int \<Rightarrow> RVal list \<Rightarrow> int \<Rightarrow> 's handler" where
  "touch_loop K now [] n = answer (Integer n)"
| "touch_loop K now (a # as) n =
     (case argString a of
        None \<Rightarrow> touch_loop K now as n
      | Some key \<Rightarrow> do {
          r \<leftarrow> lookupRaw K now key;
          (case r of Ok _ \<Rightarrow> touch_loop K now as (n + 1) | Err _ \<Rightarrow> touch_loop K now as n | Panic \<Rightarrow> crash)
        })"

definition touch :: "'s kv \<Rightarrow> int \<Rightarrow> RVal list \<Rightarrow> 's handler" where
  "touch K now args = (if length args < 1 then fail (wrongargs ''touch'') else touch_loop K now args 0)"

fun del_loop :: "'s kv \<Rightarrow> int \<Rightarrow> RVal list \<Rightarrow> int \<Rightarrow> 's handler" where
  "del_loop K now [] n = answer (Integer n)"
| "del_loop K now (a # as) n =
     (case argString a of
        None \<Rightarrow> del_loop K now as n
      | Some key \<Rightarrow> do {
          r \<leftarrow> lookupRaw K now key;
          (case r of
             Err _ \<Rightarrow> del_loop K now as n
           | Panic \<Rightarrow> crash
           | Ok (storeKey, e) \<Rightarrow> do {
               _ \<leftarrow> kdel K storeKey;
               _ \<leftarrow> (if Type e = TypeHash then kdel K (HashExpKey key) else State_Monad.return (Ok ()));
               notify ''g'' ''del'' key;
               del_loop K now as (n + 1)
             })
        })"

definition del :: "'s kv \<Rightarrow> int \<Rightarrow> RVal list \<Rightarrow> 's handler" where
  "del K now args = (if length args < 1 then fail (wrongargs ''del'') else del_loop K now args 0)"

text \<open>Go's integer division truncates towards zero; the divisors here are positive.\<close>

definition go_div :: "int \<Rightarrow> int \<Rightarrow> int" where
  "go_div a b = (if a < 0 then - ((- a) div b) else a div b)"

definition msec :: int where "msec = 1000000"
definition sec :: int where "sec = 1000000000"

text \<open>The shape of the commands with one key that only read its expiry.\<close>

definition expiry_reader ::
  "string \<Rightarrow> (int \<Rightarrow> int) \<Rightarrow> 's kv \<Rightarrow> int \<Rightarrow> RVal list \<Rightarrow> 's handler" where
  "expiry_reader name f K now args =
     (case args of
        [a] \<Rightarrow>
          (case argString a of
             None \<Rightarrow> fail ''ERR invalid key''
           | Some key \<Rightarrow> do {
               r \<leftarrow> getAny K now key;
               (case r of
                  Err e \<Rightarrow> missing K (Integer (-2)) e
                | Panic \<Rightarrow> crash
                | Ok e \<Rightarrow> if Expiry e = 0 then answer (Integer (-1)) else answer (Integer (f (Expiry e))))
             })
      | _ \<Rightarrow> fail (wrongargs name))"

definition ttl :: "'s kv \<Rightarrow> int \<Rightarrow> RVal list \<Rightarrow> 's handler" where
  "ttl K now = expiry_reader ''ttl'' (\<lambda>x. let ms = go_div (wrap64 (x - now)) msec in go_div (ms + 500) 1000) K now"

definition pttl :: "'s kv \<Rightarrow> int \<Rightarrow> RVal list \<Rightarrow> 's handler" where
  "pttl K now = expiry_reader ''pttl'' (\<lambda>x. let ms = go_div (wrap64 (x - now)) msec in if ms < 0 then 0 else ms) K now"

definition expireTime :: "bool \<Rightarrow> 's kv \<Rightarrow> int \<Rightarrow> RVal list \<Rightarrow> 's handler" where
  "expireTime ms = expiry_reader (if ms then ''pexpiretime'' else ''expiretime'')
     (\<lambda>x. if ms then go_div x msec else go_div x sec)"

subsection \<open>Setting the expiry (\<^verbatim>\<open>expire.go\<close>)\<close>

datatype expireKind = expireRelativeSec | expireRelativeMs | expireAbsoluteSec | expireAbsoluteMs

datatype expireCond = condNone | condNX | condXX | condGT | condLT

text \<open>\<^verbatim>\<open>time.Duration(n) * unit\<close> and \<^verbatim>\<open>UnixNano\<close> are 64-bit.\<close>

fun expire_at :: "int \<Rightarrow> expireKind \<Rightarrow> int \<Rightarrow> int" where
  "expire_at now expireRelativeSec n = wrap64 (now + wrap64 (n * sec))"
| "expire_at now expireRelativeMs n = wrap64 (now + wrap64 (n * msec))"
| "expire_at now expireAbsoluteSec n = wrap64 (n * sec)"
| "expire_at now expireAbsoluteMs n = wrap64 (n * msec)"

definition parse_cond :: "string \<Rightarrow> expireCond option" where
  "parse_cond name =
     (let u = ToUpper name in
      if u = ''NX'' then Some condNX else if u = ''XX'' then Some condXX
      else if u = ''GT'' then Some condGT else if u = ''LT'' then Some condLT else None)"

fun cond_holds :: "expireCond \<Rightarrow> int \<Rightarrow> int \<Rightarrow> bool" where
  "cond_holds condNone old exp = True"
| "cond_holds condNX old exp = (old = 0)"
| "cond_holds condXX old exp = (old \<noteq> 0)"
| "cond_holds condGT old exp = (\<not> (old \<noteq> 0 \<and> exp \<le> old))"
| "cond_holds condLT old exp = (\<not> (old = 0 \<or> old \<le> exp))"

definition expire_run :: "'s kv \<Rightarrow> int \<Rightarrow> string \<Rightarrow> int \<Rightarrow> expireCond \<Rightarrow> 's handler" where
  "expire_run K now key exp cond = do {
     g \<leftarrow> getAny K now key;
     (case g of
        Err e \<Rightarrow> missing K (Integer 0) e
      | Panic \<Rightarrow> crash
      | Ok e \<Rightarrow> do {
          r \<leftarrow> lookupRaw K now key;
          (case r of
             Err e' \<Rightarrow> answer (errValue K e')
           | Panic \<Rightarrow> crash
           | Ok (storeKey, _) \<Rightarrow>
               if exp \<le> now then do {
                 _ \<leftarrow> kdel K storeKey;
                 notify ''g'' ''del'' key;
                 answer (Integer 1)
               }
               else if \<not> cond_holds cond (Expiry e) exp then answer (Integer 0)
               else do {
                 s \<leftarrow> kset K storeKey (Encode (Type e) exp (Payload e));
                 (case s of
                    Err e' \<Rightarrow> answer (errValue K (Stored e'))
                  | Panic \<Rightarrow> crash
                  | Ok _ \<Rightarrow> do { notify ''g'' ''expire'' key; answer (Integer 1) })
               })
        })
   }"

definition expire :: "expireKind \<Rightarrow> 's kv \<Rightarrow> int \<Rightarrow> RVal list \<Rightarrow> 's handler" where
  "expire kind K now args =
     (if length args < 2 \<or> 3 < length args then fail (wrongargs ''expire'')
      else case argString (args ! 0) of
        None \<Rightarrow> fail ''ERR invalid key''
      | Some key \<Rightarrow>
          (case Option.bind (argString (args ! 1)) ParseInt of
             None \<Rightarrow> fail notint
           | Some n \<Rightarrow>
               (case (if length args = 3 then Option.bind (argString (args ! 2)) parse_cond else Some condNone) of
                  None \<Rightarrow> fail ''ERR syntax error''
                | Some cond \<Rightarrow> expire_run K now key (expire_at now kind n) cond)))"

definition persist :: "'s kv \<Rightarrow> int \<Rightarrow> RVal list \<Rightarrow> 's handler" where
  "persist K now args =
     (case args of
        [a] \<Rightarrow>
          (case argString a of
             None \<Rightarrow> fail ''ERR invalid key''
           | Some key \<Rightarrow> do {
               g \<leftarrow> getAny K now key;
               (case g of
                  Err e \<Rightarrow> missing K (Integer 0) e
                | Panic \<Rightarrow> crash
                | Ok e \<Rightarrow>
                    if Expiry e = 0 then answer (Integer 0)
                    else do {
                      r \<leftarrow> lookupRaw K now key;
                      (case r of
                         Err e' \<Rightarrow> answer (errValue K e')
                       | Panic \<Rightarrow> crash
                       | Ok (storeKey, _) \<Rightarrow> do {
                           s \<leftarrow> kset K storeKey (Encode (Type e) 0 (Payload e));
                           (case s of
                              Err e' \<Rightarrow> answer (errValue K (Stored e'))
                            | Panic \<Rightarrow> crash
                            | Ok _ \<Rightarrow> do { notify ''g'' ''persist'' key; answer (Integer 1) })
                         })
                    })
             })
      | _ \<Rightarrow> fail (wrongargs ''persist''))"

definition objectEncodingOf :: "Entry \<Rightarrow> string option" where
  "objectEncodingOf e =
     (let first = (\<lambda>n. Payload e \<noteq> [] \<and> hd (Payload e) = byte n) in
      if Type e = TypeHash then Some (if first 1 then ''hashtable'' else ''listpack'')
      else if Type e = TypeList then Some (if first 1 then ''quicklist'' else ''ziplist'')
      else if Type e = TypeSet then Some (if first 0 then ''intset'' else ''hashtable'')
      else if Type e = TypeZSet then Some (if first 1 then ''skiplist'' else ''listpack'')
      else if Type e = TypeString then Some (if length (Payload e) \<le> 44 then ''embstr'' else ''raw'')
      else None)"

text \<open>\<open>stats\<close> is \<^verbatim>\<open>ObjectStats\<close> of the store at the time of the call.\<close>

definition object ::
  "(bytes \<Rightarrow> (nat \<times> nat) option) \<Rightarrow> 's kv \<Rightarrow> int \<Rightarrow> RVal list \<Rightarrow> 's handler" where
  "object stats K now args =
     (case args of
        [a, b] \<Rightarrow>
          (case argString a of
             None \<Rightarrow> fail ''ERR syntax error''
           | Some sub \<Rightarrow>
               (let u = ToUpper sub in
                if u \<notin> {''REFCOUNT'', ''IDLETIME'', ''FREQ'', ''ENCODING''} then fail ''ERR syntax error''
                else case argString b of
                  None \<Rightarrow> fail ''ERR invalid key''
                | Some key \<Rightarrow> do {
                    r \<leftarrow> getAny K now key;
                    (case r of
                       Err e \<Rightarrow> missing K NilBulk e
                     | Panic \<Rightarrow> crash
                     | Ok e \<Rightarrow>
                         if u = ''ENCODING'' then
                           (case objectEncodingOf e of
                              None \<Rightarrow> fail ''ERR OBJECT ENCODING not supported for this type''
                            | Some enc \<Rightarrow> answer (BulkOf enc))
                         else if u = ''REFCOUNT'' then answer (Integer 1)
                         else
                           (let hits = List.map_filter (\<lambda>p. stats (p @ key)) typePrefixes in
                            case hits of
                              [] \<Rightarrow> answer (Integer 0)
                            | (idle, fr) # _ \<Rightarrow> answer (Integer (wrap64 (int (if u = ''IDLETIME'' then idle else fr))))))
                  }))
      | _ \<Rightarrow> fail (wrongargs ''object''))"

subsection \<open>Active expiry (\<^verbatim>\<open>expiry.go\<close>)\<close>

definition userKeyFromRaw :: "string \<Rightarrow> string" where
  "userKeyFromRaw raw =
     (case filter (HasPrefix raw) typePrefixes of [] \<Rightarrow> raw | p # _ \<Rightarrow> TrimPrefix raw p)"

text \<open>The result is the number of deleted keys, with the error that stopped the sweep, if any.\<close>

fun sweep_loop :: "'s kv \<Rightarrow> int \<Rightarrow> bytes list \<Rightarrow> nat \<Rightarrow> ('s world, nat \<times> cmd_error option) state" where
  "sweep_loop K now [] n = State_Monad.return (n, None)"
| "sweep_loop K now (k # ks) n = do {
     r \<leftarrow> kget K k;
     (case r of
        Err e \<Rightarrow> if e = ErrNotFound then sweep_loop K now ks n else State_Monad.return (n, Some (Stored e))
      | Panic \<Rightarrow> State_Monad.return (n, None)
      | Ok v \<Rightarrow>
          (case Decode v of
             Err e \<Rightarrow> State_Monad.return (n, Some (Data e))
           | Panic \<Rightarrow> State_Monad.return (n, None)
           | Ok entry \<Rightarrow>
               if Expiry entry = 0 \<or> now < Expiry entry then sweep_loop K now ks n
               else do {
                 d \<leftarrow> kdel K k;
                 (case d of
                    Err e \<Rightarrow> State_Monad.return (n, Some (Stored e))
                  | Panic \<Rightarrow> State_Monad.return (n, None)
                  | Ok _ \<Rightarrow> do {
                      incExpired;
                      notify ''x'' ''expired'' (userKeyFromRaw k);
                      sweep_loop K now ks (n + 1)
                    })
               }))
   }"

definition SweepOnce :: "'s kv \<Rightarrow> int \<Rightarrow> ('s world, nat \<times> cmd_error option) state" where
  "SweepOnce K now = do {
     r \<leftarrow> allUserKeys K;
     (case r of
        Err e \<Rightarrow> State_Monad.return (0, Some e)
      | Panic \<Rightarrow> State_Monad.return (0, None)
      | Ok names \<Rightarrow> sweep_loop K now (map snd names) 0)
   }"


subsection \<open>The handlers on a map\<close>

context kv_store
begin

lemma sim_lookup_loop [sim_intros]: "msim (lookup_loop K now key ps) (lookup_loop M now key ps)"
  by (induction ps) (simp_all only: lookup_loop.simps, (intro sim_intros; simp)+)

lemma sim_lookupRaw [sim_intros]: "msim (lookupRaw K now key) (lookupRaw M now key)"
  unfolding lookupRaw_def by (rule sim_lookup_loop)

lemma sim_getAny [sim_intros]: "msim (getAny K now key) (getAny M now key)"
  unfolding getAny_def by (intro sim_intros) simp

lemma sim_missing [sim_intros]: "msim (missing K dflt e) (missing M dflt e)"
  unfolding missing_def by (intro sim_intros) simp_all

lemma sim_type_cmd [sim_intros]: "msim (type_cmd K now args) (type_cmd M now args)"
  unfolding type_cmd_def by (intro sim_intros) simp_all

lemma sim_exists_loop [sim_intros]: "msim (exists_loop K now args n) (exists_loop M now args n)"
  by (induction args arbitrary: n) (simp_all only: exists_loop.simps, (intro sim_intros; simp)+)

lemma sim_exists_cmd [sim_intros]: "msim (exists_cmd K now args) (exists_cmd M now args)"
  unfolding exists_cmd_def by (intro sim_intros) simp_all

lemma sim_user_keys_loop [sim_intros]: "msim (user_keys_loop K ps acc) (user_keys_loop M ps acc)"
  by (induction ps arbitrary: acc) (simp_all only: user_keys_loop.simps, (intro sim_intros; simp)+)

lemma sim_allUserKeys [sim_intros]: "msim (allUserKeys K) (allUserKeys M)"
  unfolding allUserKeys_def by (rule sim_user_keys_loop)

lemma sim_move [sim_intros]: "msim (move K now args) (move M now args)"
  unfolding move_def by (intro sim_intros) simp_all

lemma sim_randomKey [sim_intros]: "msim (randomKey K intn args) (randomKey M intn args)"
  unfolding randomKey_def by (intro sim_intros) simp_all

lemma sim_touch_loop [sim_intros]: "msim (touch_loop K now args n) (touch_loop M now args n)"
  by (induction args arbitrary: n) (simp_all only: touch_loop.simps, (intro sim_intros; simp)+)

lemma sim_touch [sim_intros]: "msim (touch K now args) (touch M now args)"
  unfolding touch_def by (intro sim_intros) simp_all

lemma sim_del_loop [sim_intros]: "msim (del_loop K now args n) (del_loop M now args n)"
  by (induction args arbitrary: n) (simp_all only: del_loop.simps, (intro sim_intros; simp)+)

lemma sim_del [sim_intros]: "msim (del K now args) (del M now args)"
  unfolding del_def by (intro sim_intros) simp_all

lemma sim_expiry_reader [sim_intros]: "msim (expiry_reader name f K now args) (expiry_reader name f M now args)"
  unfolding expiry_reader_def by (intro sim_intros) simp_all

lemma sim_ttls [sim_intros]:
  "msim (ttl K now args) (ttl M now args)" "msim (pttl K now args) (pttl M now args)"
  "msim (expireTime b K now args) (expireTime b M now args)"
  unfolding ttl_def pttl_def expireTime_def by (intro sim_intros)+

lemma sim_expire_run [sim_intros]: "msim (expire_run K now key exp cond) (expire_run M now key exp cond)"
  unfolding expire_run_def by (intro sim_intros) simp_all

lemma sim_expire [sim_intros]: "msim (expire kind K now args) (expire kind M now args)"
  unfolding expire_def by (intro sim_intros) simp_all

lemma sim_persist [sim_intros]: "msim (persist K now args) (persist M now args)"
  unfolding persist_def by (intro sim_intros) simp_all

lemma sim_object [sim_intros]: "msim (object stats K now args) (object stats M now args)"
  unfolding object_def by (intro sim_intros) simp_all

lemma sim_sweep_loop [sim_intros]: "msim (sweep_loop K now ks n) (sweep_loop M now ks n)"
  by (induction ks arbitrary: n) (simp_all only: sweep_loop.simps, (intro sim_intros; simp)+)

lemma sim_SweepOnce [sim_intros]: "msim (SweepOnce K now) (SweepOnce M now)"
  unfolding SweepOnce_def by (intro sim_intros) simp_all

end

subsection \<open>Lookup on a map\<close>

text \<open>The prefixes are pairwise not prefixes of each other, so that a stored key has one prefix and one
  name.\<close>

lemma prefix_split:
  assumes "p \<in> set typePrefixes" "q \<in> set typePrefixes" "p @ a = q @ b"
  shows "p = q \<and> a = b"
  using assms by (auto simp: typePrefixes_def)

lemma raw_eq_iff:
  "p \<in> set typePrefixes \<Longrightarrow> q \<in> set typePrefixes \<Longrightarrow> p @ a = q @ b \<longleftrightarrow> p = q \<and> a = b"
  using prefix_split by blast

lemma keys_in [simp]:
  "''s:'' \<in> set typePrefixes" "''h:'' \<in> set typePrefixes" "''l:'' \<in> set typePrefixes" "''st:'' \<in> set typePrefixes"
  "''z:'' \<in> set typePrefixes" "''hll:'' \<in> set typePrefixes" "''x:'' \<in> set typePrefixes" "''vs:'' \<in> set typePrefixes"
  by (simp_all add: typePrefixes_def)

definition found :: "(bytes \<rightharpoonup> bytes) \<Rightarrow> string \<Rightarrow> string list \<Rightarrow> string option" where
  "found m key ps = find (\<lambda>p. m (p @ key) \<noteq> None) ps"

definition expired_at :: "int \<Rightarrow> Entry \<Rightarrow> bool" where
  "expired_at now e \<longleftrightarrow> Expiry e \<noteq> 0 \<and> Expiry e \<le> now"

definition lookup_m :: "(bytes \<rightharpoonup> bytes) \<Rightarrow> int \<Rightarrow> string \<Rightarrow> string list \<Rightarrow> (cmd_error, bytes \<times> Entry) res" where
  "lookup_m m now key ps =
     (case found m key ps of
        None \<Rightarrow> Err (Stored ErrNotFound)
      | Some p \<Rightarrow>
          (case Decode (the (m (p @ key))) of
             Err e \<Rightarrow> Err (Data e)
           | Panic \<Rightarrow> Panic
           | Ok e \<Rightarrow> if expired_at now e then Err (Stored ErrNotFound) else Ok (p @ key, e)))"

definition purge :: "int \<Rightarrow> string \<Rightarrow> string list \<Rightarrow> (bytes \<rightharpoonup> bytes) world \<Rightarrow> (bytes \<rightharpoonup> bytes) world" where
  "purge now key ps w =
     (case found (store w) key ps of
        None \<Rightarrow> w
      | Some p \<Rightarrow>
          (case Decode (the (store w (p @ key))) of
             Ok e \<Rightarrow>
               if expired_at now e
               then w\<lparr> store := (store w)(p @ key := None, HashExpKey key := None), expiredN := expiredN w + 1,
                       events := events w @ [(''x'', ''expired'', key)] \<rparr>
               else w
           | _ \<Rightarrow> w))"

lemma found_Cons: "found m key (p # ps) = (if m (p @ key) \<noteq> None then Some p else found m key ps)"
  by (simp add: found_def)

lemma run_lookup_loop:
  "run_state (lookup_loop (map_kv T) now key ps) w = (lookup_m (store w) now key ps, purge now key ps w)"
proof (induction ps)
  case Nil
  show ?case by (simp add: lookup_m_def purge_def found_def)
next
  case (Cons p ps)
  show ?case
  proof (cases "store w (p @ key)")
    case None
    with Cons show ?thesis by (simp add: runs lookup_m_def purge_def found_Cons)
  next
    case (Some v)
    then show ?thesis
      by (simp add: runs lookup_m_def purge_def found_Cons expired_at_def split: res.split)
  qed
qed

abbreviation lookup :: "(bytes \<rightharpoonup> bytes) \<Rightarrow> int \<Rightarrow> string \<Rightarrow> (cmd_error, bytes \<times> Entry) res" where
  "lookup m now key \<equiv> lookup_m m now key typePrefixes"

abbreviation purged :: "int \<Rightarrow> string \<Rightarrow> (bytes \<rightharpoonup> bytes) world \<Rightarrow> (bytes \<rightharpoonup> bytes) world" where
  "purged now key w \<equiv> purge now key typePrefixes w"

lemma run_lookupRaw [runs]:
  "run_state (lookupRaw (map_kv T) now key) w = (lookup (store w) now key, purged now key w)"
  by (simp add: lookupRaw_def run_lookup_loop)

lemma run_getAny [runs]:
  "run_state (getAny (map_kv T) now key) w = (bind_res (lookup (store w) now key) (\<lambda>(_, e). Ok e), purged now key w)"
  by (simp add: getAny_def runs)

lemma Decode_Panic [simp]: "Decode v \<noteq> Panic"
  by (simp add: Decode_def)

lemma lookup_Panic [simp]: "lookup_m m now key ps \<noteq> Panic"
  by (simp add: lookup_m_def split: option.split res.split)

lemma purge_hit: "lookup_m (store w) now key ps = Ok re \<Longrightarrow> purge now key ps w = w"
  by (auto simp: lookup_m_def purge_def split: option.splits res.splits if_splits)

lemma purge_undecodable: "lookup_m (store w) now key ps = Err (Data e) \<Longrightarrow> purge now key ps w = w"
  by (auto simp: lookup_m_def purge_def split: option.splits res.splits if_splits)

lemma lookup_Ok:
  assumes "lookup m now key = Ok (raw, e)"
  shows "\<exists>p \<in> set typePrefixes. raw = p @ key \<and> m raw \<noteq> None \<and> Decode (the (m raw)) = Ok e \<and> \<not> expired_at now e"
proof -
  from assms obtain p where p: "found m key typePrefixes = Some p" "raw = p @ key" "Decode (the (m raw)) = Ok e"
    "\<not> expired_at now e" by (auto simp: lookup_m_def split: option.splits res.splits if_splits)
  then have "p \<in> set typePrefixes \<and> m (p @ key) \<noteq> None"
    by (auto simp: found_def find_Some_iff)
  with p show ?thesis by blast
qed

lemma lookup_Err: "lookup m now key = Err e \<Longrightarrow> e = Stored ErrNotFound \<or> (\<exists>d. e = Data d)"
  by (auto simp: lookup_m_def split: option.splits res.splits if_splits)

subsection \<open>Well-formed stores\<close>

text \<open>The type tags of the cells under a prefix. A well-formed store has cells of one type per key; the
  cells with the field expiries of a hash, which share the prefix of the streams, are not part of it.\<close>

definition prefix_tags :: "string \<Rightarrow> char list" where
  "prefix_tags p =
     (if p = ''s:'' then [TypeString] else if p = ''h:'' then [TypeHash] else if p = ''l:'' then [TypeList]
      else if p = ''st:'' then [TypeSet] else if p = ''z:'' then [TypeZSet] else if p = ''hll:'' then [TypeHLL]
      else if p = ''x:'' then [TypeStream] else [TypeVector])"

definition cell_ok :: "string \<Rightarrow> bytes \<Rightarrow> bool" where
  "cell_ok p v \<longleftrightarrow> (\<exists>e. Decode v = Ok e \<and> Type e \<in> set (prefix_tags p))"

definition wf_store :: "(bytes \<rightharpoonup> bytes) \<Rightarrow> bool" where
  "wf_store m \<longleftrightarrow> finite (dom m)
     \<and> (\<forall>raw v. m raw = Some v \<longrightarrow> (\<exists>p \<in> set typePrefixes. \<exists>key. raw = p @ key \<and> cell_ok p v))
     \<and> (\<forall>p \<in> set typePrefixes. \<forall>q \<in> set typePrefixes. \<forall>key.
          m (p @ key) \<noteq> None \<longrightarrow> m (q @ key) \<noteq> None \<longrightarrow> p = q)"

text \<open>What a client sees: the live entry of each key.\<close>

definition dict :: "(bytes \<rightharpoonup> bytes) \<Rightarrow> int \<Rightarrow> string \<rightharpoonup> Entry" where
  "dict m now key = (case lookup m now key of Ok (_, e) \<Rightarrow> Some e | _ \<Rightarrow> None)"

lemma found_unique:
  assumes "wf_store m" "p \<in> set typePrefixes" "m (p @ key) = Some v"
  shows "found m key typePrefixes = Some p"
proof -
  have "found m key typePrefixes \<noteq> None" using assms by (auto simp: found_def find_None_iff)
  then obtain q where q: "found m key typePrefixes = Some q" by auto
  then have "q \<in> set typePrefixes" "m (q @ key) \<noteq> None" by (auto simp: found_def find_Some_iff)
  with assms have "q = p" by (auto simp: wf_store_def)
  with q show ?thesis by simp
qed

lemma wf_raw:
  "wf_store m \<Longrightarrow> m raw = Some v \<Longrightarrow> \<exists>p key. p \<in> set typePrefixes \<and> raw = p @ key \<and> cell_ok p v"
  unfolding wf_store_def by blast

lemma wf_cell:
  assumes "wf_store m" "p \<in> set typePrefixes" "m (p @ key) = Some v"
  shows "\<exists>e. Decode v = Ok e \<and> Type e \<in> set (prefix_tags p)"
proof -
  from wf_raw [OF assms(1,3)] obtain q k where "q \<in> set typePrefixes" "p @ key = q @ k" "cell_ok q v" by blast
  with prefix_split [OF assms(2) \<open>q \<in> set typePrefixes\<close> \<open>p @ key = q @ k\<close>] show ?thesis by (auto simp: cell_ok_def)
qed

lemma lookup_found:
  assumes "wf_store m" "p \<in> set typePrefixes" "m (p @ key) = Some v" "Decode v = Ok e"
  shows "lookup m now key = (if expired_at now e then Err (Stored ErrNotFound) else Ok (p @ key, e))"
  using assms found_unique [OF assms(1-3)] by (simp add: lookup_m_def)

lemma lookup_absent: "(\<And>p. p \<in> set typePrefixes \<Longrightarrow> m (p @ key) = None) \<Longrightarrow> lookup m now key = Err (Stored ErrNotFound)"
proof -
  assume "\<And>p. p \<in> set typePrefixes \<Longrightarrow> m (p @ key) = None"
  then have "found m key typePrefixes = None" by (auto simp: found_def find_None_iff)
  then show ?thesis by (simp add: lookup_m_def)
qed

lemma wf_delete: "wf_store m \<Longrightarrow> wf_store (m(raw := None))"
  by (auto simp: wf_store_def)

lemma wf_update:
  assumes "wf_store m" "p \<in> set typePrefixes" "cell_ok p v"
    and "\<And>q. q \<in> set typePrefixes \<Longrightarrow> q \<noteq> p \<Longrightarrow> m (q @ key) = None"
  shows "wf_store (m(p @ key \<mapsto> v))"
  unfolding wf_store_def
proof (intro conjI allI ballI impI)
  show "finite (dom (m(p @ key \<mapsto> v)))" using assms(1) by (simp add: wf_store_def)
next
  fix raw u assume "(m(p @ key \<mapsto> v)) raw = Some u"
  then show "\<exists>q \<in> set typePrefixes. \<exists>k. raw = q @ k \<and> cell_ok q u"
    using assms(1-3) by (auto simp: wf_store_def split: if_splits)
next
  fix q r k assume q: "q \<in> set typePrefixes" and r: "r \<in> set typePrefixes"
    and a: "(m(p @ key \<mapsto> v)) (q @ k) \<noteq> None" and b: "(m(p @ key \<mapsto> v)) (r @ k) \<noteq> None"
  show "q = r"
  proof (cases "k = key")
    case True
    then have "q = p" "r = p" using a b q r assms(4) raw_eq_iff [OF q assms(2)] raw_eq_iff [OF r assms(2)]
      by (auto split: if_splits)
    then show ?thesis by simp
  next
    case False
    then have "m (q @ k) \<noteq> None" "m (r @ k) \<noteq> None"
      using a b raw_eq_iff [OF q assms(2)] raw_eq_iff [OF r assms(2)] by (auto split: if_splits)
    then show ?thesis using assms(1) q r by (auto simp: wf_store_def)
  qed
qed

subsection \<open>Listing all keys\<close>

lemma strip_prefix: "p \<in> set typePrefixes \<Longrightarrow> stripTypePrefix (p @ key) = Some key"
  by (auto simp: typePrefixes_def stripTypePrefix_def HasPrefix_def)

lemma userKey_prefix: "p \<in> set typePrefixes \<Longrightarrow> userKeyFromRaw (p @ key) = key"
  by (auto simp: typePrefixes_def userKeyFromRaw_def HasPrefix_def TrimPrefix_def)

lemma user_keys_add_fresh:
  assumes "\<forall>k \<in> set ks. stripTypePrefix k = Some (f k)" "distinct (map f ks)" "fst ` set acc \<inter> f ` set ks = {}"
  shows "user_keys_add ks acc = acc @ map (\<lambda>k. (f k, k)) ks"
  using assms
proof (induction ks arbitrary: acc)
  case (Cons k ks)
  have "f k \<notin> fst ` set acc" using Cons.prems(3) by auto
  moreover have "user_keys_add ks (acc @ [(f k, k)]) = (acc @ [(f k, k)]) @ map (\<lambda>k. (f k, k)) ks"
    using Cons.prems by (intro Cons.IH) auto
  ultimately show ?case using Cons.prems(1) by simp
qed simp

definition raws_under :: "(bytes \<rightharpoonup> bytes) \<Rightarrow> string \<Rightarrow> bytes list" where
  "raws_under m p = sorted_list_of_set {k \<in> dom m. HasPrefix k p}"

lemma set_raws_under: "finite (dom m) \<Longrightarrow> set (raws_under m p) = {k \<in> dom m. HasPrefix k p}"
  by (simp add: raws_under_def)

lemma distinct_raws_under [simp]: "distinct (raws_under m p)"
  by (simp add: raws_under_def)

lemma raws_under_split: "finite (dom m) \<Longrightarrow> k \<in> set (raws_under m p) \<Longrightarrow> k = p @ drop (length p) k"
  by (auto simp: set_raws_under HasPrefix_iff)

lemma user_keys_loop_run:
  assumes "wf_store (store w)" "set ps \<subseteq> set typePrefixes" "distinct ps"
    and "\<forall>q \<in> set ps. \<forall>k. (k, q @ k) \<notin> set acc"
    and acc: "\<forall>k raw. (k, raw) \<in> set acc \<longrightarrow> (\<exists>q. q \<in> set typePrefixes \<and> q \<notin> set ps \<and> raw = q @ k \<and> store w raw \<noteq> None)"
  shows "run_state (user_keys_loop (map_kv T) ps acc) w
    = (Ok (acc @ concat (map (\<lambda>p. map (\<lambda>k. (drop (length p) k, k)) (raws_under (store w) p)) ps)), w)"
  using assms
proof (induction ps arbitrary: acc)
  case (Cons p ps)
  let ?m = "store w" and ?f = "drop (length p)"
  let ?new = "map (\<lambda>k. (?f k, k)) (raws_under ?m p)"
  have fin: "finite (dom ?m)" using Cons.prems(1) by (simp add: wf_store_def)
  have p: "p \<in> set typePrefixes" using Cons.prems(2) by simp
  have split: "k = p @ ?f k" if "k \<in> set (raws_under ?m p)" for k using raws_under_split [OF fin that] .
  have strip: "\<forall>k \<in> set (raws_under ?m p). stripTypePrefix k = Some (?f k)"
    using split strip_prefix [OF p] by metis
  have inj: "distinct (map ?f (raws_under ?m p))"
    unfolding distinct_map using split by (metis distinct_raws_under inj_onI)
  have fresh: "fst ` set acc \<inter> ?f ` set (raws_under ?m p) = {}"
  proof (rule ccontr)
    assume "\<not> ?thesis"
    then obtain k raw where k: "k \<in> set (raws_under ?m p)" "(?f k, raw) \<in> set acc" by force
    with Cons.prems(5) obtain q where q: "q \<in> set typePrefixes" "q \<notin> set (p # ps)" "raw = q @ ?f k" "?m raw \<noteq> None" by blast
    have "?m (p @ ?f k) \<noteq> None" using k(1) split [OF k(1)] fin by (auto simp: set_raws_under)
    with q p Cons.prems(1) have "p = q" by (auto simp: wf_store_def)
    with q(2) show False by simp
  qed
  have add: "user_keys_add (raws_under ?m p) acc = acc @ ?new"
    by (rule user_keys_add_fresh [OF strip inj fresh])
  have new: "raw = p @ k \<and> ?m raw \<noteq> None" if "(k, raw) \<in> set ?new" for k raw
    using that split fin by (auto simp: set_raws_under)
  have "run_state (user_keys_loop (map_kv T) ps (acc @ ?new)) w
      = (Ok ((acc @ ?new) @ concat (map (\<lambda>p. map (\<lambda>k. (drop (length p) k, k)) (raws_under ?m p)) ps)), w)"
  proof (rule Cons.IH)
    have "q = p" if "q \<in> set ps" "(k, q @ k) \<in> set ?new" for q k
      using new [OF that(2)] prefix_split [of q p k k] that(1) p Cons.prems(2) by auto
    moreover have "p \<notin> set ps" using Cons.prems(3) by simp
    ultimately have notnew: "(k, q @ k) \<notin> set ?new" if "q \<in> set ps" for q k using that by blast
    show "\<forall>q \<in> set ps. \<forall>k. (k, q @ k) \<notin> set (acc @ ?new)"
      using notnew Cons.prems(4) by (simp only: set_append Un_iff) simp
    show "\<forall>k raw. (k, raw) \<in> set (acc @ ?new) \<longrightarrow>
        (\<exists>q. q \<in> set typePrefixes \<and> q \<notin> set ps \<and> raw = q @ k \<and> ?m raw \<noteq> None)"
    proof (intro allI impI)
      fix k raw assume "(k, raw) \<in> set (acc @ ?new)"
      then consider "(k, raw) \<in> set acc" | "(k, raw) \<in> set ?new" by (auto simp only: set_append)
      then show "\<exists>q. q \<in> set typePrefixes \<and> q \<notin> set ps \<and> raw = q @ k \<and> ?m raw \<noteq> None"
      proof cases
        case 1
        with Cons.prems(5) show ?thesis by (meson list.set_intros(2))
      next
        case 2
        from new [OF this] p \<open>p \<notin> set ps\<close> show ?thesis by blast
      qed
    qed
  qed (use Cons.prems in auto)
  then show ?case by (simp add: runs raws_under_def [symmetric] add)
qed simp

definition all_raws :: "(bytes \<rightharpoonup> bytes) \<Rightarrow> bytes list" where
  "all_raws m = concat (map (raws_under m) typePrefixes)"

lemma allUserKeys_run:
  assumes "wf_store (store w)"
  shows "\<exists>names. run_state (allUserKeys (map_kv T)) w = (Ok names, w) \<and> map snd names = all_raws (store w)"
proof -
  have "run_state (allUserKeys (map_kv T)) w
      = (Ok ([] @ concat (map (\<lambda>p. map (\<lambda>k. (drop (length p) k, k)) (raws_under (store w) p)) typePrefixes)), w)"
    unfolding allUserKeys_def using assms
    by (intro user_keys_loop_run) (auto simp: typePrefixes_def)
  then show ?thesis by (simp add: all_raws_def map_concat comp_def)
qed

lemma all_raws_props:
  assumes "wf_store m"
  shows "set (all_raws m) = dom m" "distinct (all_raws m)"
proof -
  have fin: "finite (dom m)" using assms by (simp add: wf_store_def)
  have "k \<in> set (all_raws m)" if "k \<in> dom m" for k
  proof -
    from that obtain v where "m k = Some v" by blast
    from wf_raw [OF assms this] obtain p key where "p \<in> set typePrefixes" "k = p @ key" by blast
    with that fin show ?thesis by (auto simp: all_raws_def set_raws_under intro!: bexI [of _ p])
  qed
  then show "set (all_raws m) = dom m" using fin by (auto simp: all_raws_def set_raws_under)
  have disj: "set (raws_under m p) \<inter> set (raws_under m q) = {}"
    if "p \<in> set typePrefixes" "q \<in> set typePrefixes" "p \<noteq> q" for p q
  proof (rule ccontr)
    assume "\<not> ?thesis"
    then obtain k where "k = p @ drop (length p) k" "k = q @ drop (length q) k"
      using raws_under_split [OF fin] by (metis Int_iff ex_in_conv)
    then have "p @ drop (length p) k = q @ drop (length q) k" by simp
    with prefix_split that show False by blast
  qed
  have "distinct (concat (map (raws_under m) ps))" if "set ps \<subseteq> set typePrefixes" "distinct ps" for ps
    using that
  proof (induction ps)
    case (Cons p ps)
    have "set (raws_under m p) \<inter> set (concat (map (raws_under m) ps)) = {}"
      using disj [of p] Cons.prems by fastforce
    with Cons show ?case by simp
  qed simp
  moreover have "distinct typePrefixes" by (simp add: typePrefixes_def)
  ultimately show "distinct (all_raws m)" by (simp add: all_raws_def)
qed

definition raw_expired :: "(bytes \<rightharpoonup> bytes) \<Rightarrow> int \<Rightarrow> bytes \<Rightarrow> bool" where
  "raw_expired m now raw = (case m raw of None \<Rightarrow> False | Some v \<Rightarrow> (case Decode v of Ok e \<Rightarrow> expired_at now e | _ \<Rightarrow> False))"

lemma sweep_loop_run:
  assumes "\<forall>k \<in> set ks. \<exists>v e. store w k = Some v \<and> Decode v = Ok e" "distinct ks"
  shows "run_state (sweep_loop (map_kv T) now ks n) w =
    ((n + length (filter (raw_expired (store w) now) ks), None),
     w\<lparr> store := (\<lambda>k. if k \<in> set ks \<and> raw_expired (store w) now k then None else store w k),
        expiredN := expiredN w + length (filter (raw_expired (store w) now) ks),
        events := events w @ map (\<lambda>k. (''x'', ''expired'', userKeyFromRaw k)) (filter (raw_expired (store w) now) ks) \<rparr>)"
  using assms
proof (induction ks arbitrary: w n)
  case (Cons k ks)
  obtain v e where v: "store w k = Some v" "Decode v = Ok e" using Cons.prems(1) by auto
  show ?case
  proof (cases "expired_at now e")
    case False
    then have "\<not> raw_expired (store w) now k" by (simp add: raw_expired_def v)
    then have F: "(\<lambda>x. if x \<in> set (k # ks) \<and> raw_expired (store w) now x then None else store w x)
        = (\<lambda>x. if x \<in> set ks \<and> raw_expired (store w) now x then None else store w x)" by auto
    show ?thesis using False Cons \<open>\<not> raw_expired (store w) now k\<close>
      unfolding F by (auto simp: runs v expired_at_def)
  next
    case True
    let ?w = "w\<lparr> store := (store w)(k := None), expiredN := expiredN w + 1,
        events := events w @ [(''x'', ''expired'', userKeyFromRaw k)] \<rparr>"
    have k: "raw_expired (store w) now k" using True by (simp add: raw_expired_def v)
    have same: "raw_expired (store ?w) now x = raw_expired (store w) now x" if "x \<in> set ks" for x
      using that Cons.prems(2) by (auto simp: raw_expired_def)
    then have filt: "filter (raw_expired (store ?w) now) ks = filter (raw_expired (store w) now) ks"
      by (intro filter_cong) auto
    have st: "(\<lambda>x. if x \<in> set ks \<and> raw_expired (store ?w) now x then None else store ?w x)
        = (\<lambda>x. if x \<in> set (k # ks) \<and> raw_expired (store w) now x then None else store w x)"
      using k same by (intro ext) auto
    have cells: "\<forall>x \<in> set ks. \<exists>v e. store ?w x = Some v \<and> Decode v = Ok e" "distinct ks" using Cons.prems by auto
    have
      "run_state (sweep_loop (map_kv T) now ks (n + 1)) ?w =
        ((n + 1 + length (filter (raw_expired (store ?w) now) ks), None),
         ?w\<lparr> store := (\<lambda>x. if x \<in> set ks \<and> raw_expired (store ?w) now x then None else store ?w x),
            expiredN := expiredN ?w + length (filter (raw_expired (store ?w) now) ks),
            events := events ?w @ map (\<lambda>k. (''x'', ''expired'', userKeyFromRaw k)) (filter (raw_expired (store ?w) now) ks) \<rparr>)"
      by (rule Cons.IH [OF cells])
    then show ?thesis using True unfolding st filt
      by (simp add: runs v expired_at_def k)
  qed
qed simp

lemma SweepOnce_run:
  assumes "wf_store (store w)"
  shows "run_state (SweepOnce (map_kv T) now) w =
    ((card {raw \<in> dom (store w). raw_expired (store w) now raw}, None),
     w\<lparr> store := store w |` {raw. \<not> raw_expired (store w) now raw},
        expiredN := expiredN w + card {raw \<in> dom (store w). raw_expired (store w) now raw},
        events := events w @ map (\<lambda>k. (''x'', ''expired'', userKeyFromRaw k)) (filter (raw_expired (store w) now) (all_raws (store w))) \<rparr>)"
proof -
  let ?m = "store w" and ?ks = "all_raws (store w)"
  obtain names where names: "run_state (allUserKeys (map_kv T)) w = (Ok names, w)" "map snd names = ?ks"
    using allUserKeys_run [OF assms] by blast
  have "\<exists>v e. ?m k = Some v \<and> Decode v = Ok e" if "k \<in> set ?ks" for k
  proof -
    from that all_raws_props(1) [OF assms] obtain v where v: "?m k = Some v" by blast
    from wf_raw [OF assms v] v show ?thesis by (auto simp: cell_ok_def)
  qed
  then have S: "run_state (sweep_loop (map_kv T) now ?ks 0) w =
    ((0 + length (filter (raw_expired ?m now) ?ks), None),
     w\<lparr> store := (\<lambda>k. if k \<in> set ?ks \<and> raw_expired ?m now k then None else ?m k),
        expiredN := expiredN w + length (filter (raw_expired ?m now) ?ks),
        events := events w @ map (\<lambda>k. (''x'', ''expired'', userKeyFromRaw k)) (filter (raw_expired ?m now) ?ks) \<rparr>)"
    by (intro sweep_loop_run all_raws_props(2) [OF assms]) blast
  have "length (filter (raw_expired ?m now) ?ks) = card {raw \<in> dom ?m. raw_expired ?m now raw}"
    using all_raws_props [OF assms] distinct_card [of "filter (raw_expired ?m now) ?ks"] by simp
  moreover have "(\<lambda>k. if k \<in> set ?ks \<and> raw_expired ?m now k then None else ?m k) = ?m |` {raw. \<not> raw_expired ?m now raw}"
    using all_raws_props(1) [OF assms] by (auto simp: restrict_map_def domIff)
  ultimately show ?thesis using S by (simp add: SweepOnce_def names)
qed

lemma raw_expired_iff:
  assumes "wf_store m" "p \<in> set typePrefixes" "m (p @ key) = Some v" "Decode v = Ok e"
  shows "raw_expired m now (p @ key) \<longleftrightarrow> expired_at now e"
  using assms by (simp add: raw_expired_def)

lemma wf_restrict: "wf_store m \<Longrightarrow> wf_store (m |` A)"
  by (auto simp: wf_store_def restrict_map_def split: if_splits intro: finite_subset [of _ "dom m"])

text \<open>The entry of a key in a well-formed store, by the one prefix that holds it.\<close>

lemma dict_Some:
  assumes "wf_store m"
  shows "dict m now key = Some e \<longleftrightarrow>
    (\<exists>p v. p \<in> set typePrefixes \<and> m (p @ key) = Some v \<and> Decode v = Ok e \<and> \<not> expired_at now e)"
proof
  assume "dict m now key = Some e"
  then obtain raw where "lookup m now key = Ok (raw, e)" by (auto simp: dict_def split: res.splits)
  from lookup_Ok [OF this] show "\<exists>p v. p \<in> set typePrefixes \<and> m (p @ key) = Some v \<and> Decode v = Ok e \<and> \<not> expired_at now e"
    by auto
next
  assume "\<exists>p v. p \<in> set typePrefixes \<and> m (p @ key) = Some v \<and> Decode v = Ok e \<and> \<not> expired_at now e"
  then show "dict m now key = Some e" using lookup_found [OF assms] by (auto simp: dict_def)
qed

lemma dict_eqI: "(\<And>key e. dict m now key = Some e \<longleftrightarrow> dict m' now key = Some e) \<Longrightarrow> dict m now = dict m' now"
  by (rule ext) (metis not_None_eq)

lemma dict_restrict_live:
  assumes "wf_store m"
  shows "dict (m |` {raw. \<not> raw_expired m now raw}) now = dict m now"
proof (rule dict_eqI)
  fix key e
  show "dict (m |` {raw. \<not> raw_expired m now raw}) now key = Some e \<longleftrightarrow> dict m now key = Some e"
    unfolding dict_Some [OF assms] dict_Some [OF wf_restrict [OF assms]]
    by (auto simp: restrict_map_def raw_expired_def split: if_splits)
qed

lemma dict_update:
  assumes "wf_store m" "p \<in> set typePrefixes" "cell_ok p v" "Decode v = Ok e"
    and other: "\<And>q. q \<in> set typePrefixes \<Longrightarrow> q \<noteq> p \<Longrightarrow> m (q @ key) = None"
  shows "dict (m(p @ key \<mapsto> v)) now = (dict m now)(key := if expired_at now e then None else Some e)"
proof
  fix k
  have wf: "wf_store (m(p @ key \<mapsto> v))" by (rule wf_update [OF assms(1-3) other])
  show "dict (m(p @ key \<mapsto> v)) now k = ((dict m now)(key := if expired_at now e then None else Some e)) k"
  proof (cases "k = key")
    case True
    have "lookup (m(p @ key \<mapsto> v)) now key = (if expired_at now e then Err (Stored ErrNotFound) else Ok (p @ key, e))"
      using assms(2,4) by (intro lookup_found [OF wf]) simp_all
    with True show ?thesis by (simp add: dict_def)
  next
    case False
    have "(m(p @ key \<mapsto> v)) (q @ k) = m (q @ k)" if "q \<in> set typePrefixes" for q
      using raw_eq_iff [OF that assms(2)] False by simp
    then have "dict (m(p @ key \<mapsto> v)) now k = Some x \<longleftrightarrow> dict m now k = Some x" for x
      unfolding dict_Some [OF wf] dict_Some [OF assms(1)] by metis
    with False show ?thesis by (metis fun_upd_other not_None_eq)
  qed
qed

lemma wf_other:
  "wf_store m \<Longrightarrow> p \<in> set typePrefixes \<Longrightarrow> m (p @ key) \<noteq> None \<Longrightarrow> q \<in> set typePrefixes \<Longrightarrow> q \<noteq> p \<Longrightarrow> m (q @ key) = None"
  unfolding wf_store_def by blast

text \<open>Rewriting the cell of a live key with another expiry or payload.\<close>

lemma rewrite_cell:
  assumes "wf_store m" "lookup m now key = Ok (raw, e)" "int64_range x"
  shows "wf_store (m(raw \<mapsto> Encode (Type e) x v))"
    and "dict (m(raw \<mapsto> Encode (Type e) x v)) now' =
      (dict m now')(key := if expired_at now' (e\<lparr> Expiry := x, Payload := v \<rparr>) then None else Some (e\<lparr> Expiry := x, Payload := v \<rparr>))"
    and "x = 0 \<or> now < x \<Longrightarrow>
      lookup (m(raw \<mapsto> Encode (Type e) x v)) now key = Ok (raw, e\<lparr> Expiry := x, Payload := v \<rparr>)"
proof -
  from lookup_Ok [OF assms(2)] obtain p where p: "p \<in> set typePrefixes" "raw = p @ key" "m raw \<noteq> None" "Decode (the (m raw)) = Ok e"
    by blast
  then obtain u where u: "m (p @ key) = Some u" "Decode u = Ok e" by auto
  with wf_cell [OF assms(1) p(1) u(1)] have "Type e \<in> set (prefix_tags p)" by auto
  moreover have D: "Decode (Encode (Type e) x v) = Ok (e\<lparr> Expiry := x, Payload := v \<rparr>)"
    using Decode_Encode [OF assms(3)] by simp
  ultimately have c: "cell_ok p (Encode (Type e) x v)" by (simp add: cell_ok_def)
  have other: "m (q @ key) = None" if "q \<in> set typePrefixes" "q \<noteq> p" for q
    using wf_other [OF assms(1) p(1) _ that] u(1) by simp
  show wf: "wf_store (m(raw \<mapsto> Encode (Type e) x v))"
    unfolding p(2) by (rule wf_update [OF assms(1) p(1) c other])
  show "dict (m(raw \<mapsto> Encode (Type e) x v)) now' =
      (dict m now')(key := if expired_at now' (e\<lparr> Expiry := x, Payload := v \<rparr>) then None else Some (e\<lparr> Expiry := x, Payload := v \<rparr>))"
    unfolding p(2) by (rule dict_update [OF assms(1) p(1) c D other])
  show "lookup (m(raw \<mapsto> Encode (Type e) x v)) now key = Ok (raw, e\<lparr> Expiry := x, Payload := v \<rparr>)" if "x = 0 \<or> now < x"
    using lookup_found [OF wf [unfolded p(2)] p(1) _ D] that by (auto simp: p(2) expired_at_def)
qed

lemma dict_lookup: "dict m now key = Some e \<Longrightarrow> \<exists>raw. lookup m now key = Ok (raw, e)"
  by (auto simp: dict_def split: res.splits)

lemma run_expire_run:
  assumes "lookup (store w) now key = Ok (raw, e)"
  shows "run_state (expire_run (map_kv T) now key exp cond) w =
    (if exp \<le> now then (Ok (Integer 1), w\<lparr> store := (store w)(raw := None), events := events w @ [(''g'', ''del'', key)] \<rparr>)
     else if \<not> cond_holds cond (Expiry e) exp then (Ok (Integer 0), w)
     else (Ok (Integer 1), w\<lparr> store := (store w)(raw \<mapsto> Encode (Type e) exp (Payload e)),
                             events := events w @ [(''g'', ''expire'', key)] \<rparr>))"
  using assms purge_hit [OF assms] by (simp add: expire_run_def runs)

lemma run_persist:
  assumes "lookup (store w) now key = Ok (raw, e)"
  shows "run_state (persist (map_kv T) now [BulkString (Some key)]) w =
    (if Expiry e = 0 then (Ok (Integer 0), w)
     else (Ok (Integer 1), w\<lparr> store := (store w)(raw \<mapsto> Encode (Type e) 0 (Payload e)),
                             events := events w @ [(''g'', ''persist'', key)] \<rparr>))"
  using assms purge_hit [OF assms] by (simp add: persist_def runs bulk_def)

lemma run_expiry_reader:
  assumes "lookup (store w) now key = Ok (raw, e)"
  shows "run_state (expiry_reader name f (map_kv T) now [BulkString (Some key)]) w =
    (Ok (Integer (if Expiry e = 0 then -1 else f (Expiry e))), w)"
  using assms purge_hit [OF assms] by (simp add: expiry_reader_def runs bulk_def)

subsection \<open>The properties\<close>


definition sample_db :: "(bytes \<times> bytes) list" where
  "sample_db = [(''s:a'', EncodeString ''1'' 5), (''s:b'', EncodeString ''2'' 0)]"

definition sample_world :: "(bytes \<times> bytes) list Pebble world" where
  "sample_world = \<lparr> store = New sample_db None, events = [], expiredN = 0 \<rparr>"

lemma Decode_String: "int64_range x \<Longrightarrow> Decode (EncodeString v x) = Ok \<lparr> Type = TypeString, Expiry = x, Payload = v \<rparr>"
  by (simp add: EncodeString_def Decode_Encode)

lemma wf_empty: "wf_store Map.empty"
  by (simp add: wf_store_def)

lemma wf_string:
  assumes "wf_store m" "int64_range x" "\<And>q. q \<in> set typePrefixes \<Longrightarrow> q \<noteq> ''s:'' \<Longrightarrow> m (q @ key) = None"
  shows "wf_store (m(StringKey key \<mapsto> EncodeString v x))"
  unfolding StringKey_def using assms
  by (intro wf_update) (simp_all add: cell_ok_def prefix_tags_def Decode_String)

lemma sample_map:
  "map_of sample_db = Map.empty(StringKey ''b'' \<mapsto> EncodeString ''2'' 0, StringKey ''a'' \<mapsto> EncodeString ''1'' 5)"
  by (simp add: sample_db_def StringKey_def fun_upd_def fun_eq_iff)

lemma sample_wf: "wf_store (map_of sample_db)"
  unfolding sample_map
proof (intro wf_string wf_empty)
  fix q assume q: "q \<in> set typePrefixes" "q \<noteq> ''s:''"
  have "q @ ''a'' \<noteq> ''s:'' @ ''b''" using prefix_split [OF q(1) keys_in(1)] by blast
  then show "(Map.empty(StringKey ''b'' \<mapsto> EncodeString ''2'' 0)) (q @ ''a'') = None" by (simp add: StringKey_def)
qed (simp_all add: int64_range_def)

lemma sample_expired: "{raw \<in> dom (map_of sample_db). raw_expired (map_of sample_db) 10 raw} = {''s:a''}"
  by (auto simp: sample_db_def raw_expired_def Decode_String int64_range_def expired_at_def split: if_splits)



definition expiry_script :: "'s kv \<Rightarrow> int \<Rightarrow> string \<Rightarrow> int \<Rightarrow> ('s world, reply list) state" where
  "expiry_script K now key n = (let k = BulkString (Some key) in do {
     a \<leftarrow> expire expireRelativeSec K now [k, BulkString (Some (FormatInt n))];
     b \<leftarrow> ttl K now [k];
     c \<leftarrow> pttl K now [k];
     d \<leftarrow> persist K now [k];
     e \<leftarrow> ttl K now [k];
     State_Monad.return [a, b, c, d, e]
   })"

context kv_store
begin

lemma sim_expiry_script: "msim (expiry_script K now key n) (expiry_script M now key n)"
  unfolding expiry_script_def by (intro sim_intros) simp

end

lemma expiry_script_run:
  assumes "wf_store (store w)" "dict (store w) now key = Some e"
    and "0 < n" "0 \<le> now" "now + n * sec < 2 ^ 63"
  shows "fst (run_state (expiry_script (map_kv T) now key n) w)
      = [Ok (Integer 1), Ok (Integer n), Ok (Integer (1000 * n)), Ok (Integer 1), Ok (Integer (-1))]
    \<and> dict (store (snd (run_state (expiry_script (map_kv T) now key n) w))) now = (dict (store w) now)(key \<mapsto> e\<lparr> Expiry := 0 \<rparr>)"
proof -
  let ?x = "now + n * sec"
  have n: "int64_range n" "int64_range (n * sec)" "int64_range ?x" using assms(3-5) by (auto simp: int64_range_def sec_def)
  obtain raw where L: "lookup (store w) now key = Ok (raw, e)" using dict_lookup [OF assms(2)] by blast
  have x: "now < ?x" using assms(3) by (simp add: sec_def)
  let ?e1 = "e\<lparr> Expiry := ?x, Payload := Payload e \<rparr>"
  let ?w1 = "w\<lparr> store := (store w)(raw \<mapsto> Encode (Type e) ?x (Payload e)), events := events w @ [(''g'', ''expire'', key)] \<rparr>"
  have at: "expire_at now expireRelativeSec n = ?x" using n by (simp add: wrap64_id)
  have r1: "run_state (expire expireRelativeSec (map_kv T) now [BulkString (Some key), BulkString (Some (FormatInt n))]) w
      = (Ok (Integer 1), ?w1)"
    using run_expire_run [OF L, of T ?x condNone] x by (simp add: expire_def bulk_def ParseInt_FormatInt [OF n(1)] at del: expire_at.simps)
  note R1 = rewrite_cell [OF assms(1) L n(3), of "Payload e"]
  have L1: "lookup (store ?w1) now key = Ok (raw, ?e1)" using R1(3) x by simp
  have pos: "?x \<noteq> 0" using assms(3,4) by (simp add: sec_def)
  have ms: "go_div (wrap64 (?x - now)) msec = 1000 * n"
    using n(2) assms(3) by (simp add: wrap64_id go_div_def msec_def sec_def)
  have r2: "run_state (ttl (map_kv T) now [BulkString (Some key)]) ?w1 = (Ok (Integer n), ?w1)"
    unfolding ttl_def run_expiry_reader [OF L1] using pos ms assms(3) by (simp add: go_div_def)
  have r3: "run_state (pttl (map_kv T) now [BulkString (Some key)]) ?w1 = (Ok (Integer (1000 * n)), ?w1)"
    unfolding pttl_def run_expiry_reader [OF L1] using pos ms assms(3) by simp
  let ?w2 = "?w1\<lparr> store := (store ?w1)(raw \<mapsto> Encode (Type ?e1) 0 (Payload ?e1)), events := events ?w1 @ [(''g'', ''persist'', key)] \<rparr>"
  have r4: "run_state (persist (map_kv T) now [BulkString (Some key)]) ?w1 = (Ok (Integer 1), ?w2)"
    using run_persist [OF L1, of T] pos by simp
  have wf1: "wf_store (store ?w1)" using R1(1) by simp
  note R2 = rewrite_cell [OF wf1 L1, of 0 "Payload ?e1"]
  have L2: "lookup (store ?w2) now key = Ok (raw, ?e1\<lparr> Expiry := 0, Payload := Payload ?e1 \<rparr>)"
    using R2(3) by (simp add: int64_range_def)
  have r5: "run_state (ttl (map_kv T) now [BulkString (Some key)]) ?w2 = (Ok (Integer (-1)), ?w2)"
    unfolding ttl_def run_expiry_reader [OF L2] by simp
  have "dict (store ?w2) now = (dict (store w) now)(key \<mapsto> e\<lparr> Expiry := 0 \<rparr>)"
    using R2(2) [of now] R1(2) [of now] by (simp add: int64_range_def expired_at_def)
  then show ?thesis unfolding expiry_script_def Let_def by (simp only: State_Monad.run_state_bind State_Monad.run_state_return r1 r2 r3 r4 r5 prod.case fst_conv snd_conv simp_thms)
qed

text \<open>C27. Expiry commands agree with each other. For a live key of a well-formed store and a number of
  seconds that does not overflow, \<^verbatim>\<open>EXPIRE\<close> answers 1, \<^verbatim>\<open>TTL\<close> and \<^verbatim>\<open>PTTL\<close> at the same instant give back the
  seconds and milliseconds, \<^verbatim>\<open>PERSIST\<close> answers 1 and \<^verbatim>\<open>TTL\<close> then answers -1. The value and the type are
  unchanged, and no other key is touched.\<close>

theorem expire_ttl:
  assumes "kv_store K view live" "live (store w)" "wf_store (view (store w))"
    and "dict (view (store w)) now key = Some e" "0 < n" "0 \<le> now" "now + n * sec < 2 ^ 63"
    and "run_state (expiry_script K now key n) w = (rs, w')"
  shows "rs = [Ok (Integer 1), Ok (Integer n), Ok (Integer (1000 * n)), Ok (Integer 1), Ok (Integer (-1))]
    \<and> dict (view (store w')) now = (dict (view (store w)) now)(key \<mapsto> e\<lparr> Expiry := 0 \<rparr>)"
  using simD [OF kv_store.sim_expiry_script [OF assms(1)] assms(2), of now key n]
    expiry_script_run [of "absw view w" now key e n "kvText K"] assms(3-8) by simp

lemma sample_dict: "dict (map_of sample_db) 1 ''b'' = Some \<lparr> Type = TypeString, Expiry = 0, Payload = ''2'' \<rparr>"
  unfolding dict_Some [OF sample_wf]
  by (intro exI [of _ "''s:''"] exI [of _ "EncodeString ''2'' 0"])
    (simp add: sample_db_def Decode_String int64_range_def expired_at_def)

theorem expire_ttl_witness:
  "fst (run_state (expiry_script (pebble_kv memdb quiet_env) 1 ''b'' 30) sample_world)
    = [Ok (Integer 1), Ok (Integer 30), Ok (Integer 30000), Ok (Integer 1), Ok (Integer (-1))]"
  using expire_ttl [OF memdb.kv_store_axioms, of sample_world 1 "''b''" "\<lparr> Type = TypeString, Expiry = 0, Payload = ''2'' \<rparr>" 30
      "fst (run_state (expiry_script (pebble_kv memdb quiet_env) 1 ''b'' 30) sample_world)"
      "snd (run_state (expiry_script (pebble_kv memdb quiet_env) 1 ''b'' 30) sample_world)"]
  by (simp add: sample_world_def New_def sample_wf sample_dict sec_def)
end
