(* ===== verification/Dictionary.thy ===== *)
theory Dictionary
  imports Keyspace
begin

text \<open>
  The abstract contract of the commands on one key. A client sees a dictionary from keys to live
  entries (\<^const>\<open>dict\<close>); a command reads the entry of its key, answers, and keeps, removes or writes that
  entry. \<open>refines\<close> says that a handler on the store, with its prefixes, encodings and lazy expiry, does
  exactly this and keeps the store well-formed. The theories of the data types prove it for their
  handlers with the rule \<open>refines_key\<close>.
\<close>

subsection \<open>Actions on a dictionary\<close>

text \<open>\<^verbatim>\<open>Discard\<close> is a deletion whose error the source ignores.\<close>

datatype action = Keep | Remove char | Discard char | Write char int bytes

type_synonym cell_fn = "Entry option \<Rightarrow> reply \<times> action"
type_synonym spec = "reply + string \<times> cell_fn"

fun apply_action :: "int \<Rightarrow> string \<Rightarrow> action \<Rightarrow> (string \<rightharpoonup> Entry) \<Rightarrow> string \<rightharpoonup> Entry" where
  "apply_action now key Keep d = d"
| "apply_action now key (Remove t) d = d(key := None)"
| "apply_action now key (Discard t) d = d(key := None)"
| "apply_action now key (Write t x v) d =
     d(key := if x \<noteq> 0 \<and> x \<le> now then None else Some \<lparr> Type = t, Expiry = x, Payload = v \<rparr>)"

definition apply_spec :: "int \<Rightarrow> spec \<Rightarrow> (string \<rightharpoonup> Entry) \<Rightarrow> reply \<times> (string \<rightharpoonup> Entry)" where
  "apply_spec now S d =
     (case S of Inl r \<Rightarrow> (r, d) | Inr (key, f) \<Rightarrow> (case f (d key) of (r, a) \<Rightarrow> (r, apply_action now key a d)))"

definition refines :: "int \<Rightarrow> (bytes \<rightharpoonup> bytes) handler \<Rightarrow> spec \<Rightarrow> bool" where
  "refines now h S \<longleftrightarrow> (\<forall>w. wf_store (store w) \<longrightarrow>
     wf_store (store (snd (run_state h w)))
     \<and> (fst (run_state h w), dict (store (snd (run_state h w))) now) = apply_spec now S (dict (store w) now))"

lemma refinesD:
  assumes "refines now h S" "wf_store (store w)" "run_state h w = (r, w')"
  shows "wf_store (store w')" "(r, dict (store w') now) = apply_spec now S (dict (store w) now)"
  using assms by (auto simp: refines_def)

lemma refines_return [intro!, simp]: "refines now (State_Monad.return r) (Inl r)"
  by (simp add: refines_def apply_spec_def)

lemma refines_transfer:
  assumes "kv_store K view live" "sim view live h n" "refines now n S"
    and "live (store w)" "wf_store (view (store w))" "run_state h w = (r, w')"
  shows "live (store w') \<and> wf_store (view (store w')) \<and> (r, dict (view (store w')) now) = apply_spec now S (dict (view (store w)) now)"
  using simD [OF assms(2,4)] assms(3,5,6) by (simp add: refines_def)

subsection \<open>Actions on a store\<close>

definition prefix_of :: "char \<Rightarrow> string" where
  "prefix_of t =
     (if t = TypeString then ''s:'' else if t = TypeHash then ''h:'' else if t = TypeList then ''l:''
      else if t = TypeSet then ''st:'' else if t = TypeZSet then ''z:'' else if t = TypeHLL then ''hll:''
      else if t = TypeStream then ''x:'' else ''vs:'')"

definition valid_tag :: "char \<Rightarrow> bool" where
  "valid_tag t \<longleftrightarrow> t \<in> {TypeString, TypeHash, TypeList, TypeSet, TypeZSet, TypeHLL, TypeStream, TypeVector}"

lemma prefix_of_tags [simp]:
  "prefix_of TypeString = ''s:''" "prefix_of TypeHash = ''h:''" "prefix_of TypeList = ''l:''" "prefix_of TypeSet = ''st:''"
  "prefix_of TypeZSet = ''z:''" "prefix_of TypeHLL = ''hll:''" "prefix_of TypeStream = ''x:''" "prefix_of TypeVector = ''vs:''"
  by (simp_all add: prefix_of_def type_tag_defs)

lemma valid_tags [simp]:
  "valid_tag TypeString" "valid_tag TypeHash" "valid_tag TypeList" "valid_tag TypeSet"
  "valid_tag TypeZSet" "valid_tag TypeHLL" "valid_tag TypeStream" "valid_tag TypeVector"
  by (simp_all add: valid_tag_def)

lemma prefix_of_in [simp]: "prefix_of t \<in> set typePrefixes"
  by (simp add: prefix_of_def)

lemma prefix_of_tag: "valid_tag t \<Longrightarrow> t \<in> set (prefix_tags (prefix_of t))"
  by (auto simp: valid_tag_def prefix_tags_def)

lemma tag_prefix: "p \<in> set typePrefixes \<Longrightarrow> t \<in> set (prefix_tags p) \<Longrightarrow> prefix_of t = p"
  by (auto simp: typePrefixes_def prefix_tags_def)

fun act_store :: "string \<Rightarrow> action \<Rightarrow> (bytes \<rightharpoonup> bytes) \<Rightarrow> bytes \<rightharpoonup> bytes" where
  "act_store key Keep m = m"
| "act_store key (Remove t) m = m(prefix_of t @ key := None)"
| "act_store key (Discard t) m = m(prefix_of t @ key := None)"
| "act_store key (Write t x v) m = m(prefix_of t @ key \<mapsto> Encode t x v)"

fun act_ok :: "Entry option \<Rightarrow> action \<Rightarrow> bool" where
  "act_ok old Keep = True"
| "act_ok old (Remove t) = (\<forall>e. old = Some e \<longrightarrow> Type e = t)"
| "act_ok old (Discard t) = (\<forall>e. old = Some e \<longrightarrow> Type e = t)"
| "act_ok old (Write t x v) = (int64_range x \<and> valid_tag t \<and> (\<forall>e. old = Some e \<longrightarrow> Type e = t))"

lemma dict_remove:
  assumes "wf_store m" "p \<in> set typePrefixes" "m (p @ key) = Some v"
  shows "dict (m(p @ key := None)) now = (dict m now)(key := None)"
proof
  fix k
  let ?m = "m(p @ key := None)"
  have wf: "wf_store ?m" by (rule wf_delete [OF assms(1)])
  show "dict ?m now k = ((dict m now)(key := None)) k"
  proof (cases "k = key")
    case True
    have "?m (q @ key) = None" if "q \<in> set typePrefixes" for q
      using wf_other [OF assms(1,2) _ that] assms(3) by (cases "q = p") auto
    then have "lookup ?m now key = Err (Stored ErrNotFound)" by (rule lookup_absent)
    with True show ?thesis by (simp add: dict_def)
  next
    case False
    have "?m (q @ k) = m (q @ k)" if "q \<in> set typePrefixes" for q
      using raw_eq_iff [OF that assms(2)] False by simp
    then have "dict ?m now k = Some x \<longleftrightarrow> dict m now k = Some x" for x
      unfolding dict_Some [OF wf] dict_Some [OF assms(1)] by metis
    with False show ?thesis by (metis fun_upd_other not_None_eq)
  qed
qed

lemma act_hit:
  assumes "wf_store m" "lookup m now key = Ok (raw, e)" "act_ok (Some e) a"
  shows "wf_store (act_store key a m) \<and> dict (act_store key a m) now = apply_action now key a (dict m now)"
proof -
  from lookup_Ok [OF assms(2)] obtain p v where p: "p \<in> set typePrefixes" "raw = p @ key" "m (p @ key) = Some v" "Decode v = Ok e"
    by auto
  from wf_cell [OF assms(1) p(1,3)] p have t: "prefix_of (Type e) = p" by (auto intro: tag_prefix)
  show ?thesis
  proof (cases a)
    case (Remove t')
    with assms(3) t dict_remove [OF assms(1) p(1,3)] wf_delete [OF assms(1)] show ?thesis by auto
  next
    case (Discard t')
    with assms(3) t dict_remove [OF assms(1) p(1,3)] wf_delete [OF assms(1)] show ?thesis by auto
  next
    case (Write t' x u)
    with assms(3) have x: "int64_range x" "t' = Type e" by auto
    with Write t rewrite_cell(1,2) [OF assms(1,2) x(1)] show ?thesis
      by (simp add: p(2) expired_at_def) (cases e, simp)
  qed (simp add: assms(1))
qed

lemma act_miss:
  assumes "wf_store m" "\<And>p. p \<in> set typePrefixes \<Longrightarrow> m (p @ key) = None" "act_ok None a"
  shows "wf_store (act_store key a m) \<and> dict (act_store key a m) now = apply_action now key a (dict m now)"
proof (cases a)
  case (Write t x u)
  with assms(3) have x: "int64_range x" and t: "valid_tag t" by auto
  have D: "Decode (Encode t x u) = Ok \<lparr> Type = t, Expiry = x, Payload = u \<rparr>" by (rule Decode_Encode [OF x])
  then have c: "cell_ok (prefix_of t) (Encode t x u)" using prefix_of_tag [OF t] by (simp add: cell_ok_def)
  have "wf_store (m(prefix_of t @ key \<mapsto> Encode t x u))" by (rule wf_update [OF assms(1) _ c]) (simp_all add: assms(2))
  moreover have "dict (m(prefix_of t @ key \<mapsto> Encode t x u)) now
      = (dict m now)(key := if expired_at now \<lparr> Type = t, Expiry = x, Payload = u \<rparr> then None else Some \<lparr> Type = t, Expiry = x, Payload = u \<rparr>)"
    by (rule dict_update [OF assms(1) _ c D]) (simp_all add: assms(2))
  ultimately show ?thesis by (simp add: Write expired_at_def)
next
  case (Remove t)
  have "dict m now key = None" using lookup_absent [of m key now] assms(2) by (simp add: dict_def)
  with Remove assms show ?thesis by (simp add: fun_upd_idem)
next
  case (Discard t)
  have "dict m now key = None" using lookup_absent [of m key now] assms(2) by (simp add: dict_def)
  with Discard assms show ?thesis by (simp add: fun_upd_idem)
qed (use assms in simp_all)

subsection \<open>A lookup that misses\<close>

lemma Decode_range: "Decode v = Ok e \<Longrightarrow> int64_range (Expiry e)"
  by (auto simp: Decode_def split: if_splits)

lemma lookup_miss:
  assumes "wf_store (store w)" "lookup (store w) now key = Err e"
  shows "e = Stored ErrNotFound" "dict (store w) now key = None" "wf_store (store (purged now key w))"
    "dict (store (purged now key w)) now = dict (store w) now"
    "p \<in> set typePrefixes \<Longrightarrow> store (purged now key w) (p @ key) = None"
proof -
  let ?m = "store w"
  show none: "dict ?m now key = None" using assms(2) by (simp add: dict_def)
  have "e = Stored ErrNotFound \<and> wf_store (store (purged now key w)) \<and> dict (store (purged now key w)) now = dict ?m now
    \<and> (\<forall>p \<in> set typePrefixes. store (purged now key w) (p @ key) = None)"
  proof (cases "found ?m key typePrefixes")
    case None
    then have absent: "?m (p @ key) = None" if "p \<in> set typePrefixes" for p using that by (auto simp: found_def find_None_iff)
    have "purged now key w = w" by (simp add: purge_def None)
    moreover have "e = Stored ErrNotFound" using assms(2) by (simp add: lookup_m_def None)
    ultimately show ?thesis using assms(1) absent by simp
  next
    case (Some q)
    then have q: "q \<in> set typePrefixes" "?m (q @ key) \<noteq> None" by (auto simp: found_def find_Some_iff)
    then obtain v where v: "?m (q @ key) = Some v" by auto
    from wf_cell [OF assms(1) q(1) v] obtain x where x: "Decode v = Ok x" by blast
    have ex: "expired_at now x" and e: "e = Stored ErrNotFound"
      using assms(2) lookup_found [OF assms(1) q(1) v x, of now] by (auto split: if_splits)
    let ?m1 = "?m(q @ key := None)"
    have absent: "?m1 (p @ key) = None" if "p \<in> set typePrefixes" for p
      using wf_other [OF assms(1) q(1) _ that] v by (cases "p = q") auto
    have H: "HashExpKey key = ''x:'' @ key" by (simp add: HashExpKey_def)
    have "?m1(HashExpKey key := None) = ?m1"
      unfolding H by (rule fun_upd_idem) (rule absent, simp)
    then have s: "store (purged now key w) = ?m1" by (simp add: purge_def Some v x ex)
    have "dict ?m1 now = dict ?m now" using dict_remove [OF assms(1) q(1) v, of now] none by (simp add: fun_upd_idem)
    with s e absent wf_delete [OF assms(1)] show ?thesis by simp
  qed
  then show "e = Stored ErrNotFound" "wf_store (store (purged now key w))"
    "dict (store (purged now key w)) now = dict ?m now"
    "p \<in> set typePrefixes \<Longrightarrow> store (purged now key w) (p @ key) = None" by auto
qed

text \<open>The rule for a command on one key: its run when the key is absent, and when it is there.\<close>

lemma refines_key:
  assumes miss: "\<And>w. lookup (store w) now key = Err (Stored ErrNotFound) \<Longrightarrow>
      fst (run_state h w) = fst (f None) \<and> store (snd (run_state h w)) = act_store key (snd (f None)) (store (purged now key w))"
    and hit: "\<And>w raw e. lookup (store w) now key = Ok (raw, e) \<Longrightarrow> purged now key w = w \<Longrightarrow> raw = prefix_of (Type e) @ key \<Longrightarrow>
      fst (run_state h w) = fst (f (Some e)) \<and> store (snd (run_state h w)) = act_store key (snd (f (Some e))) (store w)"
    and ok: "act_ok None (snd (f None))" "\<And>e. int64_range (Expiry e) \<Longrightarrow> act_ok (Some e) (snd (f (Some e)))"
  shows "refines now h (Inr (key, f))"
  unfolding refines_def
proof (intro allI impI)
  fix w :: "(bytes \<rightharpoonup> bytes) world" assume wf: "wf_store (store w)"
  show "wf_store (store (snd (run_state h w)))
     \<and> (fst (run_state h w), dict (store (snd (run_state h w))) now) = apply_spec now (Inr (key, f)) (dict (store w) now)"
  proof (cases "lookup (store w) now key")
    case (Err e)
    note L = lookup_miss [OF wf Err]
    have "lookup (store w) now key = Err (Stored ErrNotFound)" using Err L(1) by simp
    note M = miss [OF this] and A = act_miss [OF L(3,5) ok(1), of now]
    show ?thesis unfolding apply_spec_def using M A by (simp add: L(2,4) case_prod_beta)
  next
    case (Ok re)
    then obtain raw e where L: "lookup (store w) now key = Ok (raw, e)" by (cases re) auto
    from lookup_Ok [OF L] obtain p v where p: "p \<in> set typePrefixes" "raw = p @ key" "store w (p @ key) = Some v" "Decode v = Ok e"
      by auto
    with wf_cell [OF wf p(1,3)] have raw: "raw = prefix_of (Type e) @ key" using tag_prefix [OF p(1)] by auto
    have d: "dict (store w) now key = Some e" by (simp add: dict_def L)
    have range: "int64_range (Expiry e)" using p(4) by (rule Decode_range)
    note H = hit [OF L purge_hit [OF L] raw] and A = act_hit [OF wf L ok(2) [OF range]]
    show ?thesis unfolding apply_spec_def using H A by (simp add: d case_prod_beta)
  qed simp
qed

end
