(* ===== verification/Strings.thy ===== *)
theory Strings
  imports Dictionary
begin

text \<open>
  The string commands of \<^verbatim>\<open>internal/commands\<close>: \<^verbatim>\<open>string.go\<close>, \<^verbatim>\<open>string_incr.go\<close>, \<^verbatim>\<open>string_extra.go\<close> and
  \<^verbatim>\<open>string_multi.go\<close>.
\<close>

subsection \<open>\<^verbatim>\<open>string.go\<close>\<close>

definition getEntry :: "'s kv \<Rightarrow> int \<Rightarrow> string \<Rightarrow> ('s world, (cmd_error, Entry) res) state" where
  "getEntry K now key = do {
     r \<leftarrow> getAny K now key;
     State_Monad.return (bind_res r (\<lambda>e. if Type e \<noteq> TypeString then Err (Message wrongtype) else Ok e))
   }"

record setOptions =
  opt_expiry :: int
  opt_keepTTL :: bool
  opt_nx :: bool
  opt_xx :: bool
  opt_get :: bool

text \<open>\<open>kind\<close> is compared as given: only the upper-case names set an expiry.\<close>

definition parseExpiry :: "int \<Rightarrow> string \<Rightarrow> string \<Rightarrow> (string, int) res" where
  "parseExpiry now kind s =
     (case ParseInt s of
        None \<Rightarrow> Err notint
      | Some n \<Rightarrow>
          if kind = ''EX'' then
            (if n \<le> 0 then Err ''ERR invalid expire time in 'set' command'' else Ok (wrap64 (now + wrap64 (n * sec))))
          else if kind = ''PX'' then
            (if n \<le> 0 then Err ''ERR invalid expire time in 'set' command'' else Ok (wrap64 (now + wrap64 (n * msec))))
          else if kind = ''EXAT'' then Ok (wrap64 (n * sec))
          else if kind = ''PXAT'' then Ok (wrap64 (n * msec))
          else Ok 0)"

fun parse_set_opts :: "int \<Rightarrow> RVal list \<Rightarrow> setOptions \<Rightarrow> (string, setOptions) res" where
  "parse_set_opts now [] opt = Ok opt"
| "parse_set_opts now (a # as) opt =
     (case argString a of
        None \<Rightarrow> Err ''ERR syntax error''
      | Some name \<Rightarrow>
          (let u = ToUpper name in
           if u = ''NX'' then parse_set_opts now as (opt\<lparr> opt_nx := True \<rparr>)
           else if u = ''XX'' then parse_set_opts now as (opt\<lparr> opt_xx := True \<rparr>)
           else if u = ''KEEPTTL'' then parse_set_opts now as (opt\<lparr> opt_keepTTL := True \<rparr>)
           else if u = ''GET'' then parse_set_opts now as (opt\<lparr> opt_get := True \<rparr>)
           else if u \<in> {''EX'', ''PX'', ''EXAT'', ''PXAT''} then
             (case as of
                [] \<Rightarrow> Err ''ERR syntax error''
              | b # bs \<Rightarrow>
                  (case argString b of
                     None \<Rightarrow> Err notint
                   | Some n \<Rightarrow>
                       bind_res (parseExpiry now name n) (\<lambda>exp. parse_set_opts now bs (opt\<lparr> opt_expiry := exp \<rparr>))))
           else Err ''ERR syntax error''))"

definition parseSetArgs :: "int \<Rightarrow> RVal list \<Rightarrow> (string, string \<times> setOptions) res" where
  "parseSetArgs now args =
     (if length args < 2 then Err (wrongargs ''set'')
      else case argString (args ! 1) of
        None \<Rightarrow> Err ''ERR invalid value''
      | Some v \<Rightarrow>
          bind_res (parse_set_opts now (drop 2 args)
            \<lparr> opt_expiry = 0, opt_keepTTL = False, opt_nx = False, opt_xx = False, opt_get = False \<rparr>)
            (\<lambda>opt. if opt_nx opt \<and> opt_xx opt then Err ''ERR syntax error'' else Ok (v, opt)))"

text \<open>The write that ends most handlers: store a cell, notify, answer.\<close>

definition put ::
  "'s kv \<Rightarrow> bytes \<Rightarrow> bytes \<Rightarrow> (string \<times> string \<times> string) list \<Rightarrow> RVal \<Rightarrow> 's handler" where
  "put K raw cell evs v = do {
     r \<leftarrow> kset K raw cell;
     (case r of
        Err e \<Rightarrow> answer (errValue K (Stored e))
      | Panic \<Rightarrow> crash
      | Ok _ \<Rightarrow> foldr (\<lambda>(c, e, k) m. do { notify c e k; m }) evs (answer v))
   }"

text \<open>A key that is not a bulk string is the empty key: \<^verbatim>\<open>key, _ := argString(args[0])\<close>.\<close>

definition key_or_empty :: "RVal \<Rightarrow> string" where
  "key_or_empty v = (case argString v of None \<Rightarrow> [] | Some s \<Rightarrow> s)"

definition set_cmd :: "'s kv \<Rightarrow> int \<Rightarrow> RVal list \<Rightarrow> 's handler" where
  "set_cmd K now args =
     (case parseSetArgs now args of
        Err msg \<Rightarrow> fail msg
      | Panic \<Rightarrow> crash
      | Ok (value, opt) \<Rightarrow>
          (let key = key_or_empty (args ! 0) in do {
             g \<leftarrow> getEntry K now key;
             (case g of
                Panic \<Rightarrow> crash
              | Err e \<Rightarrow>
                  if \<not> isNotFound e then answer (errValue K e)
                  else if opt_xx opt then answer NilBulk
                  else put K (StringKey key) (EncodeString value (opt_expiry opt)) [(''$'', ''set'', key)]
                    (if opt_get opt then NilBulk else SimpleString ''OK'')
              | Ok old \<Rightarrow>
                  if opt_nx opt then answer NilBulk
                  else put K (StringKey key)
                    (EncodeString value (if opt_keepTTL opt then Expiry old else opt_expiry opt)) [(''$'', ''set'', key)]
                    (if opt_get opt then BulkString (Some (Payload old)) else SimpleString ''OK''))
           }))"

text \<open>One key and a lookup of a string: \<open>miss\<close> answers when there is none.\<close>

definition string_reader :: "string \<Rightarrow> RVal \<Rightarrow> (string \<Rightarrow> Entry \<Rightarrow> 's handler) \<Rightarrow> 's kv \<Rightarrow> int \<Rightarrow> RVal list \<Rightarrow> 's handler" where
  "string_reader name miss f K now args =
     (case args of
        [a] \<Rightarrow>
          (case argString a of
             None \<Rightarrow> fail ''ERR invalid key''
           | Some key \<Rightarrow> do {
               r \<leftarrow> getEntry K now key;
               (case r of Err e \<Rightarrow> missing K miss e | Panic \<Rightarrow> crash | Ok e \<Rightarrow> f key e)
             })
      | _ \<Rightarrow> fail (wrongargs name))"

definition get_cmd :: "'s kv \<Rightarrow> int \<Rightarrow> RVal list \<Rightarrow> 's handler" where
  "get_cmd = string_reader ''get'' NilBulk (\<lambda>key e. answer (BulkString (Some (Payload e))))"

definition strlen :: "'s kv \<Rightarrow> int \<Rightarrow> RVal list \<Rightarrow> 's handler" where
  "strlen = string_reader ''strlen'' (Integer 0) (\<lambda>key e. answer (Integer (int (length (Payload e)))))"

definition getdel :: "'s kv \<Rightarrow> int \<Rightarrow> RVal list \<Rightarrow> 's handler" where
  "getdel K = string_reader ''getdel'' NilBulk (\<lambda>key e. do {
     _ \<leftarrow> kdel K (StringKey key);
     notify ''g'' ''del'' key;
     answer (BulkString (Some (Payload e)))
   }) K"

definition getset :: "'s kv \<Rightarrow> int \<Rightarrow> RVal list \<Rightarrow> 's handler" where
  "getset K now args =
     (case args of
        [a, b] \<Rightarrow>
          (case argString a of
             None \<Rightarrow> fail ''ERR invalid key''
           | Some key \<Rightarrow>
               (case argString b of
                  None \<Rightarrow> fail ''ERR invalid value''
                | Some value \<Rightarrow> do {
                    g \<leftarrow> getEntry K now key;
                    (case g of
                       Panic \<Rightarrow> crash
                     | Err e \<Rightarrow>
                         if \<not> isNotFound e then answer (errValue K e)
                         else put K (StringKey key) (EncodeString value 0) [(''$'', ''set'', key)] NilBulk
                     | Ok old \<Rightarrow>
                         put K (StringKey key) (EncodeString value 0) [(''$'', ''set'', key)]
                           (BulkString (Some (Payload old))))
                  }))
      | _ \<Rightarrow> fail (wrongargs ''getset''))"

definition setWithTTL :: "string \<Rightarrow> int \<Rightarrow> 's kv \<Rightarrow> int \<Rightarrow> RVal list \<Rightarrow> 's handler" where
  "setWithTTL name unit K now args =
     (case args of
        [a, b, c] \<Rightarrow>
          (case argString a of
             None \<Rightarrow> fail ''ERR invalid key''
           | Some key \<Rightarrow>
               (case argString b of
                  None \<Rightarrow> fail notint
                | Some ttlStr \<Rightarrow>
                    (case argString c of
                       None \<Rightarrow> fail ''ERR invalid value''
                     | Some value \<Rightarrow>
                         (case ParseInt ttlStr of
                            None \<Rightarrow> fail notint
                          | Some n \<Rightarrow>
                              if n \<le> 0 then fail (''ERR invalid expire time in '' @ [CHR 0x27] @ name @ [CHR 0x27] @ '' command'')
                              else put K (StringKey key) (EncodeString value (wrap64 (now + wrap64 (n * unit))))
                                [(''$'', ''set'', key), (''g'', ''expire'', key)] (SimpleString ''OK'')))))
      | _ \<Rightarrow> fail (wrongargs name))"

definition setex :: "'s kv \<Rightarrow> int \<Rightarrow> RVal list \<Rightarrow> 's handler" where
  "setex = setWithTTL ''setex'' sec"

definition psetex :: "'s kv \<Rightarrow> int \<Rightarrow> RVal list \<Rightarrow> 's handler" where
  "psetex = setWithTTL ''psetex'' msec"

definition setnx :: "'s kv \<Rightarrow> int \<Rightarrow> RVal list \<Rightarrow> 's handler" where
  "setnx K now args =
     (case args of
        [a, b] \<Rightarrow>
          (case argString a of
             None \<Rightarrow> fail ''ERR invalid key''
           | Some key \<Rightarrow>
               (case argString b of
                  None \<Rightarrow> fail ''ERR invalid value''
                | Some value \<Rightarrow> do {
                    g \<leftarrow> getAny K now key;
                    (case g of
                       Ok _ \<Rightarrow> answer (Integer 0)
                     | Panic \<Rightarrow> crash
                     | Err e \<Rightarrow>
                         if \<not> isNotFound e then answer (errValue K e)
                         else put K (StringKey key) (EncodeString value 0) [(''$'', ''set'', key)] (Integer 1))
                  }))
      | _ \<Rightarrow> fail (wrongargs ''setnx''))"

definition getex_expiry :: "int \<Rightarrow> RVal list \<Rightarrow> int \<Rightarrow> (string, int) res" where
  "getex_expiry now args old =
     (case args of
        [_, a, b] \<Rightarrow>
          (case (argString a, argString b) of
             (Some name, Some n) \<Rightarrow>
               (let u = ToUpper name in
                if u = ''PERSIST'' then Ok 0
                else if u \<in> {''EX'', ''PX'', ''EXAT'', ''PXAT''} then parseExpiry now u n
                else Err ''ERR syntax error'')
           | _ \<Rightarrow> Err ''ERR syntax error'')
      | [_, _] \<Rightarrow> Err ''ERR syntax error''
      | _ \<Rightarrow> Ok old)"

definition getex :: "'s kv \<Rightarrow> int \<Rightarrow> RVal list \<Rightarrow> 's handler" where
  "getex K now args =
     (if length args < 1 \<or> 3 < length args then fail (wrongargs ''getex'')
      else case argString (args ! 0) of
        None \<Rightarrow> fail ''ERR invalid key''
      | Some key \<Rightarrow> do {
          g \<leftarrow> getEntry K now key;
          (case g of
             Err e \<Rightarrow> missing K NilBulk e
           | Panic \<Rightarrow> crash
           | Ok e \<Rightarrow>
               (case getex_expiry now args (Expiry e) of
                  Err msg \<Rightarrow> fail msg
                | Panic \<Rightarrow> crash
                | Ok expiry \<Rightarrow>
                    if expiry \<noteq> Expiry e
                    then put K (StringKey key) (EncodeString (Payload e) expiry) [] (BulkString (Some (Payload e)))
                    else answer (BulkString (Some (Payload e)))))
        })"

subsection \<open>\<^verbatim>\<open>string_incr.go\<close>\<close>

text \<open>The overflow test of the source on 64-bit numbers, where the differences cannot wrap.\<close>

definition incr_overflows :: "int \<Rightarrow> int \<Rightarrow> bool" where
  "incr_overflows cur delta \<longleftrightarrow>
     (0 < delta \<and> wrap64 ((2 ^ 63 - 1) - delta) < cur) \<or> (delta < 0 \<and> cur < wrap64 (- (2 ^ 63) - delta))"

definition incrBy :: "'s kv \<Rightarrow> int \<Rightarrow> int \<Rightarrow> RVal list \<Rightarrow> 's handler" where
  "incrBy K delta now args =
     (case args of
        [a] \<Rightarrow>
          (case argString a of
             None \<Rightarrow> fail ''ERR invalid key''
           | Some key \<Rightarrow> do {
               g \<leftarrow> getEntry K now key;
               (case (case g of
                        Ok e \<Rightarrow> (case ParseInt (Payload e) of None \<Rightarrow> Err notint | Some cur \<Rightarrow> Ok (cur, Expiry e))
                      | Err e \<Rightarrow> if isNotFound e then Ok (0, 0) else Err (err_text K e)
                      | Panic \<Rightarrow> Panic) of
                  Err msg \<Rightarrow> fail msg
                | Panic \<Rightarrow> crash
                | Ok (cur, expiry) \<Rightarrow>
                    if incr_overflows cur delta then fail ''ERR increment or decrement would overflow''
                    else
                      (let nxt = wrap64 (cur + delta) in
                       put K (StringKey key) (EncodeString (FormatInt nxt) expiry) [(''$'', ''incrby'', key)] (Integer nxt)))
             })
      | _ \<Rightarrow> fail (wrongargs ''incr''))"

definition incr :: "'s kv \<Rightarrow> int \<Rightarrow> RVal list \<Rightarrow> 's handler" where
  "incr K = incrBy K 1"

definition decr :: "'s kv \<Rightarrow> int \<Rightarrow> RVal list \<Rightarrow> 's handler" where
  "decr K = incrBy K (-1)"

definition incrby :: "'s kv \<Rightarrow> int \<Rightarrow> RVal list \<Rightarrow> 's handler" where
  "incrby K now args =
     (case args of
        [a, b] \<Rightarrow>
          (case Option.bind (argString b) ParseInt of None \<Rightarrow> fail notint | Some n \<Rightarrow> incrBy K n now [a])
      | _ \<Rightarrow> fail (wrongargs ''incrby''))"

text \<open>\<^verbatim>\<open>-n\<close> of the smallest number is itself.\<close>

definition decrby :: "'s kv \<Rightarrow> int \<Rightarrow> RVal list \<Rightarrow> 's handler" where
  "decrby K now args =
     (case args of
        [a, b] \<Rightarrow>
          (case Option.bind (argString b) ParseInt of None \<Rightarrow> fail notint | Some n \<Rightarrow> incrBy K (wrap64 (- n)) now [a])
      | _ \<Rightarrow> fail (wrongargs ''decrby''))"

definition incrbyfloat ::
  "'s kv \<Rightarrow> int \<Rightarrow> RVal list \<Rightarrow> 's handler" where
  "incrbyfloat K now args =
     (case args of
        [a, b] \<Rightarrow>
          (case argString a of
             None \<Rightarrow> fail ''ERR invalid key''
           | Some key \<Rightarrow>
               (case Option.bind (argString b) ParseFloat of
                  None \<Rightarrow> fail ''ERR value is not a valid float''
                | Some delta \<Rightarrow> do {
                    g \<leftarrow> getEntry K now key;
                    (case (case g of
                             Ok e \<Rightarrow> (case ParseFloat (Payload e) of None \<Rightarrow> Err ''ERR value is not a valid float'' | Some cur \<Rightarrow> Ok (cur, Expiry e))
                           | Err e \<Rightarrow> if isNotFound e then Ok (0, 0) else Err (err_text K e)
                           | Panic \<Rightarrow> Panic) of
                       Err msg \<Rightarrow> fail msg
                     | Panic \<Rightarrow> crash
                     | Ok (cur, expiry) \<Rightarrow>
                         (let out = FormatFloat fmtF (f64_add cur delta) in
                          put K (StringKey key) (EncodeString out expiry) [(''$'', ''incrbyfloat'', key)] (BulkString (Some out))))
                  }))
      | _ \<Rightarrow> fail (wrongargs ''incrbyfloat''))"

subsection \<open>\<^verbatim>\<open>string_extra.go\<close>\<close>

text \<open>The current value and expiry, both empty when there is no key.\<close>

definition base_of :: "'s kv \<Rightarrow> (cmd_error, Entry) res \<Rightarrow> (string, bytes \<times> int) res" where
  "base_of K g =
     (case g of
        Ok e \<Rightarrow> Ok (Payload e, Expiry e)
      | Err e \<Rightarrow> if isNotFound e then Ok ([], 0) else Err (err_text K e)
      | Panic \<Rightarrow> Panic)"

definition append_cmd :: "'s kv \<Rightarrow> int \<Rightarrow> RVal list \<Rightarrow> 's handler" where
  "append_cmd K now args =
     (case args of
        [a, b] \<Rightarrow>
          (case argString a of
             None \<Rightarrow> fail ''ERR invalid key''
           | Some key \<Rightarrow>
               (case argString b of
                  None \<Rightarrow> fail ''ERR invalid value''
                | Some val \<Rightarrow> do {
                    g \<leftarrow> getEntry K now key;
                    (case base_of K g of
                       Err msg \<Rightarrow> fail msg
                     | Panic \<Rightarrow> crash
                     | Ok (cur, expiry) \<Rightarrow>
                         (let out = cur @ val in
                          put K (StringKey key) (EncodeString out expiry) [(''$'', ''append'', key)] (Integer (int (length out)))))
                  }))
      | _ \<Rightarrow> fail (wrongargs ''append''))"

text \<open>\<^verbatim>\<open>make([]byte, n)\<close> panics on a length below zero or beyond the address space;
  \<^verbatim>\<open>copy(out[offset:], val)\<close> copies what fits.\<close>

definition setrange_bytes :: "bytes \<Rightarrow> int \<Rightarrow> bytes \<Rightarrow> (unit, bytes \<times> int) res" where
  "setrange_bytes cur offset val =
     (let en = wrap64 (offset + int (length val));
          newLen = (if int (length cur) < en then en else int (length cur))
      in if \<not> make_bytes_ok newLen \<or> newLen < offset then Panic
         else let out = take (nat newLen) (cur @ replicate (nat newLen) (byte 0)) in
           Ok (take (nat offset) out @ take (nat newLen - nat offset) val @ drop (nat offset + length val) out, newLen))"

definition setrange :: "'s kv \<Rightarrow> int \<Rightarrow> RVal list \<Rightarrow> 's handler" where
  "setrange K now args =
     (case args of
        [a, b, c] \<Rightarrow>
          (case argString a of
             None \<Rightarrow> fail ''ERR invalid key''
           | Some key \<Rightarrow>
               (case argString b of
                  None \<Rightarrow> fail notint
                | Some offStr \<Rightarrow>
                    (case ParseInt offStr of
                       None \<Rightarrow> fail ''ERR offset is out of range''
                     | Some offset \<Rightarrow>
                         if offset < 0 then fail ''ERR offset is out of range''
                         else case argString c of
                           None \<Rightarrow> fail ''ERR invalid value''
                         | Some val \<Rightarrow> do {
                             g \<leftarrow> getEntry K now key;
                             (case base_of K g of
                                Err msg \<Rightarrow> fail msg
                              | Panic \<Rightarrow> crash
                              | Ok (cur, expiry) \<Rightarrow>
                                  (case setrange_bytes cur offset val of
                                     Ok (out, newLen) \<Rightarrow>
                                       put K (StringKey key) (EncodeString out expiry) [(''$'', ''setrange'', key)] (Integer newLen)
                                   | _ \<Rightarrow> crash))
                           })))
      | _ \<Rightarrow> fail (wrongargs ''setrange''))"

definition getrange_bytes :: "bytes \<Rightarrow> int \<Rightarrow> int \<Rightarrow> bytes" where
  "getrange_bytes p start0 end0 =
     (let n = int (length p);
          start1 = (if start0 < 0 then start0 + n else start0);
          end1 = (if end0 < 0 then end0 + n else end0);
          start = (if start1 < 0 then 0 else start1);
          en = (if n \<le> end1 then n - 1 else end1)
      in if en < start \<or> n \<le> start then [] else take (nat (en + 1 - start)) (drop (nat start) p))"

definition getrange :: "'s kv \<Rightarrow> int \<Rightarrow> RVal list \<Rightarrow> 's handler" where
  "getrange K now args =
     (case args of
        [a, b, c] \<Rightarrow>
          (case argString a of
             None \<Rightarrow> fail ''ERR invalid key''
           | Some key \<Rightarrow>
               (case (Option.bind (argString b) ParseInt, Option.bind (argString c) ParseInt) of
                  (Some start, Some en) \<Rightarrow> do {
                    g \<leftarrow> getEntry K now key;
                    (case g of
                       Err e \<Rightarrow> missing K (BulkOf []) e
                     | Panic \<Rightarrow> crash
                     | Ok e \<Rightarrow> answer (BulkString (Some (getrange_bytes (Payload e) start en))))
                  }
                | _ \<Rightarrow> fail notint))
      | _ \<Rightarrow> fail (wrongargs ''getrange''))"

subsection \<open>\<^verbatim>\<open>string_multi.go\<close>\<close>

fun mset_ops :: "RVal list \<Rightarrow> (string, (string \<times> string) list) res" where
  "mset_ops (a # b # rest) =
     (case argString a of
        None \<Rightarrow> Err ''ERR invalid key''
      | Some key \<Rightarrow>
          (case argString b of
             None \<Rightarrow> Err ''ERR invalid value''
           | Some val \<Rightarrow> bind_res (mset_ops rest) (\<lambda>ps. Ok ((key, val) # ps))))"
| "mset_ops _ = Ok []"

definition set_batch :: "string \<times> string \<Rightarrow> BatchOp" where
  "set_batch kv = \<lparr> BKey = StringKey (fst kv), BValue = EncodeString (snd kv) 0, BDelete = False \<rparr>"

definition mset_cmd :: "'s kv \<Rightarrow> int \<Rightarrow> RVal list \<Rightarrow> 's handler" where
  "mset_cmd K now args =
     (if length args < 2 \<or> length args mod 2 \<noteq> 0 then fail (wrongargs ''mset'')
      else case mset_ops args of
        Err msg \<Rightarrow> fail msg
      | Panic \<Rightarrow> crash
      | Ok ps \<Rightarrow> do {
          r \<leftarrow> kbatch K (map set_batch ps);
          (case r of
             Err e \<Rightarrow> answer (errValue K (Stored e))
           | Panic \<Rightarrow> crash
           | Ok _ \<Rightarrow> foldr (\<lambda>(k, _) m. do { notify ''$'' ''set'' k; m }) ps (answer (SimpleString ''OK'')))
        })"

fun mget_loop :: "'s kv \<Rightarrow> int \<Rightarrow> RVal list \<Rightarrow> RVal list \<Rightarrow> 's handler" where
  "mget_loop K now [] out = answer (Array (Some out))"
| "mget_loop K now (a # as) out =
     (case argString a of
        None \<Rightarrow> fail ''ERR invalid key''
      | Some key \<Rightarrow> do {
          g \<leftarrow> getEntry K now key;
          (case g of
             Ok e \<Rightarrow> mget_loop K now as (out @ [BulkString (Some (Payload e))])
           | Err e \<Rightarrow> if isNotFound e then mget_loop K now as (out @ [Null]) else answer (errValue K e)
           | Panic \<Rightarrow> crash)
        })"

definition mget :: "'s kv \<Rightarrow> int \<Rightarrow> RVal list \<Rightarrow> 's handler" where
  "mget K now args = (if length args < 1 then fail (wrongargs ''mget'') else mget_loop K now args [])"

fun msetnx_write :: "'s kv \<Rightarrow> RVal list \<Rightarrow> 's handler" where
  "msetnx_write K (a # b # rest) = do {
     r \<leftarrow> kset K (StringKey (key_or_empty a)) (EncodeString (key_or_empty b) 0);
     (case r of Err e \<Rightarrow> answer (errValue K (Stored e)) | Panic \<Rightarrow> crash | Ok _ \<Rightarrow> msetnx_write K rest)
   }"
| "msetnx_write K _ = answer (Integer 1)"

fun msetnx_check :: "'s kv \<Rightarrow> int \<Rightarrow> RVal list \<Rightarrow> RVal list \<Rightarrow> 's handler" where
  "msetnx_check K now all (a # b # rest) =
     (case argString a of
        None \<Rightarrow> fail ''ERR invalid key''
      | Some key \<Rightarrow> do {
          g \<leftarrow> getEntry K now key;
          (case g of
             Ok _ \<Rightarrow> answer (Integer 0)
           | Err e \<Rightarrow> if \<not> isNotFound e then answer (errValue K e) else msetnx_check K now all rest
           | Panic \<Rightarrow> crash)
        })"
| "msetnx_check K now all _ = msetnx_write K all"

definition msetnx :: "'s kv \<Rightarrow> int \<Rightarrow> RVal list \<Rightarrow> 's handler" where
  "msetnx K now args =
     (if length args < 2 \<or> length args mod 2 \<noteq> 0 then fail (wrongargs ''msetnx'') else msetnx_check K now args args)"

subsection \<open>Simulation\<close>

context kv_store
begin

lemma sim_getEntry [sim_intros]: "msim (getEntry K now key) (getEntry M now key)"
  unfolding getEntry_def by (intro sim_intros) simp

lemma sim_notify_all [sim_intros]:
  "msim m n \<Longrightarrow> msim (foldr (\<lambda>(c, e, k) m. do { notify c e k; m }) evs m) (foldr (\<lambda>(c, e, k) m. do { notify c e k; m }) evs n)"
  by (induction evs) (auto intro!: sim_intros)

lemma sim_notify_pairs [sim_intros]:
  "msim m n \<Longrightarrow> msim (foldr (\<lambda>(k, _) m. do { notify c e k; m }) ps m) (foldr (\<lambda>(k, _) m. do { notify c e k; m }) ps n)"
  by (induction ps) (auto intro!: sim_intros)

lemma sim_put [sim_intros]: "msim (put K raw cell evs v) (put M raw cell evs v)"
  unfolding put_def by (intro sim_intros) simp_all

lemma sim_set_cmd [sim_intros]: "msim (set_cmd K now args) (set_cmd M now args)"
  unfolding set_cmd_def by (intro sim_intros) simp_all

lemma sim_string_reader [sim_intros]:
  "(\<And>key e. msim (f key e) (g key e)) \<Longrightarrow> msim (string_reader name miss f K now args) (string_reader name miss g M now args)"
  unfolding string_reader_def by (intro sim_intros) simp_all

lemma sim_string_readers [sim_intros]:
  "msim (get_cmd K now args) (get_cmd M now args)" "msim (strlen K now args) (strlen M now args)"
  "msim (getdel K now args) (getdel M now args)"
  unfolding get_cmd_def strlen_def getdel_def by (intro sim_intros; simp)+

lemma sim_getset [sim_intros]: "msim (getset K now args) (getset M now args)"
  unfolding getset_def by (intro sim_intros) simp_all

lemma sim_setWithTTL [sim_intros]: "msim (setWithTTL name unit K now args) (setWithTTL name unit M now args)"
  unfolding setWithTTL_def by (intro sim_intros) simp_all

lemma sim_setexes [sim_intros]:
  "msim (setex K now args) (setex M now args)" "msim (psetex K now args) (psetex M now args)"
  unfolding setex_def psetex_def by (intro sim_intros)+

lemma sim_setnx [sim_intros]: "msim (setnx K now args) (setnx M now args)"
  unfolding setnx_def by (intro sim_intros) simp_all

lemma sim_getex [sim_intros]: "msim (getex K now args) (getex M now args)"
  unfolding getex_def by (intro sim_intros) simp_all

lemma err_text_M [simp]: "err_text M e = err_text K e"
  by (rule err_text_map_kv)

lemma base_of_M [simp]: "base_of M g = base_of K g"
  by (simp add: base_of_def split: res.split)

lemma sim_incrBy [sim_intros]: "msim (incrBy K delta now args) (incrBy M delta now args)"
  unfolding incrBy_def err_text_M by (intro sim_intros) simp_all

lemma sim_incrs [sim_intros]:
  "msim (incr K now args) (incr M now args)" "msim (decr K now args) (decr M now args)"
  "msim (incrby K now args) (incrby M now args)" "msim (decrby K now args) (decrby M now args)"
  unfolding incr_def decr_def incrby_def decrby_def by (intro sim_intros; simp)+

lemma sim_incrbyfloat [sim_intros]: "msim (incrbyfloat K now args) (incrbyfloat M now args)"
  unfolding incrbyfloat_def err_text_M by (intro sim_intros) simp_all

lemma sim_append_cmd [sim_intros]: "msim (append_cmd K now args) (append_cmd M now args)"
  unfolding append_cmd_def base_of_M by (intro sim_intros) simp_all

lemma sim_setrange [sim_intros]: "msim (setrange K now args) (setrange M now args)"
  unfolding setrange_def base_of_M by (intro sim_intros) simp_all

lemma sim_getrange [sim_intros]: "msim (getrange K now args) (getrange M now args)"
  unfolding getrange_def by (intro sim_intros) simp_all

lemma sim_mset_cmd [sim_intros]: "msim (mset_cmd K now args) (mset_cmd M now args)"
  unfolding mset_cmd_def by (intro sim_intros) simp_all

lemma sim_mget_loop [sim_intros]: "msim (mget_loop K now args out) (mget_loop M now args out)"
  by (induction args arbitrary: out) (simp_all only: mget_loop.simps, (intro sim_intros; simp)+)

lemma sim_mget [sim_intros]: "msim (mget K now args) (mget M now args)"
  unfolding mget_def by (intro sim_intros) simp_all

lemma sim_msetnx_write [sim_intros]: "msim (msetnx_write K args) (msetnx_write M args)"
  by (induction args rule: induct_list012) (simp_all only: msetnx_write.simps, (intro sim_intros; simp)+)

lemma sim_msetnx_check [sim_intros]: "msim (msetnx_check K now all args) (msetnx_check M now all args)"
  by (induction args rule: induct_list012) (simp_all only: msetnx_check.simps, (intro sim_intros; simp)+)

lemma sim_msetnx [sim_intros]: "msim (msetnx K now args) (msetnx M now args)"
  unfolding msetnx_def by (intro sim_intros) simp_all

end


subsection \<open>Runs on a map\<close>

lemma run_notify_all:
  "run_state (foldr (\<lambda>(c, e, k) m. do { notify c e k; m }) evs m) w = run_state m (w\<lparr> events := events w @ evs \<rparr>)"
  by (induction evs arbitrary: w) (auto simp: runs)

lemma run_put [runs]:
  "run_state (put (map_kv T) raw cell evs v) w = (Ok v, w\<lparr> store := (store w)(raw \<mapsto> cell), events := events w @ evs \<rparr>)"
  by (simp add: put_def runs run_notify_all)

lemma run_getEntry [runs]:
  "run_state (getEntry (map_kv T) now key) w =
     (bind_res (lookup (store w) now key) (\<lambda>(_, e). if Type e \<noteq> TypeString then Err (Message wrongtype) else Ok e), purged now key w)"
  by (cases "lookup (store w) now key") (auto simp: getEntry_def runs)

lemma EncodeString_Encode: "EncodeString v x = Encode TypeString x v"
  by (simp add: EncodeString_def)

subsection \<open>What the commands on one key promise\<close>

text \<open>Every command of this group reads the entry of its key and answers \<^verbatim>\<open>WRONGTYPE\<close> when it is not a
  string.\<close>

definition on_string :: "cell_fn \<Rightarrow> cell_fn" where
  "on_string f old =
     (case old of
        Some e \<Rightarrow> if Type e \<noteq> TypeString then (Ok (RError wrongtype), Keep) else f old
      | None \<Rightarrow> f None)"

definition with_key :: "RVal \<Rightarrow> (string \<Rightarrow> spec) \<Rightarrow> spec" where
  "with_key a f = (case argString a of None \<Rightarrow> Inl (Ok (RError ''ERR invalid key'')) | Some key \<Rightarrow> f key)"

definition with_value :: "RVal \<Rightarrow> (string \<Rightarrow> spec) \<Rightarrow> spec" where
  "with_value a f = (case argString a of None \<Rightarrow> Inl (Ok (RError ''ERR invalid value'')) | Some v \<Rightarrow> f v)"

definition refuse :: "string \<Rightarrow> reply + 'b" where
  "refuse msg = Inl (Ok (RError msg))"

definition set_spec :: "int \<Rightarrow> RVal list \<Rightarrow> spec" where
  "set_spec now args =
     (case parseSetArgs now args of
        Err msg \<Rightarrow> refuse msg
      | Panic \<Rightarrow> Inl Panic
      | Ok (v, opt) \<Rightarrow> Inr (key_or_empty (args ! 0), on_string (\<lambda>old.
          case old of
            None \<Rightarrow>
              if opt_xx opt then (Ok NilBulk, Keep)
              else (Ok (if opt_get opt then NilBulk else SimpleString ''OK''), Write TypeString (opt_expiry opt) v)
          | Some e \<Rightarrow>
              if opt_nx opt then (Ok NilBulk, Keep)
              else (Ok (if opt_get opt then BulkString (Some (Payload e)) else SimpleString ''OK''),
                    Write TypeString (if opt_keepTTL opt then Expiry e else opt_expiry opt) v))))"

definition read_spec :: "string \<Rightarrow> RVal \<Rightarrow> (Entry \<Rightarrow> RVal \<times> action) \<Rightarrow> RVal list \<Rightarrow> spec" where
  "read_spec name miss f args =
     (case args of
        [a] \<Rightarrow> with_key a (\<lambda>key. Inr (key, on_string (\<lambda>old.
          case old of None \<Rightarrow> (Ok miss, Keep) | Some e \<Rightarrow> (case f e of (v, act) \<Rightarrow> (Ok v, act)))))
      | _ \<Rightarrow> refuse (wrongargs name))"

definition getset_spec :: "RVal list \<Rightarrow> spec" where
  "getset_spec args =
     (case args of
        [a, b] \<Rightarrow> with_key a (\<lambda>key. with_value b (\<lambda>v. Inr (key, on_string (\<lambda>old.
          (Ok (case old of None \<Rightarrow> NilBulk | Some e \<Rightarrow> BulkString (Some (Payload e))), Write TypeString 0 v)))))
      | _ \<Rightarrow> refuse (wrongargs ''getset''))"

definition setnx_spec :: "RVal list \<Rightarrow> spec" where
  "setnx_spec args =
     (case args of
        [a, b] \<Rightarrow> with_key a (\<lambda>key. with_value b (\<lambda>v. Inr (key, \<lambda>old.
          case old of None \<Rightarrow> (Ok (Integer 1), Write TypeString 0 v) | Some e \<Rightarrow> (Ok (Integer 0), Keep))))
      | _ \<Rightarrow> refuse (wrongargs ''setnx''))"

text \<open>Numbers are added exactly; a sum outside 64 bits is refused and nothing is written.\<close>

definition add_fn :: "int \<Rightarrow> cell_fn" where
  "add_fn delta = on_string (\<lambda>old.
     case (case old of None \<Rightarrow> Some 0 | Some e \<Rightarrow> ParseInt (Payload e)) of
       None \<Rightarrow> (Ok (RError notint), Keep)
     | Some cur \<Rightarrow>
         if int64_range (cur + delta)
         then (Ok (Integer (cur + delta)), Write TypeString (case old of None \<Rightarrow> 0 | Some e \<Rightarrow> Expiry e) (FormatInt (cur + delta)))
         else (Ok (RError ''ERR increment or decrement would overflow''), Keep))"

definition add_spec :: "int \<Rightarrow> RVal list \<Rightarrow> spec" where
  "add_spec delta args =
     (case args of [a] \<Rightarrow> with_key a (\<lambda>key. Inr (key, add_fn delta)) | _ \<Rightarrow> refuse (wrongargs ''incr''))"

definition addby_spec :: "string \<Rightarrow> (int \<Rightarrow> int) \<Rightarrow> RVal list \<Rightarrow> spec" where
  "addby_spec name f args =
     (case args of
        [a, b] \<Rightarrow> (case Option.bind (argString b) ParseInt of None \<Rightarrow> refuse notint | Some n \<Rightarrow> add_spec (f n) [a])
      | _ \<Rightarrow> refuse (wrongargs name))"

text \<open>\<^verbatim>\<open>APPEND\<close> and \<^verbatim>\<open>SETRANGE\<close> change the bytes and keep the expiry.\<close>

definition edit_fn :: "(bytes \<Rightarrow> (bytes \<times> int) option) \<Rightarrow> cell_fn" where
  "edit_fn f = on_string (\<lambda>old.
     case f (case old of None \<Rightarrow> [] | Some e \<Rightarrow> Payload e) of
       None \<Rightarrow> (Panic, Keep)
     | Some (out, n) \<Rightarrow> (Ok (Integer n), Write TypeString (case old of None \<Rightarrow> 0 | Some e \<Rightarrow> Expiry e) out))"

definition append_spec :: "RVal list \<Rightarrow> spec" where
  "append_spec args =
     (case args of
        [a, b] \<Rightarrow> with_key a (\<lambda>key. with_value b (\<lambda>v. Inr (key, edit_fn (\<lambda>cur. Some (cur @ v, int (length cur + length v))))))
      | _ \<Rightarrow> refuse (wrongargs ''append''))"

definition setrange_spec :: "RVal list \<Rightarrow> spec" where
  "setrange_spec args =
     (case args of
        [a, b, c] \<Rightarrow> with_key a (\<lambda>key.
          case argString b of
            None \<Rightarrow> refuse notint
          | Some s \<Rightarrow>
              (case ParseInt s of
                 None \<Rightarrow> refuse ''ERR offset is out of range''
               | Some off \<Rightarrow>
                   if off < 0 then refuse ''ERR offset is out of range''
                   else with_value c (\<lambda>v. Inr (key, edit_fn (\<lambda>cur.
                     case setrange_bytes cur off v of Ok on \<Rightarrow> Some on | _ \<Rightarrow> None)))))
      | _ \<Rightarrow> refuse (wrongargs ''setrange''))"

text \<open>The substring between two indices that may count from the end.\<close>

definition slice_between :: "bytes \<Rightarrow> int \<Rightarrow> int \<Rightarrow> bytes" where
  "slice_between p i j =
     (let n = int (length p); from_end = (\<lambda>k. if k < 0 then k + n else k)
      in map (\<lambda>k. p ! nat k) (filter (\<lambda>k. from_end i \<le> k \<and> k \<le> from_end j) [0..n - 1]))"

definition getrange_spec :: "RVal list \<Rightarrow> spec" where
  "getrange_spec args =
     (case args of
        [a, b, c] \<Rightarrow> with_key a (\<lambda>key.
          case (Option.bind (argString b) ParseInt, Option.bind (argString c) ParseInt) of
            (Some i, Some j) \<Rightarrow> Inr (key, on_string (\<lambda>old.
              (Ok (BulkString (Some (case old of None \<Rightarrow> [] | Some e \<Rightarrow> slice_between (Payload e) i j))), Keep)))
          | _ \<Rightarrow> refuse notint)
      | _ \<Rightarrow> refuse (wrongargs ''getrange''))"

definition getex_fn :: "int \<Rightarrow> RVal list \<Rightarrow> cell_fn" where
  "getex_fn now args = on_string (\<lambda>old.
     case old of
       None \<Rightarrow> (Ok NilBulk, Keep)
     | Some e \<Rightarrow>
         (case getex_expiry now args (Expiry e) of
            Err msg \<Rightarrow> (Ok (RError msg), Keep)
          | Panic \<Rightarrow> (Panic, Keep)
          | Ok x \<Rightarrow> (Ok (BulkString (Some (Payload e))), if x \<noteq> Expiry e then Write TypeString x (Payload e) else Keep)))"

definition getex_spec :: "int \<Rightarrow> RVal list \<Rightarrow> spec" where
  "getex_spec now args =
     (if length args < 1 \<or> 3 < length args then refuse (wrongargs ''getex'')
      else with_key (args ! 0) (\<lambda>key. Inr (key, getex_fn now args)))"

subsection \<open>The commands keep their promises\<close>

lemmas string_runs = runs on_string_def EncodeString_Encode StringKey_def isNotFound_def missing_def errValue_def bulk_def

lemmas spec_defs = refuse_def with_key_def with_value_def

lemma range_0 [simp]: "int64_range 0"
  by (simp add: int64_range_def)

lemma parseExpiry_range: "parseExpiry now kind s = Ok x \<Longrightarrow> int64_range x"
  by (auto simp: parseExpiry_def split: option.splits if_splits)

lemma parse_set_opts_range:
  "parse_set_opts now args opt = Ok opt' \<Longrightarrow> int64_range (opt_expiry opt) \<Longrightarrow> int64_range (opt_expiry opt')"
proof (induction args arbitrary: opt rule: measure_induct_rule [of length])
  case (less args)
  show ?case
  proof (cases args)
    case Nil
    with less.prems show ?thesis by simp
  next
    case (Cons a as)
    have IH: "parse_set_opts now ys o1 = Ok opt' \<Longrightarrow> length ys \<le> length as \<Longrightarrow> int64_range (opt_expiry o1) \<Longrightarrow>
        int64_range (opt_expiry opt')" for ys o1
      using less.IH [of ys] Cons by simp
    from less.prems(1) less.prems(2) show ?thesis unfolding Cons parse_set_opts.simps Let_def
      by (auto simp del: parse_set_opts.simps split: option.splits list.splits if_splits dest: IH dest!: parseExpiry_range)
  qed
qed

lemma parseSetArgs_range: "parseSetArgs now args = Ok (v, opt) \<Longrightarrow> int64_range (opt_expiry opt)"
  by (auto simp: parseSetArgs_def split: if_splits option.splits dest!: parse_set_opts_range)

lemma set_refines: "refines now (set_cmd (map_kv T) now args) (set_spec now args)"
proof (cases "parseSetArgs now args")
  case (Ok vo)
  obtain v opt where vo: "vo = (v, opt)" by (cases vo)
  have "int64_range (opt_expiry opt)" using Ok vo parseSetArgs_range by simp
  then show ?thesis unfolding set_cmd_def set_spec_def
    by (auto simp: Ok vo string_runs Let_def intro!: refines_key)
qed (simp_all add: set_cmd_def set_spec_def spec_defs)

lemma getset_refines: "refines now (getset (map_kv T) now args) (getset_spec args)"
  unfolding getset_def getset_spec_def spec_defs
  by (auto split!: list.split option.split intro!: refines_key simp: string_runs)

lemma setnx_refines: "refines now (setnx (map_kv T) now args) (setnx_spec args)"
  unfolding setnx_def setnx_spec_def spec_defs
  by (auto split!: list.split option.split intro!: refines_key simp: string_runs)

lemma get_refines:
  "refines now (get_cmd (map_kv T) now args) (read_spec ''get'' NilBulk (\<lambda>e. (BulkString (Some (Payload e)), Keep)) args)"
  unfolding get_cmd_def string_reader_def read_spec_def spec_defs
  by (auto split!: list.split option.split intro!: refines_key simp: string_runs)

lemma strlen_refines:
  "refines now (strlen (map_kv T) now args) (read_spec ''strlen'' (Integer 0) (\<lambda>e. (Integer (int (length (Payload e))), Keep)) args)"
  unfolding strlen_def string_reader_def read_spec_def spec_defs
  by (auto split!: list.split option.split intro!: refines_key simp: string_runs)

lemma getdel_refines:
  "refines now (getdel (map_kv T) now args)
     (read_spec ''getdel'' NilBulk (\<lambda>e. (BulkString (Some (Payload e)), Remove TypeString)) args)"
  unfolding getdel_def string_reader_def read_spec_def spec_defs
  by (auto split!: list.split option.split intro!: refines_key simp: string_runs)

lemma append_refines: "refines now (append_cmd (map_kv T) now args) (append_spec args)"
  unfolding append_cmd_def append_spec_def spec_defs edit_fn_def
  by (auto split!: list.split option.split intro!: refines_key simp: string_runs base_of_def Let_def)

lemma setrange_refines: "refines now (setrange (map_kv T) now args) (setrange_spec args)"
  unfolding setrange_def setrange_spec_def spec_defs edit_fn_def
  by (auto split!: list.split option.split res.split intro!: refines_key simp: string_runs base_of_def Let_def)

lemma incr_overflows_iff:
  assumes "int64_range cur" "int64_range delta"
  shows "incr_overflows cur delta \<longleftrightarrow> \<not> int64_range (cur + delta)"
proof -
  have "wrap64 ((2 ^ 63 - 1) - delta) = (2 ^ 63 - 1) - delta" if "0 < delta"
    using that assms(2) by (intro wrap64_id) (auto simp: int64_range_def)
  moreover have "wrap64 (- (2 ^ 63) - delta) = - (2 ^ 63) - delta" if "delta < 0"
    using that assms(2) by (intro wrap64_id) (auto simp: int64_range_def)
  ultimately show ?thesis using assms by (auto simp: incr_overflows_def int64_range_def)
qed

lemma incrBy_refines:
  assumes "int64_range delta"
  shows "refines now (incrBy (map_kv T) delta now args) (add_spec delta args)"
proof -
  have add: "(if incr_overflows cur delta then a else b) = (if int64_range (cur + delta) then b else a)"
    if "int64_range cur" for cur a b using incr_overflows_iff [OF that assms] by simp
  have "refines now (incrBy (map_kv T) delta now [BulkString (Some key)]) (Inr (key, add_fn delta))" for key
  proof (rule refines_key)
    fix w :: "(bytes \<rightharpoonup> bytes) world" and raw e
    assume "lookup (store w) now key = Ok (raw, e)" "purged now key w = w" "raw = prefix_of (Type e) @ key"
    then show "fst (run_state (incrBy (map_kv T) delta now [BulkString (Some key)]) w) = fst (add_fn delta (Some e))
        \<and> store (snd (run_state (incrBy (map_kv T) delta now [BulkString (Some key)]) w)) = act_store key (snd (add_fn delta (Some e))) (store w)"
      by (cases "ParseInt (Payload e)") (simp_all add: incrBy_def add_fn_def string_runs add ParseInt_range wrap64_id Let_def)
  qed (auto simp: incrBy_def add_fn_def string_runs add assms wrap64_id Let_def split: option.split)
  then have *: "refines now (incrBy (map_kv T) delta now [BulkString b]) (Inr (bulk b, add_fn delta))" for b
    by (cases b) (simp_all add: incrBy_def bulk_def)
  show ?thesis
  proof (cases "\<exists>a. args = [a]")
    case True
    then obtain a where a: "args = [a]" by blast
    show ?thesis using * by (cases a) (simp_all add: a add_spec_def with_key_def, simp_all add: incrBy_def)
  next
    case False
    then show ?thesis by (auto simp: add_spec_def incrBy_def refuse_def split: list.split)
  qed
qed

lemma incr_refines: "refines now (incr (map_kv T) now args) (add_spec 1 args)"
  unfolding incr_def by (rule incrBy_refines) (simp add: int64_range_def)

lemma decr_refines: "refines now (decr (map_kv T) now args) (add_spec (-1) args)"
  unfolding decr_def by (rule incrBy_refines) (simp add: int64_range_def)

lemma incrby_refines: "refines now (incrby (map_kv T) now args) (addby_spec ''incrby'' id args)"
  unfolding incrby_def addby_spec_def refuse_def
  by (auto split!: list.split option.split bind_splits intro!: incrBy_refines dest: ParseInt_range)

lemma decrby_refines: "refines now (decrby (map_kv T) now args) (addby_spec ''decrby'' (\<lambda>n. wrap64 (- n)) args)"
  unfolding decrby_def addby_spec_def refuse_def
  by (auto split!: list.split option.split bind_splits intro!: incrBy_refines)

lemma getex_expiry_range: "getex_expiry now args old = Ok x \<Longrightarrow> int64_range old \<Longrightarrow> int64_range x"
  by (auto simp: getex_expiry_def Let_def split: list.splits option.splits if_splits dest: parseExpiry_range)

lemma getex_refines: "refines now (getex (map_kv T) now args) (getex_spec now args)"
proof (cases "length args < 1 \<or> 3 < length args")
  case False
  have "refines now (getex (map_kv T) now args) (Inr (key, getex_fn now args))" if key: "argString (args ! 0) = Some key" for key
  proof (rule refines_key)
    fix w :: "(bytes \<rightharpoonup> bytes) world" and raw e
    assume "lookup (store w) now key = Ok (raw, e)" "purged now key w = w" "raw = prefix_of (Type e) @ key"
    then show "fst (run_state (getex (map_kv T) now args) w) = fst (getex_fn now args (Some e))
        \<and> store (snd (run_state (getex (map_kv T) now args) w)) = act_store key (snd (getex_fn now args (Some e))) (store w)"
      using False key by (cases "getex_expiry now args (Expiry e)") (auto simp: getex_def getex_fn_def string_runs)
  next
    fix e :: Entry assume "int64_range (Expiry e)"
    then show "act_ok (Some e) (snd (getex_fn now args (Some e)))"
      by (cases "getex_expiry now args (Expiry e)") (auto simp: getex_fn_def on_string_def dest: getex_expiry_range)
  qed (use False key in \<open>auto simp: getex_def getex_fn_def string_runs\<close>)
  with False show ?thesis
    by (cases "argString (args ! 0)") (simp_all add: getex_spec_def with_key_def, simp add: getex_def)
qed (auto simp: getex_def getex_spec_def refuse_def)

lemma filter_upto: "filter (\<lambda>k. a \<le> k \<and> k \<le> b) [lo..hi] = [max a lo..min b hi]" for a b lo hi :: int
proof (induction lo hi rule: upto.induct)
  case (1 lo hi)
  show ?case
  proof (cases "lo \<le> hi")
    case True
    have "[max a lo..min b hi] = (if a \<le> lo \<and> lo \<le> b then lo # [max a (lo + 1)..min b hi] else [max a (lo + 1)..min b hi])"
    proof (cases "a \<le> lo")
      case False
      then have "max a lo = max a (lo + 1)" by simp
      with False show ?thesis by simp
    qed (use True upto_rec1 [of lo "min b hi"] in \<open>auto simp: max_def min_def\<close>)
    with 1 True show ?thesis by (simp add: upto_rec1 [of lo hi])
  qed simp
qed

lemma map_nth_upto:
  "0 \<le> s \<Longrightarrow> e < int (length p) \<Longrightarrow> map (\<lambda>k. p ! nat k) [s..e] = take (nat (e + 1 - s)) (drop (nat s) p)"
  by (rule nth_equalityI) (auto simp: nat_add_distrib)

lemma getrange_slice: "getrange_bytes p i j = slice_between p i j"
  unfolding getrange_bytes_def slice_between_def Let_def filter_upto
  by (subst map_nth_upto) (auto simp: max_def min_def)

lemma getrange_refines: "refines now (getrange (map_kv T) now args) (getrange_spec args)"
  unfolding getrange_def getrange_spec_def spec_defs getrange_slice [symmetric]
  by (auto split!: list.split option.split intro!: refines_key simp: string_runs BulkOf_def)


subsection \<open>The table of the string commands\<close>

type_synonym 's table = "(string \<times> (RVal list \<Rightarrow> 's handler)) list"

definition string_table ::
  "'s kv \<Rightarrow> int \<Rightarrow> 's table" where
  "string_table K now =
     [(''SET'', set_cmd K now), (''GET'', get_cmd K now), (''GETDEL'', getdel K now), (''GETEX'', getex K now),
      (''GETSET'', getset K now), (''SETEX'', setex K now), (''PSETEX'', psetex K now), (''SETNX'', setnx K now),
      (''TOUCH'', touch K now), (''DEL'', del K now), (''UNLINK'', del K now), (''TTL'', ttl K now),
      (''MSET'', mset_cmd K now), (''MGET'', mget K now), (''MSETNX'', msetnx K now),
      (''INCR'', incr K now), (''INCRBY'', incrby K now), (''DECR'', decr K now), (''DECRBY'', decrby K now),
      (''INCRBYFLOAT'', incrbyfloat K now),
      (''APPEND'', append_cmd K now), (''STRLEN'', strlen K now), (''SETRANGE'', setrange K now),
      (''GETRANGE'', getrange K now), (''SUBSTR'', getrange K now)]"

definition string_specs :: "int \<Rightarrow> (string \<times> (RVal list \<Rightarrow> spec)) list" where
  "string_specs now =
     [(''SET'', set_spec now),
      (''GET'', read_spec ''get'' NilBulk (\<lambda>e. (BulkString (Some (Payload e)), Keep))),
      (''GETDEL'', read_spec ''getdel'' NilBulk (\<lambda>e. (BulkString (Some (Payload e)), Remove TypeString))),
      (''GETEX'', getex_spec now), (''GETSET'', getset_spec), (''SETNX'', setnx_spec),
      (''INCR'', add_spec 1), (''INCRBY'', addby_spec ''incrby'' id), (''DECR'', add_spec (-1)),
      (''DECRBY'', addby_spec ''decrby'' (\<lambda>n. wrap64 (- n))), (''APPEND'', append_spec),
      (''STRLEN'', read_spec ''strlen'' (Integer 0) (\<lambda>e. (Integer (int (length (Payload e))), Keep))),
      (''SETRANGE'', setrange_spec), (''GETRANGE'', getrange_spec), (''SUBSTR'', getrange_spec)]"

context kv_store
begin

lemma string_table_sim:
  "list_all2 (\<lambda>(n, h) (n', h'). n = n' \<and> (\<forall>args. msim (h args) (h' args)))
     (string_table K now) (string_table M now)"
  unfolding string_table_def by (intro list_all2_Cons [THEN iffD2] conjI list.rel_intros; simp; intro allI sim_intros)

end

text \<open>Two tables with the same names, entry by entry related.\<close>

lemma table_rel:
  assumes "list_all2 (\<lambda>(n, h) (n', h'). n = n' \<and> R h h') t t'" "map_of t name = Some h"
  shows "\<exists>h'. map_of t' name = Some h' \<and> R h h'"
  using assms by (induction rule: list_all2_induct) (auto split: if_splits)

lemma string_table_refines:
  assumes "map_of (string_table (map_kv T) now) name = Some h" "map_of (string_specs now) name = Some S"
  shows "refines now (h args) (S args)"
  using assms unfolding string_table_def string_specs_def
  by (auto split: if_splits intro: set_refines get_refines getdel_refines getex_refines getset_refines setnx_refines
    incr_refines incrby_refines decr_refines decrby_refines append_refines strlen_refines setrange_refines getrange_refines)

subsection \<open>Bytes of \<^verbatim>\<open>SETRANGE\<close>\<close>

lemma make_bytes_range: "0 \<le> n \<Longrightarrow> n \<le> 2 ^ 48 \<Longrightarrow> make_bytes_ok n"
  by (simp add: make_bytes_ok_def makeslice_ok_def wrap64_id int64_range_def nat_le_iff)

lemma overlay:
  assumes "a + length v \<le> length xs"
  shows "length (take a xs @ v @ drop (a + length v) xs) = length xs"
    and "i < length xs \<Longrightarrow> (take a xs @ v @ drop (a + length v) xs) ! i = (if a \<le> i \<and> i < a + length v then v ! (i - a) else xs ! i)"
  using assms by (auto simp: nth_append min_def)

lemma setrange_bytes_Ok:
  assumes "0 \<le> off" "off + int (length val) \<le> 2 ^ 48" "length cur \<le> 2 ^ 48"
  shows "\<exists>out. setrange_bytes cur off val = Ok (out, int (length out))
    \<and> length out = max (length cur) (nat off + length val)
    \<and> (\<forall>i < length out. out ! i =
         (if nat off \<le> i \<and> i < nat off + length val then val ! (i - nat off) else if i < length cur then cur ! i else byte 0))"
proof -
  define a where "a = nat off"
  then have off: "off = int a" using assms(1) by simp
  define n where "n = max (length cur) (a + length val)"
  define xs where "xs = take n (cur @ replicate n (byte 0))"
  have xs: "length xs = n" "xs ! i = (if i < length cur then cur ! i else byte 0)" if "i < n" for i
    using that by (simp_all add: xs_def nth_append)
  have lx: "length xs = n" by (simp add: xs_def)
  have w: "wrap64 (off + int (length val)) = int (a + length val)"
    using assms(2) off by (subst wrap64_id) (auto simp: int64_range_def)
  have n: "(if int (length cur) < int (a + length val) then int (a + length val) else int (length cur)) = int n"
    by (simp add: n_def max_def)
  have "int n \<le> 2 ^ 48" using assms(2,3) off by (simp add: n_def)
  then have ok: "make_bytes_ok (int n)" by (intro make_bytes_range) simp_all
  have le: "a + length val \<le> n" by (simp add: n_def)
  define r where "r = take a xs @ val @ drop (a + length val) xs"
  have "take (n - a) val = val" using le by simp
  then have S: "setrange_bytes cur off val = Ok (r, int n)"
    unfolding setrange_bytes_def Let_def w n unfolding off using ok le by (simp only: r_def xs_def nat_int) simp
  have "length r = n" unfolding r_def using overlay(1) [of a val xs] le lx by simp
  moreover have "r ! i = (if a \<le> i \<and> i < a + length val then val ! (i - a) else if i < length cur then cur ! i else byte 0)"
    if "i < n" for i unfolding r_def using overlay(2) [of a val xs i] le lx xs(2) [OF that] that by simp
  ultimately show ?thesis unfolding S a_def [symmetric] by (intro exI [of _ r]) (simp add: n_def)
qed

subsection \<open>Concurrent increments\<close>

text \<open>\<^verbatim>\<open>server.go\<close> runs each connection in its own goroutine and no lock spans a command, so another
  command can run between the read and the write of \<^verbatim>\<open>incrBy\<close>. The second half of the handler:\<close>

definition incrBy_write :: "'s kv \<Rightarrow> int \<Rightarrow> string \<Rightarrow> (cmd_error, Entry) res \<Rightarrow> 's handler" where
  "incrBy_write K delta key g =
     (case (case g of
              Ok e \<Rightarrow> (case ParseInt (Payload e) of None \<Rightarrow> Err notint | Some cur \<Rightarrow> Ok (cur, Expiry e))
            | Err e \<Rightarrow> if isNotFound e then Ok (0, 0) else Err (err_text K e)
            | Panic \<Rightarrow> Panic) of
        Err msg \<Rightarrow> fail msg
      | Panic \<Rightarrow> crash
      | Ok (cur, expiry) \<Rightarrow>
          if incr_overflows cur delta then fail ''ERR increment or decrement would overflow''
          else
            (let nxt = wrap64 (cur + delta) in
             put K (StringKey key) (EncodeString (FormatInt nxt) expiry) [(''$'', ''incrby'', key)] (Integer nxt)))"

lemma incrBy_split:
  "incrBy K delta now [BulkString (Some key)] = do { g \<leftarrow> getEntry K now key; incrBy_write K delta key g }"
  by (simp add: incrBy_def incrBy_write_def bulk_def)

text \<open>Two clients: both read, then both write.\<close>

definition racing_incr :: "'s kv \<Rightarrow> int \<Rightarrow> string \<Rightarrow> ('s world, reply \<times> reply) state" where
  "racing_incr K now key = do {
     g1 \<leftarrow> getEntry K now key;
     g2 \<leftarrow> getEntry K now key;
     r1 \<leftarrow> incrBy_write K 1 key g1;
     r2 \<leftarrow> incrBy_write K 1 key g2;
     State_Monad.return (r1, r2)
   }"

definition serial_incr :: "'s kv \<Rightarrow> int \<Rightarrow> string \<Rightarrow> ('s world, reply \<times> reply) state" where
  "serial_incr K now key = do {
     r1 \<leftarrow> incr K now [BulkString (Some key)];
     r2 \<leftarrow> incr K now [BulkString (Some key)];
     State_Monad.return (r1, r2)
   }"

context kv_store
begin

lemma sim_incrBy_write [sim_intros]: "msim (incrBy_write K delta key g) (incrBy_write M delta key g)"
  unfolding incrBy_write_def err_text_M by (intro sim_intros) simp_all

lemma sim_races:
  "msim (racing_incr K now key) (racing_incr M now key)" "msim (serial_incr K now key) (serial_incr M now key)"
  unfolding racing_incr_def serial_incr_def by (intro sim_intros; simp)+

end

lemma run_incrBy_write:
  assumes "int64_range (cur + 1)" "int64_range cur" "ParseInt (Payload e) = Some cur"
  shows "run_state (incrBy_write (map_kv T) 1 key (Ok e)) w
    = (Ok (Integer (cur + 1)),
       w\<lparr> store := (store w)(''s:'' @ key \<mapsto> Encode TypeString (Expiry e) (FormatInt (cur + 1))), events := events w @ [(''$'', ''incrby'', key)] \<rparr>)"
  using assms incr_overflows_iff [of cur 1]
  by (simp add: incrBy_write_def runs EncodeString_Encode StringKey_def wrap64_id int64_range_def Let_def)

lemma races_run:
  assumes "wf_store (store w)" "dict (store w) now key = Some e" "Type e = TypeString"
    and "ParseInt (Payload e) = Some n" "n + 2 < 2 ^ 63"
  shows "fst (run_state (racing_incr (map_kv T) now key) w) = (Ok (Integer (n + 1)), Ok (Integer (n + 1)))"
    and "map_option Payload (dict (store (snd (run_state (racing_incr (map_kv T) now key) w))) now key) = Some (FormatInt (n + 1))"
    and "fst (run_state (serial_incr (map_kv T) now key) w) = (Ok (Integer (n + 1)), Ok (Integer (n + 2)))"
    and "map_option Payload (dict (store (snd (run_state (serial_incr (map_kv T) now key) w))) now key) = Some (FormatInt (n + 2))"
proof -
  have r: "int64_range n" "int64_range (n + 1)" "int64_range (n + 2)"
    using ParseInt_range [OF assms(4)] assms(5) by (auto simp: int64_range_def)
  obtain raw where L: "lookup (store w) now key = Ok (raw, e)" using dict_lookup [OF assms(2)] by blast
  from lookup_Ok [OF L] obtain p where p: "p \<in> set typePrefixes" "raw = p @ key" "Decode (the (store w raw)) = Ok e" "store w raw \<noteq> None"
    "\<not> expired_at now e" by blast
  then obtain u where "store w (p @ key) = Some u" "Decode u = Ok e" by auto
  with wf_cell [OF assms(1) p(1)] tag_prefix [OF p(1)] have raw: "raw = ''s:'' @ key" using p(2) assms(3) by fastforce
  have x: "int64_range (Expiry e)" using p(3) Decode_range by blast
  have g: "run_state (getEntry (map_kv T) now key) w = (Ok e, w)" by (simp add: runs L purge_hit [OF L] assms(3))
  let ?c = "\<lambda>k. Encode TypeString (Expiry e) (FormatInt k)"
  let ?e = "\<lambda>k. e\<lparr> Expiry := Expiry e, Payload := FormatInt k \<rparr>"
  have live: "Expiry e = 0 \<or> now < Expiry e" using p(5) by (auto simp: expired_at_def)
  note R = rewrite_cell [OF assms(1) L x, unfolded assms(3) raw]
  have D: "dict ((store w)(''s:'' @ key \<mapsto> ?c k)) now key = Some (?e k)" for k
    using R(2) [of "FormatInt k" now] p(5) by (simp add: expired_at_def)
  let ?w1 = "w\<lparr> store := (store w)(''s:'' @ key \<mapsto> ?c (n + 1)), events := events w @ [(''$'', ''incrby'', key)] \<rparr>"
  have L1: "lookup (store ?w1) now key = Ok (''s:'' @ key, ?e (n + 1))" using R(3) live by simp
  have g1: "run_state (getEntry (map_kv T) now key) ?w1 = (Ok (?e (n + 1)), ?w1)"
    using purge_hit [OF L1] L1 assms(3) by (simp add: runs)
  note w1 = run_incrBy_write [OF r(2,1) assms(4), of T key]
  have w2: "run_state (incrBy_write (map_kv T) 1 key (Ok (?e (n + 1)))) w'
    = (Ok (Integer (n + 2)), w'\<lparr> store := (store w')(''s:'' @ key \<mapsto> ?c (n + 2)), events := events w' @ [(''$'', ''incrby'', key)] \<rparr>)" for w'
    using run_incrBy_write [of "n + 1" "?e (n + 1)" T key w'] r(2,3) ParseInt_FormatInt [OF r(2)] by (simp add: add.assoc)
  show "fst (run_state (racing_incr (map_kv T) now key) w) = (Ok (Integer (n + 1)), Ok (Integer (n + 1)))"
    "map_option Payload (dict (store (snd (run_state (racing_incr (map_kv T) now key) w))) now key) = Some (FormatInt (n + 1))"
    using D by (simp_all add: racing_incr_def g w1)
  show "fst (run_state (serial_incr (map_kv T) now key) w) = (Ok (Integer (n + 1)), Ok (Integer (n + 2)))"
    "map_option Payload (dict (store (snd (run_state (serial_incr (map_kv T) now key) w))) now key) = Some (FormatInt (n + 2))"
    using D by (simp_all add: serial_incr_def incr_def incrBy_split g w1 g1 [simplified] w2 [simplified])
qed

subsection \<open>Corner cases\<close>

text \<open>\<^verbatim>\<open>SET k v ex 10\<close> accepts the option and sets no expiry: the name is compared in upper case, but handed on
  as it was typed.\<close>

lemma set_lowercase_ex:
  "parseSetArgs now [k, BulkString (Some v), BulkString (Some ''ex''), BulkString (Some ''10'')]
    = Ok (v, \<lparr> opt_expiry = 0, opt_keepTTL = False, opt_nx = False, opt_xx = False, opt_get = False \<rparr>)"
proof -
  have "ToUpper ''ex'' = ''EX''" by code_simp
  moreover have "parseExpiry now ''ex'' ''10'' = Ok 0" by (simp add: parseExpiry_def parse_simps)
  ultimately show ?thesis by (simp add: parseSetArgs_def bulk_def del: bind_res_Ok)
qed

text \<open>\<^verbatim>\<open>DECRBY\<close> by the smallest number decreases: negation wraps back to the number itself.\<close>

lemma decrby_min:
  "addby_spec ''decrby'' (\<lambda>n. wrap64 (- n)) [BulkString (Some k), BulkString (Some ''-9223372036854775808'')]
    = Inr (k, add_fn (-9223372036854775808))"
  by (simp add: addby_spec_def add_spec_def with_key_def bulk_def parse_simps wrap64_def)

text \<open>\<^verbatim>\<open>SETEX\<close> does not look at the type: over a key of another type it leaves two cells.\<close>

lemma setex_second_type:
  assumes "wf_store (store w)" "dict (store w) now key = Some e" "Type e \<noteq> TypeString"
    and "run_state (setex (map_kv T) now [BulkString (Some key), BulkString (Some ''10''), BulkString (Some v)]) w = (r, w')"
  shows "r = Ok (SimpleString ''OK'') \<and> \<not> wf_store (store w')"
proof -
  obtain raw where L: "lookup (store w) now key = Ok (raw, e)" using dict_lookup [OF assms(2)] by blast
  from lookup_Ok [OF L] obtain p u where p: "p \<in> set typePrefixes" "store w (p @ key) = Some u" "Decode u = Ok e" by auto
  from wf_cell [OF assms(1) p(1,2)] p(3) tag_prefix [OF p(1)] have "prefix_of (Type e) = p" by auto
  moreover have "Type e \<in> set (prefix_tags p)" using wf_cell [OF assms(1) p(1,2)] p(3) by auto
  ultimately have ne: "p \<noteq> ''s:''" using assms(3) by (auto simp: prefix_tags_def)
  have r: "r = Ok (SimpleString ''OK'')" and s: "store w' = (store w)(''s:'' @ key \<mapsto> EncodeString v (wrap64 (now + wrap64 (10 * sec))))"
    using assms(4) by (auto simp: setex_def setWithTTL_def bulk_def parse_simps runs StringKey_def)
  have "store w' (''s:'' @ key) \<noteq> None" "store w' (p @ key) \<noteq> None" using s p(2) by auto
  then have "\<not> wf_store (store w')" using wf_other [of "store w'" "''s:''" key p] ne p(1) by auto
  with r show ?thesis by simp
qed

subsection \<open>The properties\<close>



text \<open>C29. Increments of two connections can be lost. Commands are not atomic: when both connections read
  the number before either writes, both get the same reply and the key counts one increment, while the
  same commands one after the other count two.\<close>

theorem increments_lost:
  assumes "kv_store K view live" "live (store w)" "wf_store (view (store w))"
    and "dict (view (store w)) now key = Some e" "Type e = TypeString" "ParseInt (Payload e) = Some n" "n + 2 < 2 ^ 63"
    and "run_state (racing_incr K now key) w = (rs, w')" "run_state (serial_incr K now key) w = (rs'', w'')"
  shows "rs = (Ok (Integer (n + 1)), Ok (Integer (n + 1)))
    \<and> map_option Payload (dict (view (store w')) now key) = Some (FormatInt (n + 1))
    \<and> rs'' = (Ok (Integer (n + 1)), Ok (Integer (n + 2)))
    \<and> map_option Payload (dict (view (store w'')) now key) = Some (FormatInt (n + 2))"
  using simD [OF kv_store.sim_races(1) [OF assms(1)] assms(2), of now key] simD [OF kv_store.sim_races(2) [OF assms(1)] assms(2), of now key]
    races_run [of "absw view w" now key e n "kvText K"] assms(3-9) by simp

theorem increments_lost_witness:
  "fst (run_state (racing_incr (pebble_kv memdb quiet_env) 1 ''b'') sample_world) = (Ok (Integer 3), Ok (Integer 3))"
  using increments_lost [OF memdb.kv_store_axioms, of sample_world 1 "''b''" "\<lparr> Type = TypeString, Expiry = 0, Payload = ''2'' \<rparr>" 2
      "fst (run_state (racing_incr (pebble_kv memdb quiet_env) 1 ''b'') sample_world)"
      "snd (run_state (racing_incr (pebble_kv memdb quiet_env) 1 ''b'') sample_world)"
      "fst (run_state (serial_incr (pebble_kv memdb quiet_env) 1 ''b'') sample_world)"
      "snd (run_state (serial_incr (pebble_kv memdb quiet_env) 1 ''b'') sample_world)"]
  by (simp add: sample_world_def New_def sample_wf sample_dict parse_simps)
end
