(* ===== verification/Glob.thy ===== *)
theory Glob
  imports GoPrelude
begin

text \<open>
  Pattern matching: \<^verbatim>\<open>matchPattern\<close> of \<^verbatim>\<open>internal/commands/pattern.go\<close>, an iterative matcher that remembers
  the last star and backtracks to it, and \<^verbatim>\<open>path.Match\<close> of the standard library, which \<^verbatim>\<open>KEYS\<close>, the \<^verbatim>\<open>SCAN\<close> family
  and the key patterns of the access control use.

  The loop of \<^verbatim>\<open>matchBytes\<close> is a partial function: not returning would be \<^const>\<open>None\<close>. The theorem \<open>match_glob\<close>
  says that it returns on every input, with the answer of the recursive definition of a glob.
\<close>

subsection \<open>\<^verbatim>\<open>pattern.go\<close>\<close>

abbreviation backslash :: char where
  "backslash \<equiv> CHR 0x5C"

function scan_class :: "bytes \<Rightarrow> nat \<Rightarrow> nat option" where
  "scan_class p i =
     (if i < length p
      then if p ! i = backslash then scan_class p (i + 2)
           else if p ! i = CHR '']'' then Some i else scan_class p (i + 1)
      else None)"
  by pat_completeness auto
termination
  by (relation "measure (\<lambda>(p, i). length p - i)") auto

declare scan_class.simps [simp del]

definition scanClassEnd :: "bytes \<Rightarrow> nat \<Rightarrow> nat option" where
  "scanClassEnd p pi =
     scan_class p (if pi + 1 < length p \<and> p ! (pi + 1) = CHR '']'' then pi + 2 else pi + 1)"

fun class_loop :: "bytes \<Rightarrow> char \<Rightarrow> bool \<Rightarrow> bool" where
  "class_loop [] c matched = matched"
| "class_loop [b] c matched = (matched \<or> ord b = ord c)"
| "class_loop [b, x] c matched =
     (if b = backslash then matched \<or> ord x = ord c else class_loop [x] c (matched \<or> ord b = ord c))"
| "class_loop (b # x # y # r) c matched =
     (if b = backslash then class_loop (y # r) c (matched \<or> ord x = ord c)
      else if x = CHR ''-'' \<and> y \<noteq> CHR '']'' then class_loop r c (matched \<or> ord b \<le> ord c \<and> ord c \<le> ord y)
      else class_loop (x # y # r) c (matched \<or> ord b = ord c))"

definition classMatch :: "bytes \<Rightarrow> char \<Rightarrow> bool" where
  "classMatch body c =
     (if body \<noteq> [] \<and> hd body = CHR ''^'' then \<not> class_loop (tl body) c False else class_loop body c False)"

text \<open>The state of the loop: the positions in the pattern and the string, the last star, and where its
  text ends. \<open>match_fail\<close> is the closure \<^verbatim>\<open>fail\<close>: back to the last star, which takes one byte more, or \<^const>\<open>None\<close>.\<close>

type_synonym mstate = "nat \<times> nat \<times> nat option \<times> nat"

definition match_fail :: "nat option \<Rightarrow> nat \<Rightarrow> mstate option" where
  "match_fail star mark = (case star of None \<Rightarrow> None | Some t \<Rightarrow> Some (t + 1, mark + 1, star, mark + 1))"

definition match_step :: "bytes \<Rightarrow> bytes \<Rightarrow> nat \<Rightarrow> nat \<Rightarrow> nat option \<Rightarrow> nat \<Rightarrow> mstate option" where
  "match_step p s pi si star mark =
     (if pi < length p \<and> p ! pi = CHR ''*'' then Some (pi + 1, si, Some pi, si)
      else if pi < length p \<and> p ! pi = CHR ''?'' then Some (pi + 1, si + 1, star, mark)
      else if pi + 1 < length p \<and> p ! pi = backslash then
        (if p ! (pi + 1) = s ! si then Some (pi + 2, si + 1, star, mark) else match_fail star mark)
      else if pi < length p \<and> p ! pi = CHR ''['' then
        (case scanClassEnd p pi of
           None \<Rightarrow> if p ! pi = s ! si then Some (pi + 1, si + 1, star, mark) else match_fail star mark
         | Some en \<Rightarrow>
             if classMatch (take (en - (pi + 1)) (drop (pi + 1) p)) (s ! si)
             then Some (en + 1, si + 1, star, mark) else match_fail star mark)
      else if pi < length p \<and> p ! pi = s ! si then Some (pi + 1, si + 1, star, mark)
      else match_fail star mark)"

partial_function (option) match_loop :: "bytes \<Rightarrow> bytes \<Rightarrow> mstate \<Rightarrow> bool option" where
  "match_loop p s st =
     (case st of (pi, si, star, mark) \<Rightarrow>
        if si < length s
        then (case match_step p s pi si star mark of None \<Rightarrow> Some False | Some st' \<Rightarrow> match_loop p s st')
        else Some (dropWhile (\<lambda>c. c = CHR ''*'') (drop pi p) = []))"

definition matchBytes :: "bytes \<Rightarrow> bytes \<Rightarrow> bool option" where
  "matchBytes p s = match_loop p s (0, 0, None, 0)"

definition matchPattern :: "string \<Rightarrow> string \<Rightarrow> bool option" where
  "matchPattern pattern s = matchBytes pattern s"

subsection \<open>The reference: tokens and their meaning\<close>

datatype tok = Star | Any | Lit char | Class bytes

fun scan_end :: "bytes \<Rightarrow> nat option" where
  "scan_end [] = None"
| "scan_end [c] = (if c = CHR '']'' then Some 0 else None)"
| "scan_end (c # d # cs) =
     (if c = backslash then map_option (\<lambda>k. k + 2) (scan_end cs)
      else if c = CHR '']'' then Some 0 else map_option Suc (scan_end (d # cs)))"

definition class_close :: "bytes \<Rightarrow> nat option" where
  "class_close ds = (if ds \<noteq> [] \<and> hd ds = CHR '']'' then map_option Suc (scan_end (tl ds)) else scan_end ds)"

fun tokens :: "bytes \<Rightarrow> tok list" where
  "tokens [] = []"
| "tokens (c # cs) =
     (if c = CHR ''*'' then Star # tokens cs
      else if c = CHR ''?'' then Any # tokens cs
      else if c = backslash \<and> cs \<noteq> [] then Lit (hd cs) # tokens (tl cs)
      else if c = CHR ''['' then
        (case class_close cs of
           None \<Rightarrow> Lit c # tokens cs
         | Some n \<Rightarrow> Class (take n cs) # tokens (drop (Suc n) cs))
      else Lit c # tokens cs)"

fun tok_ok :: "tok \<Rightarrow> char \<Rightarrow> bool" where
  "tok_ok Star c = False"
| "tok_ok Any c = True"
| "tok_ok (Lit x) c = (x = c)"
| "tok_ok (Class b) c = classMatch b c"

fun glob :: "tok list \<Rightarrow> bytes \<Rightarrow> bool" where
  "glob [] s = (s = [])"
| "glob (Star # ts) [] = glob ts []"
| "glob (Star # ts) (c # cs) = (glob ts (c # cs) \<or> glob (Star # ts) cs)"
| "glob (t # ts) [] = False"
| "glob (t # ts) (c # cs) = (tok_ok t c \<and> glob ts cs)"

lemma glob_star: "glob (Star # ts) s \<longleftrightarrow> (\<exists>k \<le> length s. glob ts (drop k s))"
proof (induction s)
  case (Cons c cs)
  have "(\<exists>k \<le> length (c # cs). glob ts (drop k (c # cs))) \<longleftrightarrow> glob ts (c # cs) \<or> (\<exists>k \<le> length cs. glob ts (drop k cs))"
    by (metis Suc_le_mono drop0 drop_Suc_Cons length_Cons not0_implies_Suc zero_le)
  with Cons show ?case by simp
qed simp

lemma glob_star_drop:
  assumes "i \<le> length s"
  shows "glob (Star # ts) (drop i s) \<longleftrightarrow> (\<exists>k. i \<le> k \<and> k \<le> length s \<and> glob ts (drop k s))"
proof
  assume "glob (Star # ts) (drop i s)"
  then obtain k where "k \<le> length s - i" "glob ts (drop (k + i) s)" by (auto simp: glob_star)
  with assms show "\<exists>k. i \<le> k \<and> k \<le> length s \<and> glob ts (drop k s)" by (intro exI [of _ "k + i"]) simp
next
  assume "\<exists>k. i \<le> k \<and> k \<le> length s \<and> glob ts (drop k s)"
  then obtain k where "i \<le> k" "k \<le> length s" "glob ts (drop (k - i + i) s)" by auto
  then show "glob (Star # ts) (drop i s)" unfolding glob_star by (intro exI [of _ "k - i"]) simp
qed

lemma glob_tok: "t \<noteq> Star \<Longrightarrow> glob (t # ts) s \<longleftrightarrow> (\<exists>c cs. s = c # cs \<and> tok_ok t c \<and> glob ts cs)"
  by (cases t; cases s) auto

text \<open>A part without stars takes one byte per token.\<close>

lemma glob_mid:
  "Star \<notin> set mid \<Longrightarrow> glob (mid @ ts) s \<Longrightarrow> length mid \<le> length s \<and> glob ts (drop (length mid) s)"
proof (induction mid arbitrary: s)
  case (Cons t mid)
  then have "t \<noteq> Star" by auto
  with Cons.prems(2) obtain c cs where "s = c # cs" "glob (mid @ ts) cs" by (auto simp: glob_tok)
  with Cons show ?case by auto
qed simp

subsection \<open>The matcher on tokens\<close>

lemma scan_class_drop: "scan_class p i = map_option (\<lambda>k. i + k) (scan_end (drop i p))"
proof (induction p i rule: scan_class.induct)
  case (1 p i)
  show ?case
  proof (cases "i < length p")
    case True
    have d: "drop i p = p ! i # drop (i + 1) p" using True by (simp add: Cons_nth_drop_Suc)
    show ?thesis
    proof (cases "i + 1 < length p")
      case two: True
      have d2: "drop (i + 1) p = p ! (i + 1) # drop (i + 2) p" using two Cons_nth_drop_Suc [of "i + 1" p] by simp
      show ?thesis unfolding d d2 scan_class.simps [of p i] using True 1
        by (auto simp: d2 [simplified] option.map_comp comp_def ac_simps)
    next
      case False
      then have e: "drop (i + 1) p = []" by simp
      show ?thesis unfolding d e scan_class.simps [of p i] using True 1 False
        by (auto simp: scan_class.simps)
    qed
  qed (simp add: scan_class.simps)
qed

lemma scanClassEnd_drop:
  assumes "pi < length p"
  shows "scanClassEnd p pi = map_option (\<lambda>k. pi + 1 + k) (class_close (drop (pi + 1) p))"
proof (cases "pi + 1 < length p \<and> p ! (pi + 1) = CHR '']''")
  case True
  then have d: "drop (pi + 1) p = CHR '']'' # drop (pi + 2) p" using Cons_nth_drop_Suc [of "pi + 1" p] by simp
  show ?thesis using True unfolding d by (simp add: scanClassEnd_def scan_class_drop class_close_def option.map_comp comp_def)
next
  case False
  then have "\<not> (drop (pi + 1) p \<noteq> [] \<and> hd (drop (pi + 1) p) = CHR '']'')" by (auto simp: hd_drop_conv_nth)
  with False show ?thesis by (auto simp: scanClassEnd_def scan_class_drop class_close_def intro!: option.map_cong)
qed

definition next_tok :: "bytes \<Rightarrow> nat \<Rightarrow> (tok \<times> nat) option" where
  "next_tok p pi =
     (if \<not> pi < length p then None
      else if p ! pi = CHR ''*'' then Some (Star, pi + 1)
      else if p ! pi = CHR ''?'' then Some (Any, pi + 1)
      else if p ! pi = backslash \<and> pi + 1 < length p then Some (Lit (p ! (pi + 1)), pi + 2)
      else if p ! pi = CHR ''['' then
        (case scanClassEnd p pi of
           None \<Rightarrow> Some (Lit (p ! pi), pi + 1)
         | Some en \<Rightarrow> Some (Class (take (en - (pi + 1)) (drop (pi + 1) p)), en + 1))
      else Some (Lit (p ! pi), pi + 1))"

lemma tokens_next:
  "tokens (drop pi p) = (case next_tok p pi of None \<Rightarrow> [] | Some (t, pi') \<Rightarrow> t # tokens (drop pi' p))"
proof (cases "pi < length p")
  case True
  then have d: "drop pi p = p ! pi # drop (pi + 1) p" by (simp add: Cons_nth_drop_Suc)
  have e: "drop (pi + 1) p \<noteq> [] \<longleftrightarrow> pi + 1 < length p" by auto
  have h: "hd (drop (pi + 1) p) = p ! (pi + 1)" "tl (drop (pi + 1) p) = drop (pi + 2) p" if "pi + 1 < length p"
    using that by (simp_all add: hd_drop_conv_nth tl_drop, simp add: drop_Suc tl_drop)
  show ?thesis unfolding d tokens.simps next_tok_def e using True h scanClassEnd_drop [OF True]
    by (auto split: option.split simp: ac_simps)
qed (simp add: next_tok_def)

lemma next_tok_greater: "next_tok p pi = Some (t, pi') \<Longrightarrow> pi < pi' \<and> pi < length p \<and> (t = Star \<longrightarrow> pi' = pi + 1)"
  using scanClassEnd_drop [of pi p] by (auto simp: next_tok_def split: if_splits option.splits)

lemma match_step_tok:
  "match_step p s pi si star mark =
    (case next_tok p pi of
       None \<Rightarrow> match_fail star mark
     | Some (t, pi') \<Rightarrow>
         if t = Star then Some (pi', si, Some pi, si)
         else if tok_ok t (s ! si) then Some (pi', si + 1, star, mark) else match_fail star mark)"
proof (cases "pi < length p")
  case True
  consider "p ! pi = CHR ''*''" | "p ! pi = CHR ''?''" | "p ! pi = backslash" | "p ! pi = CHR ''[''"
    | "p ! pi \<notin> {CHR ''*'', CHR ''?'', backslash, CHR ''[''}" by blast
  then show ?thesis
    by cases (use True in \<open>cases "scanClassEnd p pi"; simp add: match_step_def next_tok_def\<close>)+
qed (simp add: match_step_def next_tok_def)

text \<open>The text since the last star has been matched token by token.\<close>

definition since_star :: "bytes \<Rightarrow> nat \<Rightarrow> nat \<Rightarrow> nat option \<Rightarrow> nat \<Rightarrow> bool" where
  "since_star p pi si star mark \<longleftrightarrow>
     (\<forall>t. star = Some t \<longrightarrow> t < pi \<and> t < length p \<and> mark \<le> si \<and>
        (\<exists>mid. tokens (drop (t + 1) p) = mid @ tokens (drop pi p) \<and> Star \<notin> set mid \<and> length mid = si - mark))"

definition later :: "bytes \<Rightarrow> bytes \<Rightarrow> nat option \<Rightarrow> nat \<Rightarrow> bool" where
  "later p s star mark \<longleftrightarrow>
     (\<exists>t. star = Some t \<and> (\<exists>k. mark < k \<and> k \<le> length s \<and> glob (tokens (drop (t + 1) p)) (drop k s)))"

lemma tokens_end: "glob (tokens q) [] \<longleftrightarrow> dropWhile (\<lambda>c. c = CHR ''*'') q = []"
  by (induction q) (auto split: option.split)

lemma later_end:
  assumes "since_star p pi (length s) star mark"
  shows "\<not> later p s star mark"
proof
  assume "later p s star mark"
  then obtain t k where k: "star = Some t" "mark < k" "k \<le> length s" "glob (tokens (drop (t + 1) p)) (drop k s)"
    by (auto simp: later_def)
  with assms obtain mid where "tokens (drop (t + 1) p) = mid @ tokens (drop pi p)" "Star \<notin> set mid" "length mid = length s - mark"
    by (auto simp: since_star_def)
  with k(4) glob_mid [of mid "tokens (drop pi p)" "drop k s"] have "length mid \<le> length s - k" by simp
  with k(2,3) \<open>length mid = length s - mark\<close> show False by simp
qed

lemma later_star:
  assumes "since_star p pi si star mark" "later p s star mark" "tokens (drop pi p) = Star # ts" "si \<le> length s"
  shows "\<exists>k. si \<le> k \<and> k \<le> length s \<and> glob ts (drop k s)"
proof -
  from assms(2) obtain t k where k: "star = Some t" "mark < k" "k \<le> length s" "glob (tokens (drop (t + 1) p)) (drop k s)"
    by (auto simp: later_def)
  with assms(1,3) obtain mid where mid: "tokens (drop (t + 1) p) = mid @ Star # ts" "Star \<notin> set mid" "length mid = si - mark" "mark \<le> si"
    by (auto simp: since_star_def)
  from glob_mid [OF mid(2), of "Star # ts" "drop k s"] k(4) mid(1) have m: "length mid \<le> length s - k" "glob (Star # ts) (drop (length mid) (drop k s))"
    by auto
  then obtain j where "j \<le> length s - (length mid + k)" "glob ts (drop j (drop (length mid + k) s))"
    by (auto simp: glob_star)
  with m(1) mid(3,4) k(2,3) show ?thesis by (intro exI [of _ "j + (length mid + k)"]) auto
qed

lemma later_fail:
  assumes "mark < length s"
  shows "glob (tokens (drop (t + 1) p)) (drop (mark + 1) s) \<or> later p s (Some t) (mark + 1) \<longleftrightarrow> later p s (Some t) mark"
proof -
  have "mark < k \<longleftrightarrow> k = mark + 1 \<or> mark + 1 < k" for k by auto
  with assms show ?thesis unfolding later_def by (metis Suc_eq_plus1 Suc_leI option.inject)
qed

lemma since_star_tok:
  assumes "since_star p pi si star mark" "next_tok p pi = Some (t, pi')" "t \<noteq> Star"
  shows "since_star p pi' (si + 1) star mark"
  unfolding since_star_def
proof (intro allI impI)
  fix u assume u: "star = Some u"
  with assms(1) obtain mid where mid: "u < pi" "u < length p" "mark \<le> si"
    "tokens (drop (u + 1) p) = mid @ tokens (drop pi p)" "Star \<notin> set mid" "length mid = si - mark"
    by (auto simp: since_star_def)
  have "tokens (drop pi p) = t # tokens (drop pi' p)" using tokens_next [of pi p] assms(2) by simp
  then show "u < pi' \<and> u < length p \<and> mark \<le> si + 1 \<and>
      (\<exists>mid. tokens (drop (u + 1) p) = mid @ tokens (drop pi' p) \<and> Star \<notin> set mid \<and> length mid = si + 1 - mark)"
    using mid assms(3) next_tok_greater [OF assms(2)] by (auto intro!: exI [of _ "mid @ [t]"])
qed

lemma since_star_init: "next_tok p pi = Some (Star, pi') \<Longrightarrow> since_star p pi' si (Some pi) si"
  using next_tok_greater [of p pi Star pi'] by (auto simp: since_star_def)


lemma star_step:
  assumes "since_star p pi si star mark" "next_tok p pi = Some (Star, pi')" "si \<le> length s"
  shows "glob (tokens (drop pi' p)) (drop si s) \<or> later p s (Some pi) si
    \<longleftrightarrow> glob (tokens (drop pi p)) (drop si s) \<or> later p s star mark"
proof -
  have T: "tokens (drop pi p) = Star # tokens (drop pi' p)" using tokens_next [of pi p] assms(2) by simp
  have pi': "pi' = pi + 1" using next_tok_greater [OF assms(2)] by simp
  let ?ex = "\<exists>k. si \<le> k \<and> k \<le> length s \<and> glob (tokens (drop pi' p)) (drop k s)"
  have "glob (tokens (drop pi' p)) (drop si s) \<or> later p s (Some pi) si \<longleftrightarrow> ?ex"
    unfolding later_def pi' using assms(3) by (metis le_neq_implies_less less_imp_le option.inject order_refl)
  moreover have "glob (tokens (drop pi p)) (drop si s) \<longleftrightarrow> ?ex" unfolding T by (rule glob_star_drop [OF assms(3)])
  moreover have "later p s star mark \<Longrightarrow> ?ex" using later_star [OF assms(1) _ T assms(3)] by blast
  ultimately show ?thesis by blast
qed

abbreviation match_order :: "bytes \<Rightarrow> bytes \<Rightarrow> (mstate \<times> mstate) set" where
  "match_order p s \<equiv> measures
     [\<lambda>(pi, si, star, mark). case star of None \<Rightarrow> length p | Some t \<Rightarrow> length p - Suc t,
      \<lambda>(pi, si, star, mark). length s - mark, \<lambda>(pi, si, star, mark). (length s - si) + (length p - pi)]"

text \<open>Every step goes down in the order and keeps the answer.\<close>

lemma match_step_correct:
  assumes "since_star p pi si star mark" "si < length s"
  shows "case match_step p s pi si star mark of
      None \<Rightarrow> \<not> (glob (tokens (drop pi p)) (drop si s) \<or> later p s star mark)
    | Some (pi', si', star', mark') \<Rightarrow>
        ((pi', si', star', mark'), (pi, si, star, mark)) \<in> match_order p s \<and> since_star p pi' si' star' mark' \<and> si' \<le> length s
        \<and> (glob (tokens (drop pi' p)) (drop si' s) \<or> later p s star' mark' \<longleftrightarrow> glob (tokens (drop pi p)) (drop si s) \<or> later p s star mark)"
    (is "?ok (match_step p s pi si star mark)")
proof -
  have fail: "?ok (match_fail star mark)" if "\<not> glob (tokens (drop pi p)) (drop si s)"
  proof (cases star)
    case (Some t)
    with assms have t: "t < length p" "mark < length s" by (auto simp: since_star_def)
    have "since_star p (t + 1) (mark + 1) (Some t) (mark + 1)" using t(1) by (simp add: since_star_def)
    with Some t that show ?thesis using later_fail [of mark s t p] by (auto simp: match_fail_def)
  qed (use that in \<open>simp add: match_fail_def later_def\<close>)
  have d: "drop si s = s ! si # drop (si + 1) s" using assms(2) by (simp add: Cons_nth_drop_Suc)
  show ?thesis
  proof (cases "next_tok p pi")
    case None
    then have "tokens (drop pi p) = []" using tokens_next [of pi p] by simp
    with None fail show ?thesis by (simp add: match_step_tok d)
  next
    case (Some tp)
    obtain t pi' where nt: "next_tok p pi = Some (t, pi')" using Some by (cases tp) simp
    note gr = next_tok_greater [OF nt]
    have T: "tokens (drop pi p) = t # tokens (drop pi' p)" using tokens_next [of pi p] nt by simp
    consider (star) "t = Star" | (ok) "t \<noteq> Star" "tok_ok t (s ! si)" | (bad) "t \<noteq> Star" "\<not> tok_ok t (s ! si)" by blast
    then show ?thesis
    proof cases
      case star
      have "length p - Suc pi < (case star of None \<Rightarrow> length p | Some t \<Rightarrow> length p - Suc t)"
        using gr assms(1) by (auto simp: since_star_def split: option.split)
      with star nt assms(2) show ?thesis
        using star_step [OF assms(1) nt [unfolded star]] since_star_init [OF nt [unfolded star]] by (simp add: match_step_tok)
    next
      case ok
      with nt gr assms(2) since_star_tok [OF assms(1) nt ok(1)] show ?thesis by (auto simp: match_step_tok T d glob_tok)
    next
      case bad
      with nt fail show ?thesis by (simp add: match_step_tok T d glob_tok)
    qed
  qed
qed

lemma match_loop_glob:
  assumes "since_star p pi si star mark" "si \<le> length s"
  shows "match_loop p s (pi, si, star, mark) = Some (glob (tokens (drop pi p)) (drop si s) \<or> later p s star mark)"
  using assms
proof (induction "(pi, si, star, mark)" arbitrary: pi si star mark rule: wf_induct_rule [where r = "match_order p s", OF wf_measures])
  case (1 pi si star mark)
  show ?case
  proof (cases "si < length s")
    case False
    with "1.prems"(2) have "si = length s" by simp
    with "1.prems"(1) later_end have "\<not> later p s star mark" by blast
    then show ?thesis using False tokens_end [of "drop pi p"] by (simp add: match_loop.simps)
  next
    case True
    then show ?thesis using match_step_correct [OF "1.prems"(1) True] "1.hyps"
      by (subst match_loop.simps) (auto simp del: in_measures split: option.splits)
  qed
qed

text \<open>C30. Glob matching is total and correct: \<^verbatim>\<open>matchPattern\<close> returns on every pattern and string, and its answer
  is that of the recursive definition, in which a star tries every continuation. Going back to the
  last star only, as the loop does, loses no match.\<close>

theorem match_glob: "matchPattern p s = Some (glob (tokens p) s)"
  using match_loop_glob [of p 0 0 None 0 s]
  by (simp add: matchPattern_def matchBytes_def since_star_def later_def)


subsection \<open>\<^verbatim>\<open>path.Match\<close>\<close>

text \<open>The functions of Go's package \<^verbatim>\<open>path\<close> (and \<^verbatim>\<open>utf8.DecodeRuneInString\<close>), with the names they have there.
  \<^const>\<open>None\<close> is \<^verbatim>\<open>ErrBadPattern\<close>.\<close>

definition RuneError :: nat where "RuneError = 65533"

definition rune_tail :: "nat \<Rightarrow> (nat \<times> nat) option" where
  "rune_tail b =
     (if 194 \<le> b \<and> b \<le> 223 then Some (128, 191)
      else if b = 224 then Some (160, 191)
      else if b = 237 then Some (128, 159)
      else if 225 \<le> b \<and> b \<le> 239 then Some (128, 191)
      else if b = 240 then Some (144, 191)
      else if 241 \<le> b \<and> b \<le> 243 then Some (128, 191)
      else if b = 244 then Some (128, 143)
      else None)"

definition cont_byte :: "char \<Rightarrow> bool" where
  "cont_byte c \<longleftrightarrow> 128 \<le> ord c \<and> ord c \<le> 191"

definition DecodeRune :: "bytes \<Rightarrow> nat \<times> nat" where
  "DecodeRune s =
     (case s of
        [] \<Rightarrow> (RuneError, 0)
      | c # cs \<Rightarrow>
          let b = ord c in
          if b < 128 then (b, 1)
          else case rune_tail b of
            None \<Rightarrow> (RuneError, 1)
          | Some (lo, hi) \<Rightarrow>
              (case cs of
                 [] \<Rightarrow> (RuneError, 1)
               | d # ds \<Rightarrow>
                   if ord d < lo \<or> hi < ord d then (RuneError, 1)
                   else if b < 224 then ((b mod 32) * 64 + ord d mod 64, 2)
                   else case ds of
                     [] \<Rightarrow> (RuneError, 1)
                   | e # es \<Rightarrow>
                       if \<not> cont_byte e then (RuneError, 1)
                       else if b < 240 then ((b mod 16) * 4096 + (ord d mod 64) * 64 + ord e mod 64, 3)
                       else case es of
                         [] \<Rightarrow> (RuneError, 1)
                       | f # _ \<Rightarrow>
                           if \<not> cont_byte f then (RuneError, 1)
                           else ((b mod 8) * 262144 + (ord d mod 64) * 4096 + (ord e mod 64) * 64 + ord f mod 64, 4)))"

definition getEsc :: "bytes \<Rightarrow> (nat \<times> bytes) option" where
  "getEsc chunk =
     (if chunk = [] \<or> hd chunk = CHR ''-'' \<or> hd chunk = CHR '']'' then None
      else let c = (if hd chunk = backslash then tl chunk else chunk) in
        if c = [] then None
        else case DecodeRune c of (r, n) \<Rightarrow>
          if r = RuneError \<and> n = 1 \<or> drop n c = [] then None else Some (r, drop n c))"

lemma DecodeRune_size: "s \<noteq> [] \<Longrightarrow> 1 \<le> snd (DecodeRune s)"
  by (simp add: DecodeRune_def Let_def split: list.split option.split)

lemma getEsc_shorter: "getEsc chunk = Some (r, ch) \<Longrightarrow> length ch < length chunk \<and> ch \<noteq> []"
proof -
  assume a: "getEsc chunk = Some (r, ch)"
  define c where "c = (if hd chunk = backslash then tl chunk else chunk)"
  from a have c: "c \<noteq> []" "chunk \<noteq> []" "ch = drop (snd (DecodeRune c)) c" "ch \<noteq> []"
    by (auto simp: getEsc_def c_def Let_def split: if_splits prod.splits)
  have "length c \<le> length chunk" by (simp add: c_def)
  with c DecodeRune_size [OF c(1)] show ?thesis by (cases c) auto
qed

function class_scan :: "nat \<Rightarrow> bytes \<Rightarrow> bool \<Rightarrow> nat \<Rightarrow> (bool \<times> bytes) option" where
  "class_scan r chunk matched nrange =
     (if chunk \<noteq> [] \<and> hd chunk = CHR '']'' \<and> 0 < nrange then Some (matched, tl chunk)
      else case getEsc chunk of
        None \<Rightarrow> None
      | Some (lo, ch) \<Rightarrow>
          if hd ch = CHR ''-'' then
            (case getEsc (tl ch) of
               None \<Rightarrow> None
             | Some (hi, ch') \<Rightarrow> class_scan r ch' (matched \<or> lo \<le> r \<and> r \<le> hi) (nrange + 1))
          else class_scan r ch (matched \<or> lo = r) (nrange + 1))"
  by pat_completeness auto
termination
  by (relation "measure (\<lambda>(r, chunk, m, n). length chunk)") (auto dest!: getEsc_shorter)

declare class_scan.simps [simp del]

lemma class_scan_shorter: "class_scan r chunk m n = Some (m', ch) \<Longrightarrow> length ch < length chunk"
proof (induction r chunk m n rule: class_scan.induct)
  case (1 r chunk m n)
  show ?case using "1.prems" "1.IH"
    by (subst (asm) (1) class_scan.simps) (fastforce split: if_splits option.splits dest!: getEsc_shorter)
qed

function matchChunk :: "bytes \<Rightarrow> bytes \<Rightarrow> bool \<Rightarrow> bytes option option" where
  "matchChunk chunk s failed0 =
     (case chunk of
        [] \<Rightarrow> Some (if failed0 then None else Some s)
      | c # cs \<Rightarrow>
          let failed = (failed0 \<or> s = []) in
          if c = CHR ''['' then
            (let (r, s') = (if failed then (0, s) else (fst (DecodeRune s), drop (snd (DecodeRune s)) s));
                 negated = (cs \<noteq> [] \<and> hd cs = CHR ''^'')
             in case class_scan r (if negated then tl cs else cs) False 0 of
                  None \<Rightarrow> None
                | Some (m, rest) \<Rightarrow> matchChunk rest s' (failed \<or> m = negated))
          else if c = CHR ''?'' then
            (if failed then matchChunk cs s True
             else matchChunk cs (drop (snd (DecodeRune s)) s) (hd s = CHR ''/''))
          else if c = backslash \<and> cs = [] then None
          else let d = (if c = backslash then hd cs else c); rest = (if c = backslash then tl cs else cs)
            in if failed then matchChunk rest s True else matchChunk rest (tl s) (d \<noteq> hd s))"
  by pat_completeness auto
termination
  by (relation "measure (\<lambda>(chunk, s, f). length chunk)") (auto split: if_splits dest!: class_scan_shorter)

declare matchChunk.simps [simp del]

fun chunk_len :: "bytes \<Rightarrow> bool \<Rightarrow> nat" where
  "chunk_len [] inrange = 0"
| "chunk_len (c # cs) inrange =
     (if c = backslash then (case cs of [] \<Rightarrow> 1 | _ # ds \<Rightarrow> 2 + chunk_len ds inrange)
      else if c = CHR ''['' then 1 + chunk_len cs True
      else if c = CHR '']'' then 1 + chunk_len cs False
      else if c = CHR ''*'' \<and> \<not> inrange then 0
      else 1 + chunk_len cs inrange)"

definition scanChunk :: "bytes \<Rightarrow> bool \<times> bytes \<times> bytes" where
  "scanChunk pattern =
     (let p = dropWhile (\<lambda>c. c = CHR ''*'') pattern; n = chunk_len p False
      in (pattern \<noteq> [] \<and> hd pattern = CHR ''*'', take n p, drop n p))"

fun star_skip :: "bytes \<Rightarrow> bool \<Rightarrow> bytes \<Rightarrow> bytes option option" where
  "star_skip chunk final [] = Some None"
| "star_skip chunk final (c # rest) =
     (if c = CHR ''/'' then Some None
      else case matchChunk chunk rest False of
        None \<Rightarrow> None
      | Some None \<Rightarrow> star_skip chunk final rest
      | Some (Some t) \<Rightarrow> if final \<and> t \<noteq> [] then star_skip chunk final rest else Some (Some t))"

lemma scanChunk_shorter:
  assumes "pattern \<noteq> []" "scanChunk pattern = (star, chunk, rest)"
  shows "length rest < length pattern"
proof (cases "hd pattern = CHR ''*''")
  case True
  with assms(1) obtain ps where "pattern = CHR ''*'' # ps" by (cases pattern) auto
  then show ?thesis using assms(2) length_dropWhile_le [of "\<lambda>c. c = CHR ''*''" ps] by (auto simp: scanChunk_def Let_def)
next
  case False
  with assms(1) obtain c ps where p: "pattern = c # ps" "c \<noteq> CHR ''*''" by (cases pattern) auto
  then have "0 < chunk_len pattern False" by (auto split: list.split)
  with p assms(2) show ?thesis by (auto simp: scanChunk_def Let_def)
qed

function bad_rest :: "bytes \<Rightarrow> bool" where
  "bad_rest pattern =
     (if pattern = [] then False
      else case scanChunk pattern of (_, chunk, rest) \<Rightarrow> matchChunk chunk [] False = None \<or> bad_rest rest)"
  by pat_completeness auto
termination
  by (relation "measure length") (auto dest: scanChunk_shorter [OF _ sym])

declare bad_rest.simps [simp del]

definition eat_chunk :: "bool \<Rightarrow> bytes \<Rightarrow> bool \<Rightarrow> bytes \<Rightarrow> bytes option option" where
  "eat_chunk star chunk final name =
     (let again = (if star then star_skip chunk final name else Some None)
      in case matchChunk chunk name False of
           None \<Rightarrow> None
         | Some None \<Rightarrow> again
         | Some (Some t) \<Rightarrow> if t = [] \<or> \<not> final then Some (Some t) else again)"

function path_Match :: "bytes \<Rightarrow> bytes \<Rightarrow> bool option" where
  "path_Match pattern name =
     (if pattern = [] then Some (name = [])
      else case scanChunk pattern of (star, chunk, rest) \<Rightarrow>
        if star \<and> chunk = [] then Some (CHR ''/'' \<notin> set name)
        else case eat_chunk star chunk (rest = []) name of
          None \<Rightarrow> None
        | Some (Some t) \<Rightarrow> path_Match rest t
        | Some None \<Rightarrow> if bad_rest rest then None else Some False)"
  by pat_completeness auto
termination
  by (relation "measure (\<lambda>(p, n). length p)") (auto dest: scanChunk_shorter [OF _ sym])

declare path_Match.simps [simp del]

text \<open>Used as \<^verbatim>\<open>ok, err := path.Match(p, s)\<close> with a match counted only when \<^verbatim>\<open>err\<close> is nil.\<close>

definition path_ok :: "string \<Rightarrow> string \<Rightarrow> bool" where
  "path_ok p s = (path_Match p s = Some True)"

text \<open>A star stops at a slash.\<close>

lemma path_star: "path_ok ''*'' s \<longleftrightarrow> CHR ''/'' \<notin> set s"
  by (simp add: path_ok_def path_Match.simps [of "''*''"] scanChunk_def Let_def)
end
