(* ===== verification/Typed.thy ===== *)
theory Typed
  imports Strings Glob
begin

text \<open>
  The frame of the commands on one typed key (\<^verbatim>\<open>readList\<close>, \<^verbatim>\<open>readSet\<close>, \<^verbatim>\<open>readZSet\<close> and their handlers). Each
  handler checks its arguments, reads and decodes the entry of its key, decides on a reply, a change
  and the notifications, and carries them out. The decision is a pure function, a \<open>step\<close>; \<open>cell_cmd\<close> is the
  handler around it. The refinement to the dictionary is proved once, for every step.
\<close>

subsection \<open>Handlers\<close>

type_synonym noted = "(string \<times> string \<times> string) list"
type_synonym 'a step = "('a \<times> int) option \<Rightarrow> reply \<times> action \<times> noted"
type_synonym 'a parsed = "reply + string \<times> 'a step"

definition need :: "string \<Rightarrow> RVal \<Rightarrow> (string \<Rightarrow> reply + 'b) \<Rightarrow> reply + 'b" where
  "need msg a f = (case argString a of None \<Rightarrow> refuse msg | Some s \<Rightarrow> f s)"

definition need_int :: "RVal \<Rightarrow> (int \<Rightarrow> reply + 'b) \<Rightarrow> reply + 'b" where
  "need_int a f = (case Option.bind (argString a) ParseInt of None \<Rightarrow> refuse notint | Some n \<Rightarrow> f n)"

abbreviation need_key :: "RVal \<Rightarrow> (string \<Rightarrow> reply + 'b) \<Rightarrow> reply + 'b" where
  "need_key \<equiv> need ''ERR invalid key''"

definition typed_read ::
  "char \<Rightarrow> (bytes \<Rightarrow> (ds_error, 'a) res) \<Rightarrow> 's kv \<Rightarrow> int \<Rightarrow> string \<Rightarrow> ('s world, (cmd_error, 'a \<times> int) res) state" where
  "typed_read tag dec K now key = do {
     r \<leftarrow> getAny K now key;
     State_Monad.return (bind_res r (\<lambda>e.
       if Type e \<noteq> tag then Err (Message wrongtype)
       else (case dec (Payload e) of Ok x \<Rightarrow> Ok (x, Expiry e) | Err d \<Rightarrow> Err (Data d) | Panic \<Rightarrow> Panic)))
   }"

fun notify_all :: "noted \<Rightarrow> 's handler \<Rightarrow> 's handler" where
  "notify_all [] m = m"
| "notify_all ((c, e, k) # evs) m = do { notify c e k; notify_all evs m }"

fun finish :: "'s kv \<Rightarrow> string \<Rightarrow> reply \<times> action \<times> noted \<Rightarrow> 's handler" where
  "finish K key (v, Keep, evs) = notify_all evs (State_Monad.return v)"
| "finish K key (v, Remove t, evs) = do {
     r \<leftarrow> kdel K (prefix_of t @ key);
     (case r of Err e \<Rightarrow> answer (errValue K (Stored e)) | Panic \<Rightarrow> crash | Ok _ \<Rightarrow> notify_all evs (State_Monad.return v))
   }"
| "finish K key (v, Discard t, evs) = do {
     _ \<leftarrow> kdel K (prefix_of t @ key);
     notify_all evs (State_Monad.return v)
   }"
| "finish K key (v, Write t x p, evs) = do {
     r \<leftarrow> kset K (prefix_of t @ key) (Encode t x p);
     (case r of Err e \<Rightarrow> answer (errValue K (Stored e)) | Panic \<Rightarrow> crash | Ok _ \<Rightarrow> notify_all evs (State_Monad.return v))
   }"

definition step_cmd ::
  "'s kv \<Rightarrow> (string \<Rightarrow> ('s world, (cmd_error, 'a \<times> int) res) state) \<Rightarrow> 'a parsed \<Rightarrow> 's handler" where
  "step_cmd K rd p =
     (case p of
        Inl r \<Rightarrow> State_Monad.return r
      | Inr (key, g) \<Rightarrow> do {
          r \<leftarrow> rd key;
          (case r of
             Err e \<Rightarrow> if isNotFound e then finish K key (g None) else answer (errValue K e)
           | Panic \<Rightarrow> crash
           | Ok x \<Rightarrow> finish K key (g (Some x)))
        })"

definition cell_cmd :: "char \<Rightarrow> (bytes \<Rightarrow> (ds_error, 'a) res) \<Rightarrow> 's kv \<Rightarrow> int \<Rightarrow> 'a parsed \<Rightarrow> 's handler" where
  "cell_cmd tag dec K now = step_cmd K (typed_read tag dec K now)"

context kv_store
begin

lemma sim_case_sum [sim_intros]:
  "(\<And>x. msim (f x) (f' x)) \<Longrightarrow> (\<And>x. msim (g x) (g' x)) \<Longrightarrow> msim (case_sum f g y) (case_sum f' g' y)"
  by (cases y) simp_all

lemma sim_typed_read [sim_intros]: "msim (typed_read tag dec K now key) (typed_read tag dec M now key)"
  unfolding typed_read_def by (intro sim_intros) simp

lemma sim_note_all [sim_intros]: "msim m n \<Longrightarrow> msim (notify_all evs m) (notify_all evs n)"
  by (induction evs m rule: notify_all.induct) (auto intro!: sim_intros)

lemma sim_finish [sim_intros]: "msim (finish K key r) (finish M key r)"
proof -
  obtain v a evs where r: "r = (v, a, evs)" by (cases r)
  show ?thesis unfolding r by (cases a) (simp_all only: finish.simps, (intro sim_intros; simp)+)
qed

lemma sim_step_cmd [sim_intros]:
  "(\<And>key. msim (rd key) (rd' key)) \<Longrightarrow> msim (step_cmd K rd p) (step_cmd M rd' p)"
  unfolding step_cmd_def by (intro sim_intros) simp_all

lemma sim_cell_cmd [sim_intros]: "msim (cell_cmd tag dec K now p) (cell_cmd tag dec M now p)"
  unfolding cell_cmd_def by (intro sim_intros)

end

subsection \<open>The contract of a step\<close>

definition on_type :: "char \<Rightarrow> (bytes \<Rightarrow> (ds_error, 'a) res) \<Rightarrow> 'a step \<Rightarrow> cell_fn" where
  "on_type tag dec g old =
     (case old of
        None \<Rightarrow> (case g None of (v, a, _) \<Rightarrow> (v, a))
      | Some e \<Rightarrow>
          if Type e \<noteq> tag then (Ok (RError wrongtype), Keep)
          else case dec (Payload e) of
            Ok x \<Rightarrow> (case g (Some (x, Expiry e)) of (v, a, _) \<Rightarrow> (v, a))
          | Err d \<Rightarrow> (Ok (RError (ds_text d)), Keep)
          | Panic \<Rightarrow> (Panic, Keep))"

definition parsed_spec :: "char \<Rightarrow> (bytes \<Rightarrow> (ds_error, 'a) res) \<Rightarrow> 'a parsed \<Rightarrow> spec" where
  "parsed_spec tag dec p = (case p of Inl r \<Rightarrow> Inl r | Inr (key, g) \<Rightarrow> Inr (key, on_type tag dec g))"

text \<open>A step changes the cell of its own type only and keeps expiries in 64 bits.\<close>

fun act_tag :: "char \<Rightarrow> action \<Rightarrow> bool" where
  "act_tag tag Keep = True"
| "act_tag tag (Remove t) = (t = tag)"
| "act_tag tag (Discard t) = (t = tag)"
| "act_tag tag (Write t x v) = (t = tag \<and> int64_range x)"

definition step_ok :: "char \<Rightarrow> 'a parsed \<Rightarrow> bool" where
  "step_ok tag p \<longleftrightarrow> (\<forall>key g. p = Inr (key, g) \<longrightarrow>
     act_tag tag (fst (snd (g None)))
     \<and> (\<forall>x exp. int64_range exp \<longrightarrow> act_tag tag (fst (snd (g (Some (x, exp)))))))"

named_theorems step_oks

lemma step_ok_Inr [step_oks]:
  assumes "act_tag tag (fst (snd (g None)))"
    and "\<And>x exp. int64_range exp \<Longrightarrow> act_tag tag (fst (snd (g (Some (x, exp)))))"
  shows "step_ok tag (Inr (key, g))"
  using assms by (simp add: step_ok_def)

lemma step_ok_refuse [step_oks]: "step_ok tag (refuse msg)"
  by (simp add: step_ok_def refuse_def)

lemma step_ok_Inl [step_oks]: "step_ok tag (Inl r)"
  by (simp add: step_ok_def)

lemma step_ok_need [step_oks]: "(\<And>s. step_ok tag (f s)) \<Longrightarrow> step_ok tag (need msg a f)"
  by (simp add: need_def step_ok_refuse split: option.split)

lemma step_ok_need_int [step_oks]: "(\<And>n. step_ok tag (f n)) \<Longrightarrow> step_ok tag (need_int a f)"
  by (simp add: need_int_def step_ok_refuse split: option.split)

lemma step_ok_if [step_oks]: "(c \<Longrightarrow> step_ok tag a) \<Longrightarrow> (\<not> c \<Longrightarrow> step_ok tag b) \<Longrightarrow> step_ok tag (if c then a else b)"
  by simp

lemma step_ok_let [step_oks]: "(\<And>y. y = x \<Longrightarrow> step_ok tag (f y)) \<Longrightarrow> step_ok tag (Let x f)"
  by simp

lemma step_ok_case_option [step_oks]:
  "step_ok tag a \<Longrightarrow> (\<And>y. x = Some y \<Longrightarrow> step_ok tag (f y)) \<Longrightarrow> step_ok tag (case_option a f x)"
  by (cases x) simp_all

lemma step_ok_case_sum [step_oks]:
  "(\<And>y. x = Inl y \<Longrightarrow> step_ok tag (f y)) \<Longrightarrow> (\<And>y. x = Inr y \<Longrightarrow> step_ok tag (g y)) \<Longrightarrow> step_ok tag (case_sum f g x)"
  by (cases x) simp_all

lemma step_ok_case_prod [step_oks]:
  "(\<And>y z. x = (y, z) \<Longrightarrow> step_ok tag (f y z)) \<Longrightarrow> step_ok tag (case_prod f x)"
  by (cases x) simp_all

text \<open>A step that only reads.\<close>

definition look :: "RVal \<Rightarrow> ('a \<Rightarrow> RVal) \<Rightarrow> 'a step" where
  "look miss f old = (case old of None \<Rightarrow> (Ok miss, Keep, []) | Some (x, _) \<Rightarrow> (Ok (f x), Keep, []))"

lemma look_ok [simp]: "act_tag tag (fst (snd (look miss f old)))"
  by (simp add: look_def split: option.split prod.split)

lemma run_note_all: "run_state (notify_all evs m) w = run_state m (w\<lparr> events := events w @ evs \<rparr>)"
  by (induction evs m arbitrary: w rule: notify_all.induct) (auto simp: runs)

lemma run_finish:
  "fst (run_state (finish (map_kv T) key (v, a, evs)) w) = v"
  "store (snd (run_state (finish (map_kv T) key (v, a, evs)) w)) = act_store key a (store w)"
  by (cases a; simp add: runs run_note_all)+

lemma run_typed_read [runs]:
  "run_state (typed_read tag dec (map_kv T) now key) w =
     (bind_res (lookup (store w) now key) (\<lambda>(_, e).
        if Type e \<noteq> tag then Err (Message wrongtype)
        else (case dec (Payload e) of Ok x \<Rightarrow> Ok (x, Expiry e) | Err d \<Rightarrow> Err (Data d) | Panic \<Rightarrow> Panic)), purged now key w)"
  by (cases "lookup (store w) now key") (auto simp: typed_read_def runs)

lemma act_tag_ok: "act_tag tag a \<Longrightarrow> valid_tag tag \<Longrightarrow> \<forall>e. old = Some e \<longrightarrow> Type e = tag \<Longrightarrow> act_ok old a"
  by (cases a) auto

theorem cell_cmd_refines:
  assumes "step_ok tag p" "valid_tag tag"
  shows "refines now (cell_cmd tag dec (map_kv T) now p) (parsed_spec tag dec p)"
proof (cases p)
  case (Inl r)
  then show ?thesis by (simp add: cell_cmd_def step_cmd_def parsed_spec_def)
next
  case (Inr kg)
  obtain key g where p: "p = Inr (key, g)" using Inr by (cases kg) auto
  note ok = assms(1) [unfolded step_ok_def, rule_format, OF p]
  have "refines now (cell_cmd tag dec (map_kv T) now p) (Inr (key, on_type tag dec g))"
  proof (rule refines_key)
    fix w :: "(bytes \<rightharpoonup> bytes) world"
    assume L: "lookup (store w) now key = Err (Stored ErrNotFound)"
    obtain v a evs where g: "g None = (v, a, evs)" by (cases "g None")
    show "fst (run_state (cell_cmd tag dec (map_kv T) now p) w) = fst (on_type tag dec g None)
        \<and> store (snd (run_state (cell_cmd tag dec (map_kv T) now p) w)) = act_store key (snd (on_type tag dec g None)) (store (purged now key w))"
      using L g run_finish [of T key v a evs "purged now key w"] by (simp add: cell_cmd_def step_cmd_def p runs isNotFound_def on_type_def)
  next
    fix w :: "(bytes \<rightharpoonup> bytes) world" and raw e
    assume L: "lookup (store w) now key = Ok (raw, e)" and P: "purged now key w = w"
    show "fst (run_state (cell_cmd tag dec (map_kv T) now p) w) = fst (on_type tag dec g (Some e))
        \<and> store (snd (run_state (cell_cmd tag dec (map_kv T) now p) w)) = act_store key (snd (on_type tag dec g (Some e))) (store w)"
    proof (cases "Type e = tag")
      case False
      with L P show ?thesis by (simp add: cell_cmd_def step_cmd_def p runs isNotFound_def on_type_def errValue_def)
    next
      case True
      show ?thesis
      proof (cases "dec (Payload e)")
        case (Ok x)
        obtain v a evs where g: "g (Some (x, Expiry e)) = (v, a, evs)" by (cases "g (Some (x, Expiry e))")
        with True L P Ok run_finish [of T key v a evs w] show ?thesis by (simp add: cell_cmd_def step_cmd_def p runs on_type_def)
      qed (use True L P in \<open>simp_all add: cell_cmd_def step_cmd_def p runs isNotFound_def on_type_def errValue_def\<close>)
    qed
  next
    have "act_tag tag (fst (snd (g None)))" using ok by blast
    then show "act_ok None (snd (on_type tag dec g None))"
      using act_tag_ok [where tag = tag and old = None] assms(2) by (simp add: on_type_def case_prod_beta)
  next
    fix e :: Entry assume "int64_range (Expiry e)"
    then have "act_tag tag (fst (snd (g (Some (x, Expiry e)))))" for x using ok by blast
    then show "act_ok (Some e) (snd (on_type tag dec g (Some e)))"
      using act_tag_ok [where tag = tag and old = "Some e"] assms(2) by (simp add: on_type_def case_prod_beta split: res.split)
  qed
  then show ?thesis by (simp add: p parsed_spec_def)
qed

end
