(* ===== verification/MultiKey.thy ===== *)
theory MultiKey
  imports Typed
begin

text \<open>
  Commands on several keys, at the level of the dictionary. \<open>goes now (d, C) m r (d', C')\<close> says that the
  handler, on any well-formed store whose live keys are \<open>d\<close>, returns \<open>r\<close> and leaves the live keys \<open>d'\<close>. \<open>C\<close> is the
  set of the keys that the command has looked at: an expired cell of such a key is gone, so a value of
  any type may be written under it. The rules compose along the handler.
\<close>

subsection \<open>The judgement\<close>

type_synonym dstate = "(string \<rightharpoonup> Entry) \<times> string set"

definition shows_dict :: "int \<Rightarrow> dstate \<Rightarrow> (bytes \<rightharpoonup> bytes) world \<Rightarrow> bool" where
  "shows_dict now s w \<longleftrightarrow>
     wf_store (store w) \<and> dict (store w) now = fst s
     \<and> (\<forall>k \<in> snd s. fst s k = None \<longrightarrow> (\<forall>p \<in> set typePrefixes. store w (p @ k) = None))"

definition goes :: "int \<Rightarrow> dstate \<Rightarrow> ((bytes \<rightharpoonup> bytes) world, 'a) state \<Rightarrow> 'a \<Rightarrow> dstate \<Rightarrow> bool" where
  "goes now s m r s' \<longleftrightarrow>
     (\<forall>w. shows_dict now s w \<longrightarrow> fst (run_state m w) = r \<and> shows_dict now s' (snd (run_state m w)))"

lemma goes_bind:
  assumes "goes now s m x s'" "goes now s' (f x) r s''"
  shows "goes now s (State_Monad.bind m f) r s''"
  using assms by (simp add: goes_def State_Monad.run_state_bind case_prod_beta)

lemma goes_return: "goes now s (State_Monad.return x) x s"
  by (simp add: goes_def)

lemma goes_answer: "goes now s (answer v) (Ok v) s"
  by (simp add: goes_def)

lemma goes_notify: "goes now s (notify c e k) () s"
  by (simp add: goes_def shows_dict_def runs)

lemma goes_note_all: "goes now s m r s' \<Longrightarrow> goes now s (notify_all evs m) r s'"
  by (induction evs m rule: notify_all.induct) (auto intro: goes_bind goes_notify)

text \<open>What a read of a typed key returns.\<close>

definition typed_entry :: "char \<Rightarrow> (bytes \<Rightarrow> (ds_error, 'a) res) \<Rightarrow> Entry option \<Rightarrow> (cmd_error, 'a \<times> int) res" where
  "typed_entry tag dec old =
     (case old of
        None \<Rightarrow> Err (Stored ErrNotFound)
      | Some e \<Rightarrow>
          if Type e \<noteq> tag then Err (Message wrongtype)
          else (case dec (Payload e) of Ok x \<Rightarrow> Ok (x, Expiry e) | Err d \<Rightarrow> Err (Data d) | Panic \<Rightarrow> Panic))"

lemma shows_purged:
  assumes "shows_dict now (d, C) w"
  shows "shows_dict now (d, insert key C) (purged now key w)"
proof (cases "lookup (store w) now key")
  case (Err e)
  note L = lookup_miss [OF _ Err]
  have "store (purged now key w) x = None" if "store w x = None" for x
    using that by (simp add: purge_def split: option.split res.split)
  with L assms show ?thesis by (auto simp: shows_dict_def)
next
  case (Ok re)
  with assms have "d key \<noteq> None" by (cases re) (auto simp: shows_dict_def dict_def)
  with assms show ?thesis by (auto simp: shows_dict_def purge_hit [OF Ok])
qed simp

lemma goes_read:
  "goes now (d, C) (typed_read tag dec (map_kv T) now key) (typed_entry tag dec (d key)) (d, insert key C)"
  unfolding goes_def
proof (intro allI impI conjI)
  fix w :: "(bytes \<rightharpoonup> bytes) world" assume S: "shows_dict now (d, C) w"
  then have D: "dict (store w) now key = d key" and wf: "wf_store (store w)" by (auto simp: shows_dict_def)
  show "fst (run_state (typed_read tag dec (map_kv T) now key) w) = typed_entry tag dec (d key)"
  proof (cases "lookup (store w) now key")
    case (Err e)
    with lookup_miss(1,2) [OF wf Err] D show ?thesis by (simp add: runs typed_entry_def)
  next
    case (Ok re)
    with D [symmetric] show ?thesis by (cases re) (simp add: runs typed_entry_def dict_def)
  qed simp
  show "shows_dict now (d, insert key C) (snd (run_state (typed_read tag dec (map_kv T) now key) w))"
    using shows_purged [OF S] by (simp add: runs)
qed

text \<open>A written entry is live.\<close>

fun act_live :: "int \<Rightarrow> action \<Rightarrow> bool" where
  "act_live now (Write t x v) = (x = 0 \<or> now < x)"
| "act_live now _ = True"

lemma act_store_other: "k \<noteq> key \<Longrightarrow> p \<in> set typePrefixes \<Longrightarrow> act_store key a m (p @ k) = m (p @ k)"
  by (cases a) (auto dest: raw_eq_iff [THEN iffD1, rotated 2])

lemma act_store_clean:
  assumes "wf_store m" "act_ok (dict m now key) a" "act_live now a"
    and "dict m now key = None \<Longrightarrow> m (p @ key) = None"
    and "apply_action now key a (dict m now) key = None" "p \<in> set typePrefixes"
  shows "act_store key a m (p @ key) = None"
proof (cases "dict m now key")
  case None
  with assms show ?thesis by (cases a) auto
next
  case (Some e)
  then obtain t where a: "a = Remove t \<or> a = Discard t" using assms(3,5) by (cases a) auto
  then have t: "Type e = t" using assms(2) Some by auto
  obtain raw where "lookup m now key = Ok (raw, e)" using dict_lookup [OF Some] by blast
  from lookup_Ok [OF this] obtain q v where q: "q \<in> set typePrefixes" "m (q @ key) = Some v" "Decode v = Ok e" by auto
  from wf_cell [OF assms(1) q(1,2)] q(3) have "prefix_of t = q" using t by (auto intro: tag_prefix [OF q(1)])
  with a wf_other [OF assms(1) q(1) _ assms(6)] q(2) show ?thesis by (cases "p = q") auto
qed

lemma goes_act:
  assumes "key \<in> C" "act_ok (d key) a" "act_live now a"
    and run: "\<And>w. fst (run_state m w) = r \<and> store (snd (run_state m w)) = act_store key a (store w)"
  shows "goes now (d, C) m r (apply_action now key a d, C)"
  unfolding goes_def
proof (intro allI impI conjI)
  fix w :: "(bytes \<rightharpoonup> bytes) world" assume S: "shows_dict now (d, C) w"
  let ?m = "act_store key a (store w)"
  have wf: "wf_store (store w)" and D: "dict (store w) now = d"
    and clean: "\<And>k p. k \<in> C \<Longrightarrow> d k = None \<Longrightarrow> p \<in> set typePrefixes \<Longrightarrow> store w (p @ k) = None"
    using S by (auto simp: shows_dict_def)
  show "fst (run_state m w) = r" using run by blast
  have A: "wf_store ?m \<and> dict ?m now = apply_action now key a d"
  proof (cases "d key")
    case None
    with act_miss [OF wf clean [OF assms(1) None] assms(2) [unfolded None], where now = now] D show ?thesis by simp
  next
    case (Some e)
    then obtain raw where L: "lookup (store w) now key = Ok (raw, e)" using dict_lookup D by blast
    with act_hit [OF wf L assms(2) [unfolded Some]] D show ?thesis by simp
  qed
  have "?m (p @ k) = None" if "k \<in> C" "apply_action now key a d k = None" "p \<in> set typePrefixes" for k p
  proof (cases "k = key")
    case True
    with act_store_clean [OF wf, of now key a p] D assms(1-3) clean that show ?thesis by simp
  next
    case False
    with that(2) have "d k = None" by (cases a) auto
    with False clean that(1,3) show ?thesis by (simp add: act_store_other)
  qed
  with A run show "shows_dict now (apply_action now key a d, C) (snd (run_state m w))" by (auto simp: shows_dict_def)
qed

lemma goes_kset:
  assumes "key \<in> C" "act_ok (d key) (Write t x v)" "x = 0 \<or> now < x"
  shows "goes now (d, C) (kset (map_kv T) (prefix_of t @ key) (Encode t x v)) (Ok ())
    (d(key \<mapsto> \<lparr> Type = t, Expiry = x, Payload = v \<rparr>), C)"
  using goes_act [of key C d "Write t x v" now "kset (map_kv T) (prefix_of t @ key) (Encode t x v)" "Ok ()"] assms
  by (auto simp: runs)

lemma goes_kdel:
  assumes "key \<in> C" "act_ok (d key) (Remove t)"
  shows "goes now (d, C) (kdel (map_kv T) (prefix_of t @ key)) (Ok ()) (d(key := None), C)"
  using goes_act [of key C d "Remove t" now "kdel (map_kv T) (prefix_of t @ key)" "Ok ()"] assms
  by (auto simp: runs)

text \<open>The entries of a dictionary are live and have an expiry of 64 bits.\<close>

definition live_dict :: "int \<Rightarrow> (string \<rightharpoonup> Entry) \<Rightarrow> bool" where
  "live_dict now d \<longleftrightarrow> (\<forall>k e. d k = Some e \<longrightarrow> (Expiry e = 0 \<or> now < Expiry e) \<and> int64_range (Expiry e))"

lemma live_dict_dict: "live_dict now (dict m now)"
proof -
  have "(Expiry e = 0 \<or> now < Expiry e) \<and> int64_range (Expiry e)" if D: "dict m now k = Some e" for k e
  proof -
    obtain raw where "lookup m now k = Ok (raw, e)" using dict_lookup [OF D] by blast
    from lookup_Ok [OF this] show ?thesis by (auto simp: expired_at_def dest: Decode_range)
  qed
  then show ?thesis by (auto simp: live_dict_def)
qed

lemma typed_entry_Ok:
  assumes "typed_entry tag dec (d key) = Ok (x, exp)"
  obtains e where "d key = Some e" "Type e = tag" "dec (Payload e) = Ok x" "Expiry e = exp"
  using assms by (auto simp: typed_entry_def split: option.splits if_splits res.splits)

lemma goes_transfer:
  assumes "kv_store K view live" "sim view live h n" "goes now (dict (view (store w)) now, {}) n r (d', C)"
    and "live (store w)" "wf_store (view (store w))" "run_state h w = (r', w')"
  shows "live (store w') \<and> wf_store (view (store w')) \<and> r' = r \<and> dict (view (store w')) now = d'"
proof -
  have "shows_dict now (dict (view (store w)) now, {}) (absw view w)" using assms(5) by (simp add: shows_dict_def)
  with assms(3) have "fst (run_state n (absw view w)) = r" "shows_dict now (d', C) (snd (run_state n (absw view w)))"
    by (auto simp: goes_def)
  with simD [OF assms(2,4)] assms(6) show ?thesis by (simp add: shows_dict_def)
qed


subsection \<open>A store with one key\<close>

definition one_world :: "char \<Rightarrow> string \<Rightarrow> bytes \<Rightarrow> (bytes \<times> bytes) list Pebble world" where
  "one_world t key v = \<lparr> store = New [(prefix_of t @ key, Encode t 0 v)] None, events = [], expiredN = 0 \<rparr>"

lemma dict_empty: "dict Map.empty now = Map.empty"
  by (rule ext) (simp add: dict_def lookup_absent)

lemma one_dict:
  assumes "valid_tag t"
  shows "wf_store [prefix_of t @ key \<mapsto> Encode t 0 v]"
    and "dict [prefix_of t @ key \<mapsto> Encode t 0 v] now = [key \<mapsto> \<lparr> Type = t, Expiry = 0, Payload = v \<rparr>]"
  using act_miss [of Map.empty key "Write t 0 v" now] assms by (simp_all add: wf_empty dict_empty int64_range_def)

end
