(* ===== verification/Lists.thy ===== *)
theory Lists
  imports MultiKey
begin

text \<open>
  The list commands of \<^verbatim>\<open>internal/commands\<close>: \<^verbatim>\<open>list.go\<close>, \<^verbatim>\<open>list_mod.go\<close> and \<^verbatim>\<open>list_block.go\<close>. The commands on
  one key are steps of \<^const>\<open>cell_cmd\<close>; \<^verbatim>\<open>moveCore\<close> and the popping loops work on two or more keys. The
  blocking commands poll: what the other clients do between two polls is a list of functions on the
  world, and the list ends when the timeout is over or the client is gone.
\<close>

subsection \<open>\<^verbatim>\<open>list.go\<close>\<close>

definition readList :: "'s kv \<Rightarrow> int \<Rightarrow> string \<Rightarrow> ('s world, (cmd_error, bytes list \<times> int) res) state" where
  "readList = typed_read TypeList DecodeList"

definition writeList :: "'s kv \<Rightarrow> string \<Rightarrow> bytes list \<Rightarrow> int \<Rightarrow> ('s world, (storage_error, unit) res) state" where
  "writeList K key elems expiry = kset K (ListKey key) (Encode TypeList expiry (EncodeList elems))"

definition list_cmd :: "'s kv \<Rightarrow> int \<Rightarrow> bytes list parsed \<Rightarrow> 's handler" where
  "list_cmd = cell_cmd TypeList DecodeList"

abbreviation keep_list :: "bytes list \<Rightarrow> int \<Rightarrow> action" where
  "keep_list elems expiry \<equiv> Write TypeList expiry (EncodeList elems)"

definition toBulkArray :: "string list \<Rightarrow> RVal" where
  "toBulkArray elems = Array (Some (map BulkOf elems))"

fun push_loop :: "bool \<Rightarrow> RVal list \<Rightarrow> bytes list \<Rightarrow> bytes list option" where
  "push_loop head [] elems = Some elems"
| "push_loop head (a # as) elems =
     (case argString a of
        None \<Rightarrow> None
      | Some v \<Rightarrow> push_loop head as (if head then v # elems else elems @ [v]))"

definition push_step :: "bool \<Rightarrow> RVal list \<Rightarrow> string \<Rightarrow> bytes list step" where
  "push_step head vs key old =
     (case (case old of None \<Rightarrow> ([], 0) | Some x \<Rightarrow> x) of (elems, expiry) \<Rightarrow>
        (case push_loop head vs elems of
           None \<Rightarrow> (Ok (RError ''ERR invalid value''), Keep, [])
         | Some out \<Rightarrow>
             (Ok (Integer (int (length out))), keep_list out expiry, [(''l'', if head then ''lpush'' else ''rpush'', key)])))"

definition push :: "bool \<Rightarrow> RVal list \<Rightarrow> bytes list parsed" where
  "push head args =
     (if length args < 2 then refuse (wrongargs ''push'')
      else need_key (args ! 0) (\<lambda>key. Inr (key, push_step head (tl args) key)))"

definition lpush :: "RVal list \<Rightarrow> bytes list parsed" where
  "lpush args = (push True args)"

definition rpush :: "RVal list \<Rightarrow> bytes list parsed" where
  "rpush args = (push False args)"

text \<open>What is taken from an end of a list, and what stays.\<close>

definition split_end :: "bool \<Rightarrow> int \<Rightarrow> 'a list \<Rightarrow> 'a list \<times> 'a list" where
  "split_end tail cnt elems =
     (let n = (if int (length elems) < cnt then length elems else nat cnt)
      in if tail then (drop (length elems - n) elems, take (length elems - n) elems)
         else (take n elems, drop n elems))"

definition pop_step :: "bool \<Rightarrow> int option \<Rightarrow> string \<Rightarrow> bytes list step" where
  "pop_step tail cnt key old =
     (case old of
        None \<Rightarrow> (Ok (if cnt = None then NilBulk else toBulkArray []), Keep, [])
      | Some (elems, expiry) \<Rightarrow>
          (case split_end tail (case cnt of None \<Rightarrow> 1 | Some n \<Rightarrow> n) elems of (out, rest) \<Rightarrow>
             (let event = (if tail then ''rpop'' else ''lpop'');
                  v = (if cnt = None then (if out = [] then NilBulk else BulkOf (hd out)) else toBulkArray out)
              in if rest = [] then (Ok v, Remove TypeList, [(''l'', event, key), (''g'', ''del'', key)])
                 else (Ok v, keep_list rest expiry, [(''l'', event, key)]))))"

definition popOne :: "bool \<Rightarrow> RVal list \<Rightarrow> bytes list parsed" where
  "popOne tail args =
     (if length args < 1 \<or> 2 < length args then refuse (wrongargs ''pop'')
      else need_key (args ! 0) (\<lambda>key.
        if length args = 2
        then need_int (args ! 1) (\<lambda>n. if n < 0 then refuse notint else Inr (key, pop_step tail (Some n) key))
        else Inr (key, pop_step tail None key)))"

definition lpop :: "RVal list \<Rightarrow> bytes list parsed" where
  "lpop args = (popOne False args)"

definition rpop :: "RVal list \<Rightarrow> bytes list parsed" where
  "rpop args = (popOne True args)"

definition llen :: "RVal list \<Rightarrow> bytes list parsed" where
  "llen args =
     (if length args \<noteq> 1 then refuse (wrongargs ''llen'')
      else need_key (args ! 0) (\<lambda>key. Inr (key, look (Integer 0) (\<lambda>elems. Integer (int (length elems))))))"

definition normalizeIndex :: "int \<Rightarrow> int \<Rightarrow> int" where
  "normalizeIndex idx0 n = (let idx = (if idx0 < 0 then idx0 + n else idx0) in if idx < 0 \<or> n \<le> idx then -1 else idx)"

definition lindex :: "RVal list \<Rightarrow> bytes list parsed" where
  "lindex args =
     (if length args \<noteq> 2 then refuse (wrongargs ''lindex'')
      else need_key (args ! 0) (\<lambda>key. need_int (args ! 1) (\<lambda>idx. Inr (key, look NilBulk (\<lambda>elems.
        let pos = normalizeIndex idx (int (length elems)) in if pos < 0 then NilBulk else BulkOf (elems ! nat pos))))))"

definition list_range :: "'a list \<Rightarrow> int \<Rightarrow> int \<Rightarrow> 'a list" where
  "list_range elems start0 stop0 =
     (let n = int (length elems);
          start1 = (if start0 < 0 then start0 + n else start0);
          stop1 = (if stop0 < 0 then stop0 + n else stop0);
          start = (if start1 < 0 then 0 else start1);
          stop = (if n \<le> stop1 then n - 1 else stop1)
      in if stop < start \<or> n \<le> start then [] else take (nat (stop + 1 - start)) (drop (nat start) elems))"

definition lrange :: "RVal list \<Rightarrow> bytes list parsed" where
  "lrange args =
     (if length args \<noteq> 3 then refuse (wrongargs ''lrange'')
      else need_key (args ! 0) (\<lambda>key. need_int (args ! 1) (\<lambda>start. need_int (args ! 2) (\<lambda>stop.
        Inr (key, look (toBulkArray []) (\<lambda>elems. toBulkArray (list_range elems start stop)))))))"

subsection \<open>\<^verbatim>\<open>list_mod.go\<close>\<close>

definition lset_step :: "int \<Rightarrow> string \<Rightarrow> string \<Rightarrow> bytes list step" where
  "lset_step idx val key old =
     (case old of
        None \<Rightarrow> (Ok (RError ''ERR no such key''), Keep, [])
      | Some (elems, expiry) \<Rightarrow>
          (let pos = normalizeIndex idx (int (length elems)) in
           if pos < 0 then (Ok (RError ''ERR index out of range''), Keep, [])
           else (Ok (SimpleString ''OK''), keep_list (elems[nat pos := val]) expiry, [(''l'', ''lset'', key)])))"

definition lset :: "RVal list \<Rightarrow> bytes list parsed" where
  "lset args =
     (if length args \<noteq> 3 then refuse (wrongargs ''lset'')
      else need_key (args ! 0) (\<lambda>key. need_int (args ! 1) (\<lambda>idx. need ''ERR invalid value'' (args ! 2) (\<lambda>val.
        Inr (key, lset_step idx val key)))))"

fun index_of :: "'a \<Rightarrow> 'a list \<Rightarrow> nat option" where
  "index_of x [] = None"
| "index_of x (y # ys) = (if y = x then Some 0 else map_option Suc (index_of x ys))"

definition linsert_step :: "bool \<Rightarrow> string \<Rightarrow> string \<Rightarrow> string \<Rightarrow> bytes list step" where
  "linsert_step after pivot val key old =
     (case old of
        None \<Rightarrow> (Ok (Integer 0), Keep, [])
      | Some (elems, expiry) \<Rightarrow>
          (case index_of pivot elems of
             None \<Rightarrow> (Ok (Integer (-1)), Keep, [])
           | Some i \<Rightarrow>
               (let pos = (if after then i + 1 else i); out = take pos elems @ val # drop pos elems
                in (Ok (Integer (int (length out))), keep_list out expiry, [(''l'', ''linsert'', key)]))))"

definition linsert :: "RVal list \<Rightarrow> bytes list parsed" where
  "linsert args =
     (if length args \<noteq> 4 then refuse (wrongargs ''linsert'')
      else need_key (args ! 0) (\<lambda>key. need ''ERR syntax error'' (args ! 1) (\<lambda>w.
        if ToUpper w \<noteq> ''BEFORE'' \<and> ToUpper w \<noteq> ''AFTER'' then refuse ''ERR syntax error''
        else need ''ERR invalid pivot'' (args ! 2) (\<lambda>pivot. need ''ERR invalid value'' (args ! 3) (\<lambda>val.
          Inr (key, linsert_step (ToUpper w = ''AFTER'') pivot val key))))))"

definition absCount :: "int \<Rightarrow> int" where
  "absCount n = (if n < 0 then wrap64 (- n) else n)"

text \<open>The two loops of \<^verbatim>\<open>LREM\<close>: from the head, keeping at the end; from the tail, keeping at the front.\<close>

fun lrem_fwd :: "string \<Rightarrow> int \<Rightarrow> bytes list \<Rightarrow> bytes list \<Rightarrow> int \<Rightarrow> bytes list \<times> int" where
  "lrem_fwd val cnt [] kept removed = (kept, removed)"
| "lrem_fwd val cnt (e # es) kept removed =
     (if e = val \<and> (cnt = 0 \<or> removed < absCount cnt) then lrem_fwd val cnt es kept (removed + 1)
      else lrem_fwd val cnt es (kept @ [e]) removed)"

fun lrem_back :: "string \<Rightarrow> int \<Rightarrow> bytes list \<Rightarrow> bytes list \<Rightarrow> int \<Rightarrow> bytes list \<times> int" where
  "lrem_back val cnt [] kept removed = (kept, removed)"
| "lrem_back val cnt (e # es) kept removed =
     (if e = val \<and> (cnt = 0 \<or> removed < absCount cnt) then lrem_back val cnt es kept (removed + 1)
      else lrem_back val cnt es (e # kept) removed)"

definition lrem_elems :: "string \<Rightarrow> int \<Rightarrow> bytes list \<Rightarrow> bytes list \<times> int" where
  "lrem_elems val cnt elems =
     (if 0 \<le> cnt then lrem_fwd val cnt elems [] 0 else lrem_back val cnt (rev elems) [] 0)"

definition lrem_step :: "int \<Rightarrow> string \<Rightarrow> string \<Rightarrow> bytes list step" where
  "lrem_step cnt val key old =
     (case old of
        None \<Rightarrow> (Ok (Integer 0), Keep, [])
      | Some (elems, expiry) \<Rightarrow>
          (case lrem_elems val cnt elems of (kept, removed) \<Rightarrow>
             if kept = [] \<and> 0 < removed then
               (Ok (Integer removed), Discard TypeList, [(''l'', ''lrem'', key), (''g'', ''del'', key)])
             else if 0 < removed then (Ok (Integer removed), keep_list kept expiry, [(''l'', ''lrem'', key)])
             else (Ok (Integer removed), Keep, [])))"

definition lrem :: "RVal list \<Rightarrow> bytes list parsed" where
  "lrem args =
     (if length args \<noteq> 3 then refuse (wrongargs ''lrem'')
      else need_key (args ! 0) (\<lambda>key. need_int (args ! 1) (\<lambda>cnt. need ''ERR invalid value'' (args ! 2) (\<lambda>val.
        Inr (key, lrem_step cnt val key)))))"

definition ltrim_step :: "int \<Rightarrow> int \<Rightarrow> string \<Rightarrow> bytes list step" where
  "ltrim_step start stop key old =
     (case old of
        None \<Rightarrow> (Ok (SimpleString ''OK''), Keep, [])
      | Some (elems, expiry) \<Rightarrow>
          (let kept = list_range elems start stop in
           if kept = [] then (Ok (SimpleString ''OK''), Discard TypeList, [(''l'', ''ltrim'', key), (''g'', ''del'', key)])
           else (Ok (SimpleString ''OK''), keep_list kept expiry, [(''l'', ''ltrim'', key)])))"

definition ltrim :: "RVal list \<Rightarrow> bytes list parsed" where
  "ltrim args =
     (if length args \<noteq> 3 then refuse (wrongargs ''ltrim'')
      else need_key (args ! 0) (\<lambda>key. need_int (args ! 1) (\<lambda>start. need_int (args ! 2) (\<lambda>stop.
        Inr (key, ltrim_step start stop key)))))"


definition parseMoveSide :: "string \<Rightarrow> bool option" where
  "parseMoveSide s = (if ToUpper s = ''LEFT'' then Some False else if ToUpper s = ''RIGHT'' then Some True else None)"

definition or_empty :: "(cmd_error, bytes list \<times> int) res \<Rightarrow> (cmd_error, bytes list \<times> int) res" where
  "or_empty r = (case r of Err e \<Rightarrow> if isNotFound e then Ok ([], 0) else Err e | _ \<Rightarrow> r)"

text \<open>The writes of \<^verbatim>\<open>moveCore\<close>: \<open>out\<close> goes to the target, \<open>rest\<close> stays at the source.\<close>

definition move_write ::
  "'s kv \<Rightarrow> string \<Rightarrow> string \<Rightarrow> bool \<Rightarrow> bool \<Rightarrow> bytes \<Rightarrow> bytes list \<times> int \<Rightarrow> bytes list \<times> int \<Rightarrow> 's handler" where
  "move_write K src dst fromTail toTail elem kept target =
     (case (kept, target) of ((rest, srcExp), (out, dstExp)) \<Rightarrow>
        let pushEvent = (if toTail then ''rpush'' else ''lpush'');
            popEvent = (if fromTail then ''rpop'' else ''lpop'');
            v = BulkString (Some elem)
        in if src = dst then do {
             w \<leftarrow> writeList K dst out srcExp;
             (case w of
                Err e \<Rightarrow> answer (errValue K (Stored e))
              | Panic \<Rightarrow> crash
              | Ok _ \<Rightarrow> notify_all [(''l'', pushEvent, dst), (''l'', popEvent, src)] (answer v))
           }
           else do {
             w \<leftarrow> writeList K dst out dstExp;
             (case w of
                Err e \<Rightarrow> answer (errValue K (Stored e))
              | Panic \<Rightarrow> crash
              | Ok _ \<Rightarrow> do {
                  notify ''l'' pushEvent dst;
                  u \<leftarrow> (if rest = [] then kdel K (ListKey src) else writeList K src rest srcExp);
                  (case u of
                     Err e \<Rightarrow> answer (errValue K (Stored e))
                   | Panic \<Rightarrow> crash
                   | Ok _ \<Rightarrow>
                       notify_all ((''l'', popEvent, src) # (if rest = [] then [(''g'', ''del'', src)] else [])) (answer v))
                })
           })"

definition attach :: "bool \<Rightarrow> 'a \<Rightarrow> 'a list \<Rightarrow> 'a list" where
  "attach tail x xs = (if tail then xs @ [x] else x # xs)"

definition take_end :: "bool \<Rightarrow> 'a list \<Rightarrow> 'a \<times> 'a list" where
  "take_end tail xs = (if tail then (last xs, butlast xs) else (hd xs, tl xs))"

definition moveCore :: "'s kv \<Rightarrow> int \<Rightarrow> string \<Rightarrow> string \<Rightarrow> bool \<Rightarrow> bool \<Rightarrow> 's handler" where
  "moveCore K now src dst fromTail toTail = do {
     r \<leftarrow> readList K now src;
     (case r of
        Err e \<Rightarrow> missing K NilBulk e
      | Panic \<Rightarrow> crash
      | Ok (srcElems, srcExp) \<Rightarrow>
          if srcElems = [] then answer NilBulk
          else case take_end fromTail srcElems of (elem, rest) \<Rightarrow> do {
            d \<leftarrow> readList K now dst;
            (case or_empty d of
               Err e \<Rightarrow> answer (errValue K e)
             | Panic \<Rightarrow> crash
             | Ok (dstElems, dstExp) \<Rightarrow>
                 move_write K src dst fromTail toTail elem (rest, srcExp) (attach toTail elem dstElems, dstExp))
          })
   }"

text \<open>The checks of \<^verbatim>\<open>LMOVE\<close> and \<^verbatim>\<open>BLMOVE\<close> before the two ends are known.\<close>

definition move_args :: "RVal list \<Rightarrow> reply + (string \<times> string \<times> bool \<times> bool)" where
  "move_args args =
     need_key (args ! 0) (\<lambda>src. need_key (args ! 1) (\<lambda>dst.
       need ''ERR syntax error'' (args ! 2) (\<lambda>f. case parseMoveSide f of
         None \<Rightarrow> refuse ''ERR syntax error''
       | Some fromTail \<Rightarrow> need ''ERR syntax error'' (args ! 3) (\<lambda>t. case parseMoveSide t of
           None \<Rightarrow> refuse ''ERR syntax error''
         | Some toTail \<Rightarrow> Inr (src, dst, fromTail, toTail)))))"

definition lmove :: "'s kv \<Rightarrow> int \<Rightarrow> RVal list \<Rightarrow> 's handler" where
  "lmove K now args =
     (if length args \<noteq> 4 then fail (wrongargs ''lmove'')
      else case move_args args of
        Inl r \<Rightarrow> State_Monad.return r
      | Inr (src, dst, fromTail, toTail) \<Rightarrow> moveCore K now src dst fromTail toTail)"

definition rpoplpush :: "'s kv \<Rightarrow> int \<Rightarrow> RVal list \<Rightarrow> 's handler" where
  "rpoplpush K now args =
     (if length args \<noteq> 2 then fail (wrongargs ''rpoplpush'')
      else case need_key (args ! 0) (\<lambda>src. need_key (args ! 1) (\<lambda>dst. Inr (src, dst))) of
        Inl r \<Rightarrow> State_Monad.return r
      | Inr (src, dst) \<Rightarrow> moveCore K now src dst True False)"

text \<open>Between two polls the clock advances and the other clients act.\<close>

type_synonym 's polls = "(int \<times> ('s world \<Rightarrow> 's world)) list"

definition meanwhile :: "('s world \<Rightarrow> 's world) \<Rightarrow> ('s world, unit) state" where
  "meanwhile f = State (\<lambda>w. ((), f w))"

text \<open>A reply counts as nothing moved when it is a bulk string without bytes.\<close>

fun no_move :: "reply \<Rightarrow> bool" where
  "no_move (Ok (BulkString b)) = (bulk b = [])"
| "no_move _ = False"

fun blockMove_loop :: "'s kv \<Rightarrow> int \<Rightarrow> string \<Rightarrow> string \<Rightarrow> bool \<Rightarrow> bool \<Rightarrow> 's polls \<Rightarrow> 's handler" where
  "blockMove_loop K now src dst fromTail toTail ps = do {
     r \<leftarrow> moveCore K now src dst fromTail toTail;
     if \<not> no_move r then State_Monad.return r
     else case ps of
       [] \<Rightarrow> answer NilBulk
     | (now', f) # ps' \<Rightarrow> do { meanwhile f; blockMove_loop K now' src dst fromTail toTail ps' }
   }"

declare blockMove_loop.simps [simp del]

definition blockMove :: "'s kv \<Rightarrow> int \<Rightarrow> string \<Rightarrow> string \<Rightarrow> bool \<Rightarrow> bool \<Rightarrow> 's polls \<Rightarrow> 's handler" where
  "blockMove K now src dst fromTail toTail ps = do {
     r \<leftarrow> readList K now src;
     (case r of
        Err e \<Rightarrow> if isNotFound e then blockMove_loop K now src dst fromTail toTail ps else answer (errValue K e)
      | Panic \<Rightarrow> crash
      | Ok _ \<Rightarrow> blockMove_loop K now src dst fromTail toTail ps)
   }"

definition parseMoveTimeout :: "RVal \<Rightarrow> (float64 \<Rightarrow> reply + 'b) \<Rightarrow> reply + 'b" where
  "parseMoveTimeout a k =
     need ''ERR timeout is not a float or out of range'' a (\<lambda>s. case ParseFloat s of
       None \<Rightarrow> refuse ''ERR timeout is not a float or out of range''
     | Some f \<Rightarrow> if f64_lt f 0 then refuse ''ERR timeout is negative'' else k f)"

text \<open>\<open>wait\<close> gives the polls that a timeout allows.\<close>

definition blmove ::
  "(float64 \<Rightarrow> 's polls) \<Rightarrow> 's kv \<Rightarrow> int \<Rightarrow> RVal list \<Rightarrow> 's handler" where
  "blmove wait K now args =
     (if length args \<noteq> 5 then fail (wrongargs ''blmove'')
      else case (case move_args args of Inl r \<Rightarrow> Inl r | Inr m \<Rightarrow> parseMoveTimeout (args ! 4) (\<lambda>t. Inr (m, t))) of
        Inl r \<Rightarrow> State_Monad.return r
      | Inr ((src, dst, fromTail, toTail), t) \<Rightarrow> blockMove K now src dst fromTail toTail (wait t))"

definition brpoplpush ::
  "(float64 \<Rightarrow> 's polls) \<Rightarrow> 's kv \<Rightarrow> int \<Rightarrow> RVal list \<Rightarrow> 's handler" where
  "brpoplpush wait K now args =
     (if length args \<noteq> 3 then fail (wrongargs ''brpoplpush'')
      else case need_key (args ! 0) (\<lambda>src. need_key (args ! 1) (\<lambda>dst. parseMoveTimeout (args ! 2) (\<lambda>t. Inr (src, dst, t)))) of
        Inl r \<Rightarrow> State_Monad.return r
      | Inr (src, dst, t) \<Rightarrow> blockMove K now src dst True False (wait t))"

subsection \<open>\<^verbatim>\<open>list_block.go\<close>\<close>

definition tryPopCount ::
  "'s kv \<Rightarrow> int \<Rightarrow> string \<Rightarrow> bool \<Rightarrow> int \<Rightarrow> ('s world, (cmd_error, bytes list option) res) state" where
  "tryPopCount K now key tail cnt = do {
     r \<leftarrow> readList K now key;
     (case r of
        Err e \<Rightarrow> State_Monad.return (if isNotFound e then Ok None else Err e)
      | Panic \<Rightarrow> State_Monad.return Panic
      | Ok (elems, expiry) \<Rightarrow>
          if elems = [] then State_Monad.return (Ok None)
          else case split_end tail cnt elems of (out, rest) \<Rightarrow> do {
            u \<leftarrow> (if rest = [] then kdel K (ListKey key) else writeList K key rest expiry);
            State_Monad.return (case u of Err e \<Rightarrow> Err (Stored e) | Panic \<Rightarrow> Panic | Ok _ \<Rightarrow> Ok (Some out))
          })
   }"

definition tryPopSingle ::
  "'s kv \<Rightarrow> int \<Rightarrow> string \<Rightarrow> bool \<Rightarrow> ('s world, (cmd_error, bytes option) res) state" where
  "tryPopSingle K now key tail = do {
     r \<leftarrow> readList K now key;
     (case r of
        Err e \<Rightarrow> State_Monad.return (if isNotFound e then Ok None else Err e)
      | Panic \<Rightarrow> State_Monad.return Panic
      | Ok (elems, expiry) \<Rightarrow>
          if elems = [] then State_Monad.return (Ok None)
          else
            (case take_end tail elems of (elem, rest) \<Rightarrow> do {
               u \<leftarrow> (if rest = [] then kdel K (ListKey key) else writeList K key rest expiry);
               State_Monad.return (case u of Err e \<Rightarrow> Err (Stored e) | Panic \<Rightarrow> Panic | Ok _ \<Rightarrow> Ok (Some elem))
             }))
   }"

text \<open>One round over the keys: the first that gives something.\<close>

fun pop_round ::
  "(string \<Rightarrow> ('s world, (cmd_error, 'a option) res) state) \<Rightarrow> string list \<Rightarrow> ('s world, (cmd_error, (string \<times> 'a) option) res) state" where
  "pop_round try [] = State_Monad.return (Ok None)"
| "pop_round try (k # ks) = do {
     r \<leftarrow> try k;
     (case r of
        Err e \<Rightarrow> State_Monad.return (Err e)
      | Panic \<Rightarrow> State_Monad.return Panic
      | Ok (Some x) \<Rightarrow> State_Monad.return (Ok (Some (k, x)))
      | Ok None \<Rightarrow> pop_round try ks)
   }"

fun pop_poll ::
  "(int \<Rightarrow> string \<Rightarrow> ('s world, (cmd_error, 'a option) res) state) \<Rightarrow> int \<Rightarrow> string list \<Rightarrow> 's polls \<Rightarrow>
     ('s world, (cmd_error, (string \<times> 'a) option) res) state" where
  "pop_poll try now ks [] = pop_round (try now) ks"
| "pop_poll try now ks ((now', f) # ps) = do {
     r \<leftarrow> pop_round (try now) ks;
     (case r of
        Ok None \<Rightarrow> do { meanwhile f; pop_poll try now' ks ps }
      | _ \<Rightarrow> State_Monad.return r)
   }"

definition blockPop ::
  "'s kv \<Rightarrow> int \<Rightarrow> string list \<Rightarrow> bool \<Rightarrow> 's polls \<Rightarrow> ('s world, (cmd_error, (string \<times> bytes) option) res) state" where
  "blockPop K now keys tail ps = pop_poll (\<lambda>now k. tryPopSingle K now k tail) now keys ps"

fun list_keys :: "RVal list \<Rightarrow> string list \<Rightarrow> (string list \<Rightarrow> reply + 'b) \<Rightarrow> reply + 'b" where
  "list_keys [] acc f = f acc"
| "list_keys (a # as) acc f = need_key a (\<lambda>k. list_keys as (acc @ [k]) f)"

text \<open>A key that exists and has another type ends the command; \<open>rd\<close> is the read of the type.\<close>

fun type_check :: "'s kv \<Rightarrow> (string \<Rightarrow> ('s world, (cmd_error, 'a) res) state) \<Rightarrow> string list \<Rightarrow> 's handler \<Rightarrow> 's handler" where
  "type_check K rd [] m = m"
| "type_check K rd (k # ks) m = do {
     r \<leftarrow> rd k;
     (case r of
        Err e \<Rightarrow> if isNotFound e then type_check K rd ks m else answer (errValue K e)
      | Panic \<Rightarrow> crash
      | Ok _ \<Rightarrow> type_check K rd ks m)
   }"

definition parseTimeout :: "RVal \<Rightarrow> (float64 \<Rightarrow> reply + 'b) \<Rightarrow> reply + 'b" where
  "parseTimeout a k =
     need ''ERR timeout is not a float or out of range'' a (\<lambda>s. case ParseFloat s of
       None \<Rightarrow> refuse ''ERR timeout is not a float or out of range''
     | Some f \<Rightarrow> if f64_lt f 0 then refuse ''ERR timeout is not a float or out of range'' else k f)"

definition bpop ::
  "(float64 \<Rightarrow> 's polls) \<Rightarrow> bool \<Rightarrow> 's kv \<Rightarrow> int \<Rightarrow> RVal list \<Rightarrow> 's handler" where
  "bpop wait tail K now args =
     (if length args < 2 then fail (wrongargs ''bpop'')
      else case parseTimeout (last args) (\<lambda>t. list_keys (butlast args) [] (\<lambda>keys. Inr (t, keys))) of
        Inl r \<Rightarrow> State_Monad.return r
      | Inr (t, keys) \<Rightarrow> type_check K (readList K now) keys (do {
          r \<leftarrow> blockPop K now keys tail (wait t);
          (case r of
             Ok (Some (k, e)) \<Rightarrow> answer (Array (Some [BulkOf k, BulkOf e]))
           | Panic \<Rightarrow> crash
           | _ \<Rightarrow> answer (Array None))
        }))"

definition blpop ::
  "(float64 \<Rightarrow> 's polls) \<Rightarrow> 's kv \<Rightarrow> int \<Rightarrow> RVal list \<Rightarrow> 's handler" where
  "blpop wait = bpop wait False"

definition brpop ::
  "(float64 \<Rightarrow> 's polls) \<Rightarrow> 's kv \<Rightarrow> int \<Rightarrow> RVal list \<Rightarrow> 's handler" where
  "brpop wait = bpop wait True"

text \<open>The arguments \<^verbatim>\<open>numkeys key ... LEFT|RIGHT [COUNT n]\<close>; \<open>bad\<close> is the message for a bad count.\<close>

definition mpop_count :: "string \<Rightarrow> RVal list \<Rightarrow> (int \<Rightarrow> reply + 'b) \<Rightarrow> reply + 'b" where
  "mpop_count bad rest k =
     (if length rest \<le> 1 then k 1
      else if length rest \<noteq> 3 then refuse ''ERR syntax error''
      else need ''ERR syntax error'' (rest ! 1) (\<lambda>opt.
        if ToUpper opt \<noteq> ''COUNT'' then refuse ''ERR syntax error''
        else need notint (rest ! 2) (\<lambda>c. case ParseInt c of
          None \<Rightarrow> refuse bad
        | Some n \<Rightarrow> if n \<le> 0 then refuse bad else k n)))"

definition mpop_args :: "string \<Rightarrow> RVal list \<Rightarrow> reply + (string list \<times> bool \<times> int)" where
  "mpop_args bad args =
     need_int (args ! 0) (\<lambda>numkeys.
       if numkeys \<le> 0 \<or> int (length args) - 1 < numkeys then refuse notint
       else list_keys (take (nat numkeys) (drop 1 args)) [] (\<lambda>keys.
         let rest = drop (1 + nat numkeys) args in
         if rest = [] then refuse ''ERR syntax error''
         else need ''ERR syntax error'' (rest ! 0) (\<lambda>d. case parseMoveSide d of
           None \<Rightarrow> refuse ''ERR syntax error''
         | Some tail \<Rightarrow> mpop_count bad rest (\<lambda>cnt. Inr (keys, tail, cnt)))))"

definition mpop_reply :: "'s kv \<Rightarrow> (cmd_error, (string \<times> bytes list) option) res \<Rightarrow> 's handler" where
  "mpop_reply K r =
     (case r of
        Err e \<Rightarrow> answer (errValue K e)
      | Panic \<Rightarrow> crash
      | Ok None \<Rightarrow> answer (Array None)
      | Ok (Some (k, popped)) \<Rightarrow> answer (Array (Some [BulkOf k, toBulkArray popped])))"

definition bmpop ::
  "(float64 \<Rightarrow> 's polls) \<Rightarrow> 's kv \<Rightarrow> int \<Rightarrow> RVal list \<Rightarrow> 's handler" where
  "bmpop wait K now args =
     (if length args < 4 then fail (wrongargs ''bmpop'')
      else case parseTimeout (args ! 0) (\<lambda>t. case mpop_args notint (tl args) of Inl r \<Rightarrow> Inl r | Inr m \<Rightarrow> Inr (t, m)) of
        Inl r \<Rightarrow> State_Monad.return r
      | Inr (t, keys, tail, cnt) \<Rightarrow> type_check K (readList K now) keys (do {
          r \<leftarrow> pop_poll (\<lambda>now k. tryPopCount K now k tail cnt) now keys (wait t);
          mpop_reply K r
        }))"

definition lmpop :: "'s kv \<Rightarrow> int \<Rightarrow> RVal list \<Rightarrow> 's handler" where
  "lmpop K now args =
     (if length args < 3 then fail (wrongargs ''lmpop'')
      else case mpop_args ''ERR count should be greater than 0'' args of
        Inl r \<Rightarrow> State_Monad.return r
      | Inr (keys, tail, cnt) \<Rightarrow> type_check K (readList K now) keys (do {
          r \<leftarrow> pop_round (\<lambda>k. tryPopCount K now k tail cnt) keys;
          mpop_reply K r
        }))"

record lpos_opts =
  pos_rank :: int
  pos_count :: int
  pos_withCount :: bool
  pos_maxlen :: int

fun lpos_parse :: "RVal list \<Rightarrow> lpos_opts \<Rightarrow> reply + lpos_opts" where
  "lpos_parse [] opts = Inr opts"
| "lpos_parse [a] opts = refuse ''ERR syntax error''"
| "lpos_parse (a # b # as) opts =
     need ''ERR syntax error'' a (\<lambda>opt. need_int b (\<lambda>n.
       if ToUpper opt = ''RANK'' then
         (if n = 0 then refuse ''ERR RANK can't be zero'' else lpos_parse as (opts\<lparr> pos_rank := n \<rparr>))
       else if ToUpper opt = ''COUNT'' then
         (if n < 0 then refuse ''ERR COUNT can't be negative'' else lpos_parse as (opts\<lparr> pos_count := n, pos_withCount := True \<rparr>))
       else if ToUpper opt = ''MAXLEN'' then
         (if n < 0 then refuse ''ERR MAXLEN can't be negative'' else lpos_parse as (opts\<lparr> pos_maxlen := n \<rparr>))
       else refuse ''ERR syntax error''))"

fun lpos_loop :: "lpos_opts \<Rightarrow> string \<Rightarrow> bytes list \<Rightarrow> int list \<Rightarrow> int list \<Rightarrow> int \<Rightarrow> int list" where
  "lpos_loop opts target elems [] matched seen = matched"
| "lpos_loop opts target elems (idx # order) matched seen =
     (if elems ! nat idx \<noteq> target then lpos_loop opts target elems order matched seen
      else if seen + 1 < absCount (pos_rank opts) then lpos_loop opts target elems order matched (seen + 1)
      else
        (let matched' = matched @ [idx] in
         if pos_withCount opts \<and> 0 < pos_count opts \<and> pos_count opts \<le> int (length matched') then matched'
         else if \<not> pos_withCount opts then matched'
         else lpos_loop opts target elems order matched' (seen + 1)))"

definition lpos_order :: "lpos_opts \<Rightarrow> bytes list \<Rightarrow> int list" where
  "lpos_order opts elems =
     (let n = int (length elems);
          limit = (if 0 < pos_maxlen opts \<and> pos_maxlen opts < n then pos_maxlen opts else n)
      in if 0 < pos_rank opts then [0..limit - 1] else rev [n - limit..n - 1])"

definition toIntArray :: "int list \<Rightarrow> RVal" where
  "toIntArray ns = Array (Some (map Integer ns))"

definition lpos_reply :: "lpos_opts \<Rightarrow> int list \<Rightarrow> RVal" where
  "lpos_reply opts matched =
     (if \<not> pos_withCount opts then (if matched = [] then NilBulk else Integer (hd matched)) else toIntArray matched)"

definition lpos :: "RVal list \<Rightarrow> bytes list parsed" where
  "lpos args =
     (if length args < 2 then refuse (wrongargs ''lpos'')
      else need_key (args ! 0) (\<lambda>key. need ''ERR invalid value'' (args ! 1) (\<lambda>target.
        case lpos_parse (drop 2 args) \<lparr> pos_rank = 1, pos_count = 1, pos_withCount = False, pos_maxlen = 0 \<rparr> of
          Inl r \<Rightarrow> Inl r
        | Inr opts \<Rightarrow> Inr (key, look (if pos_withCount opts then toIntArray [] else NilBulk)
            (\<lambda>elems. lpos_reply opts (lpos_loop opts target elems (lpos_order opts elems) [] 0))))))"

text \<open>The commands on one key, and all commands.\<close>

definition list_steps :: "(string \<times> (RVal list \<Rightarrow> bytes list parsed)) list" where
  "list_steps =
     [(''LPUSH'', lpush), (''RPUSH'', rpush), (''LPOP'', lpop), (''RPOP'', rpop), (''LLEN'', llen), (''LINDEX'', lindex),
      (''LRANGE'', lrange), (''LSET'', lset), (''LINSERT'', linsert), (''LREM'', lrem), (''LTRIM'', ltrim), (''LPOS'', lpos)]"

definition list_table ::
  "(float64 \<Rightarrow> 's polls) \<Rightarrow> 's kv \<Rightarrow> int \<Rightarrow> 's table" where
  "list_table wait K now =
     map (\<lambda>(n, p). (n, \<lambda>args. list_cmd K now (p args))) list_steps @
     [(''LMOVE'', lmove K now), (''BLMOVE'', blmove wait K now), (''RPOPLPUSH'', rpoplpush K now),
      (''BRPOPLPUSH'', brpoplpush wait K now),
      (''BLPOP'', blpop wait K now), (''BRPOP'', brpop wait K now), (''BLMPOP'', bmpop wait K now),
      (''BRMPOP'', bmpop wait K now), (''LMPOP'', lmpop K now)]"

subsection \<open>Refinement\<close>

lemma list_steps_ok [step_oks]:
  "act_tag TypeList (fst (snd (push_step head vs key None)))"
  "int64_range x \<Longrightarrow> act_tag TypeList (fst (snd (push_step head vs key (Some (xs, x)))))"
  "act_tag TypeList (fst (snd (pop_step tail cnt key None)))"
  "int64_range x \<Longrightarrow> act_tag TypeList (fst (snd (pop_step tail cnt key (Some (xs, x)))))"
  "act_tag TypeList (fst (snd (lset_step idx val key None)))"
  "int64_range x \<Longrightarrow> act_tag TypeList (fst (snd (lset_step idx val key (Some (xs, x)))))"
  "act_tag TypeList (fst (snd (linsert_step after pivot val key None)))"
  "int64_range x \<Longrightarrow> act_tag TypeList (fst (snd (linsert_step after pivot val key (Some (xs, x)))))"
  "act_tag TypeList (fst (snd (lrem_step n val key None)))"
  "int64_range x \<Longrightarrow> act_tag TypeList (fst (snd (lrem_step n val key (Some (xs, x)))))"
  "act_tag TypeList (fst (snd (ltrim_step start stop key None)))"
  "int64_range x \<Longrightarrow> act_tag TypeList (fst (snd (ltrim_step start stop key (Some (xs, x)))))"
  by (simp_all add: push_step_def pop_step_def lset_step_def linsert_step_def lrem_step_def ltrim_step_def Let_def
      split: option.split prod.split)


lemma list_steps_typed:
  assumes "map_of list_steps name = Some p"
  shows "step_ok TypeList (p args)"
  using assms unfolding list_steps_def
  by (auto split: if_splits simp: lpush_def rpush_def lpop_def rpop_def push_def popOne_def llen_def lindex_def lrange_def
      lset_def linsert_def lrem_def ltrim_def lpos_def intro!: step_oks)


context kv_store
begin

lemma sim_readList [sim_intros]: "msim (readList K now key) (readList M now key)"
  unfolding readList_def by (intro sim_intros)

lemma sim_writeList [sim_intros]: "msim (writeList K key elems x) (writeList M key elems x)"
  unfolding writeList_def by (intro sim_intros)

lemma sim_moveCore [sim_intros]:
  "msim (moveCore K now src dst fromTail toTail) (moveCore M now src dst fromTail toTail)"
  unfolding moveCore_def move_write_def by (intro sim_intros) simp_all

lemma sim_list_cmd [sim_intros]: "msim (list_cmd K now p) (list_cmd M now p)"
  unfolding list_cmd_def by (intro sim_intros)

lemma sim_lmove [sim_intros]: "msim (lmove K now args) (lmove M now args)"
  unfolding lmove_def by (intro sim_intros) simp_all

lemma sim_rpoplpush [sim_intros]: "msim (rpoplpush K now args) (rpoplpush M now args)"
  unfolding rpoplpush_def by (intro sim_intros) simp_all

lemma sim_tryPopCount [sim_intros]: "msim (tryPopCount K now key tail n) (tryPopCount M now key tail n)"
  unfolding tryPopCount_def by (intro sim_intros) simp_all

lemma sim_pop_round [sim_intros]:
  "(\<And>k. msim (try k) (try' k)) \<Longrightarrow> msim (pop_round try ks) (pop_round try' ks)"
  by (induction ks) (auto intro!: sim_intros)

lemma sim_type_check [sim_intros]:
  "(\<And>k. msim (rd k) (rd' k)) \<Longrightarrow> msim m n \<Longrightarrow> msim (type_check K rd ks m) (type_check M rd' ks n)"
  by (induction ks) (auto intro!: sim_intros)

lemma sim_lmpop [sim_intros]: "msim (lmpop K now args) (lmpop M now args)"
  unfolding lmpop_def mpop_reply_def by (intro sim_intros) simp_all

end


subsection \<open>Moving an element\<close>

abbreviation list_entry :: "Entry option \<Rightarrow> (cmd_error, bytes list \<times> int) res" where
  "list_entry \<equiv> typed_entry TypeList DecodeList"

abbreviation list_cell :: "bytes list \<Rightarrow> int \<Rightarrow> Entry" where
  "list_cell xs x \<equiv> \<lparr> Type = TypeList, Expiry = x, Payload = EncodeList xs \<rparr>"

definition moved ::
  "bool \<Rightarrow> bool \<Rightarrow> string \<Rightarrow> string \<Rightarrow> bytes list \<times> int \<Rightarrow> bytes list \<times> int \<Rightarrow> (string \<rightharpoonup> Entry) \<Rightarrow> string \<rightharpoonup> Entry" where
  "moved fromTail toTail src dst xsx ysy d =
     (case (xsx, ysy) of ((xs, x), (ys, y)) \<Rightarrow>
        (case take_end fromTail xs of (elem, rest) \<Rightarrow>
           if src = dst then d(src \<mapsto> list_cell (attach toTail elem xs) x)
           else d(dst \<mapsto> list_cell (attach toTail elem ys) y, src := if rest = [] then None else Some (list_cell rest x))))"

lemma goes_writeList:
  assumes "key \<in> C" "x = 0 \<or> now < x" "int64_range x" "\<forall>e. d key = Some e \<longrightarrow> Type e = TypeList"
  shows "goes now (d, C) (writeList (map_kv T) key xs x) (Ok ()) (d(key \<mapsto> list_cell xs x), C)"
  using goes_kset [of key C d TypeList x "EncodeList xs" now T] assms by (simp add: writeList_def ListKey_def)

lemma goes_move_write:
  assumes "x = 0 \<or> now < x" "int64_range x" "y = 0 \<or> now < y" "int64_range y"
    and "d src = Some e" "Type e = TypeList" "\<forall>e. d dst = Some e \<longrightarrow> Type e = TypeList"
  shows "goes now (d, {src, dst}) (move_write (map_kv T) src dst fromTail toTail elem (rest, x) (out, y))
    (Ok (BulkString (Some elem)))
    (if src = dst then d(src \<mapsto> list_cell out x)
     else d(dst \<mapsto> list_cell out y, src := if rest = [] then None else Some (list_cell rest x)), {src, dst})"
proof (cases "src = dst")
  case True
  with assms(5,6) goes_writeList [of dst "{dst}" x now d T out] assms(1,2,7) show ?thesis
    by (auto simp: move_write_def Let_def simp del: notify_all.simps
        intro!: goes_bind [where s' = "(d(dst \<mapsto> list_cell out x), {dst})"] goes_note_all goes_answer)
next
  case False
  let ?d1 = "d(dst \<mapsto> list_cell out y)"
  let ?d2 = "?d1(src := if rest = [] then None else Some (list_cell rest x))"
  have w: "goes now (d, {src, dst}) (writeList (map_kv T) dst out y) (Ok ()) (?d1, {src, dst})"
    using assms by (intro goes_writeList) auto
  have u: "goes now (?d1, {src, dst}) (if rest = [] then kdel (map_kv T) (ListKey src) else writeList (map_kv T) src rest x) (Ok ()) (?d2, {src, dst})"
    using assms False goes_kdel [of src "{src, dst}" ?d1 TypeList now T] goes_writeList [of src "{src, dst}" x now ?d1 T rest]
    by (auto simp: ListKey_def fun_upd_twist)
  have "goes now (d, {src, dst}) (move_write (map_kv T) src dst fromTail toTail elem (rest, x) (out, y))
    (Ok (BulkString (Some elem))) (?d2, {src, dst})"
    unfolding move_write_def Let_def prod.case if_not_P [OF False]
    by (rule goes_bind [OF w], simp only: res.case, rule goes_bind [OF goes_notify], rule goes_bind [OF u],
        simp only: res.case, rule goes_note_all, rule goes_answer)
  with False show ?thesis by simp
qed

lemma moveCore_goes:
  assumes "live_dict now d" "list_entry (d src) = Ok (xs, x)" "xs \<noteq> []" "or_empty (list_entry (d dst)) = Ok (ys, y)"
  shows "goes now (d, {}) (moveCore (map_kv T) now src dst fromTail toTail)
    (Ok (BulkString (Some (fst (take_end fromTail xs))))) (moved fromTail toTail src dst (xs, x) (ys, y) d, {src, dst})"
proof -
  obtain elem rest where t: "take_end fromTail xs = (elem, rest)" by (cases "take_end fromTail xs")
  obtain e where e: "d src = Some e" "Type e = TypeList" "Expiry e = x" using assms(2) by (rule typed_entry_Ok)
  with assms(1) have x: "x = 0 \<or> now < x" "int64_range x" by (auto simp: live_dict_def)
  have td: "\<forall>e. d dst = Some e \<longrightarrow> Type e = TypeList" and y: "y = 0 \<or> now < y" "int64_range y"
    using assms(1,4) by (auto simp: live_dict_def or_empty_def typed_entry_def isNotFound_def int64_range_def
        split: option.splits if_splits res.splits)
  have same: "src = dst \<Longrightarrow> ys = xs" using assms(2,4) by (simp add: or_empty_def)
  have R: "goes now (d, C) (readList (map_kv T) now k) (list_entry (d k)) (d, insert k C)" for C k
    unfolding readList_def by (rule goes_read)
  note W = goes_move_write [OF x y e(1,2) td, of T fromTail toTail elem rest "attach toTail elem ys"]
  have "goes now (d, {dst, src}) (case or_empty (list_entry (d dst)) of
      Err e \<Rightarrow> answer (errValue (map_kv T) e) | Panic \<Rightarrow> crash
    | Ok (dstElems, dstExp) \<Rightarrow>
        move_write (map_kv T) src dst fromTail toTail elem (rest, x) (attach toTail elem dstElems, dstExp))
    (Ok (BulkString (Some elem))) (moved fromTail toTail src dst (xs, x) (ys, y) d, {src, dst})"
    unfolding assms(4) res.case prod.case insert_commute [of dst] using W same by (auto simp: moved_def t)
  then show ?thesis
    unfolding moveCore_def
    by (intro goes_bind [OF R]) (simp add: assms(2,3) t, rule goes_bind [OF R])
qed

text \<open>A blocking move that does not wait, of an element without bytes.\<close>

lemma blockMove_loop_now:
  "blockMove_loop K now src dst fromTail toTail [] = do {
     r \<leftarrow> moveCore K now src dst fromTail toTail;
     State_Monad.return (if no_move r then Ok NilBulk else r)
   }"
  by (subst blockMove_loop.simps) (auto intro!: arg_cong2 [where f = State_Monad.bind])

context kv_store
begin

lemma sim_blockMove_now: "msim (blockMove K now src dst fromTail toTail []) (blockMove M now src dst fromTail toTail [])"
  unfolding blockMove_def blockMove_loop_now by (intro sim_intros) simp_all

end

lemma blockMove_goes:
  assumes "live_dict now d" "list_entry (d src) = Ok (xs, x)" "xs \<noteq> []" "or_empty (list_entry (d dst)) = Ok (ys, y)"
    and "take_end fromTail xs = ([], rest)"
  shows "goes now (d, {}) (blockMove (map_kv T) now src dst fromTail toTail []) (Ok NilBulk)
    (moved fromTail toTail src dst (xs, x) (ys, y) d, {src, dst})"
proof -
  have R: "goes now (d, {}) (readList (map_kv T) now src) (Ok (xs, x)) (d, {src})"
    using goes_read [of now d "{}" TypeList DecodeList T src] assms(2) by (simp add: readList_def)
  have m: "goes now (d, {src}) m r s'" if "goes now (d, {}) m r s'" for m :: "(bytes \<rightharpoonup> bytes) handler" and r s'
    using that by (auto simp: goes_def shows_dict_def)
  note M = m [OF moveCore_goes [OF assms(1-4), of T fromTail toTail]]
  have "goes now (d, {src}) (blockMove_loop (map_kv T) now src dst fromTail toTail []) (Ok NilBulk)
    (moved fromTail toTail src dst (xs, x) (ys, y) d, {src, dst})"
    unfolding blockMove_loop_now
    by (rule goes_bind [OF M]) (use goes_return [of now _ "Ok NilBulk :: reply"] in \<open>simp add: assms(5) bulk_def\<close>)
  then show ?thesis unfolding blockMove_def by (intro goes_bind [OF R]) simp
qed

subsection \<open>The elements that remain\<close>

lemma funpow_remove1_Nil [simp]: "(remove1 v ^^ n) [] = []"
  by (induction n) simp_all

lemma funpow_remove1_other: "e \<noteq> v \<Longrightarrow> (remove1 v ^^ n) (e # es) = e # (remove1 v ^^ n) es"
  by (induction n) simp_all

lemma funpow_remove1_Suc: "(remove1 v ^^ Suc n) (v # es) = (remove1 v ^^ n) es"
  by (simp add: funpow_swap1)

text \<open>What \<^verbatim>\<open>LREM\<close> keeps: all but the first \<open>n\<close> occurrences, all but the last \<open>n\<close>, or none of them.\<close>

definition lrem_ref :: "string \<Rightarrow> int \<Rightarrow> bytes list \<Rightarrow> bytes list" where
  "lrem_ref val cnt xs =
     (if cnt = 0 then removeAll val xs
      else if 0 < cnt then (remove1 val ^^ nat cnt) xs
      else rev ((remove1 val ^^ nat (- cnt)) (rev xs)))"

lemma lrem_fwd_ref:
  assumes "absCount cnt = n" "cnt \<noteq> 0" "0 \<le> removed" "removed \<le> n"
  shows "lrem_fwd val cnt es kept removed = (kept @ (remove1 val ^^ nat (n - removed)) es, removed + int (min (nat (n - removed)) (count_list es val)))"
  using assms
proof (induction es arbitrary: kept removed)
  case (Cons e es)
  show ?case
  proof (cases "e = val \<and> removed < n")
    case True
    then have n: "nat (n - removed) = Suc (nat (n - (removed + 1)))" by linarith
    show ?thesis using Cons.IH [of "removed + 1" kept] Cons.prems True
      by (simp add: n funpow_remove1_Suc [simplified] min_def)
  next
    case False
    with Cons show ?thesis by (cases "e = val") (auto simp: funpow_remove1_other)
  qed
qed simp

lemma lrem_fwd_all: "lrem_fwd val 0 es kept removed = (kept @ removeAll val es, removed + int (count_list es val))"
  by (induction es arbitrary: kept removed) auto

lemma lrem_back_fwd: "lrem_back val cnt es kept removed = map_prod rev id (lrem_fwd val cnt es (rev kept) removed)"
  by (induction es arbitrary: kept removed) auto

lemma lrem_elems_ref:
  assumes "- (2 ^ 63) < cnt"
  shows "lrem_elems val cnt xs = (lrem_ref val cnt xs,
    int (if cnt = 0 then count_list xs val else min (nat \<bar>cnt\<bar>) (count_list xs val)))"
proof -
  consider "cnt = 0" | "0 < cnt" | "cnt < 0" by linarith
  then show ?thesis
  proof cases
    case 1
    then show ?thesis by (simp add: lrem_elems_def lrem_ref_def lrem_fwd_all)
  next
    case 2
    then show ?thesis using lrem_fwd_ref [of cnt cnt 0 val xs "[]"] by (simp add: lrem_elems_def lrem_ref_def absCount_def)
  next
    case 3
    with assms have a: "absCount cnt = - cnt" by (simp add: absCount_def wrap64_id int64_range_def)
    have "count_list (rev xs) val = count_list xs val" by (induction xs) auto
    with 3 lrem_fwd_ref [OF a, of 0 val "rev xs" "[]"] show ?thesis by (simp add: lrem_elems_def lrem_ref_def lrem_back_fwd)
  qed
qed


lemma length_funpow_remove1: "length ((remove1 v ^^ n) xs) = length xs - min n (count_list xs v)"
proof (induction n arbitrary: xs)
  case (Suc n)
  have c: "count_list (remove1 v xs) v = count_list xs v - 1" by (induction xs) auto
  have z: "v \<notin> set xs \<Longrightarrow> count_list xs v = 0" by (induction xs) auto
  have p: "v \<in> set xs \<Longrightarrow> 0 < count_list xs v" by (induction xs) auto
  show ?case
  proof (cases "v \<in> set xs")
    case True
    with Suc [of "remove1 v xs"] c p show ?thesis by (simp add: funpow_swap1 length_remove1)
  next
    case False
    with Suc [of xs] z show ?thesis by (simp add: funpow_swap1 remove1_idem)
  qed
qed simp

lemma lrem_ref_length:
  "length (lrem_ref val cnt xs) = length xs - (if cnt = 0 then count_list xs val else min (nat \<bar>cnt\<bar>) (count_list xs val))"
proof -
  have "length (removeAll val xs) + count_list xs val = length xs" by (induction xs) auto
  moreover have "count_list (rev xs) val = count_list xs val" by (induction xs) auto
  ultimately show ?thesis by (auto simp: lrem_ref_def length_funpow_remove1)
qed

text \<open>Pushing and popping.\<close>

lemma push_loop_bulks: "push_loop head (map (\<lambda>v. BulkString (Some v)) vs) xs = Some (if head then rev vs @ xs else xs @ vs)"
  by (induction vs arbitrary: xs) (auto simp: bulk_def)

lemma split_end_parts: "split_end tail n xs = (out, rest) \<Longrightarrow> (if tail then rest @ out else out @ rest) = xs"
  by (auto simp: split_end_def Let_def split: if_splits)

lemma split_end_length: "0 \<le> n \<Longrightarrow> length (fst (split_end tail n xs)) = min (nat n) (length xs)"
  by (simp add: split_end_def Let_def)

lemma take_end_attach: "xs \<noteq> [] \<Longrightarrow> take_end tail xs = (elem, rest) \<Longrightarrow> attach tail elem rest = xs"
  by (auto simp: take_end_def attach_def split: if_splits)

lemma mset_attach: "mset (attach tail x xs) = add_mset x (mset xs)"
  by (simp add: attach_def)

subsection \<open>The properties\<close>

text \<open>C32. \<^verbatim>\<open>LREM\<close> with a positive count removes exactly the first occurrences, with a negative count the last
  ones, and with 0 all of them; the reply is the number removed. The smallest 64-bit number is excluded:
  its negation wraps, and nothing is removed.\<close>

theorem lrem_removes:
  assumes "- (2 ^ 63) < cnt" "lrem_elems val cnt xs = (kept, removed)"
  shows "kept = lrem_ref val cnt xs \<and> removed = int (length xs - length kept)"
  using lrem_elems_ref [OF assms(1), of val xs] assms(2) lrem_ref_length [of val cnt xs] count_le_length [of xs val]
  by (simp add: min_def split: if_splits)

theorem lrem_removes_witness:
  "lrem_elems ''b'' (-1) [''a'', ''b'', ''c'', ''b''] = ([''a'', ''b'', ''c''], 1)"
  using lrem_removes [of "-1" "''b''" "[''a'', ''b'', ''c'', ''b'']" "fst (lrem_elems ''b'' (-1) [''a'', ''b'', ''c'', ''b''])"
      "snd (lrem_elems ''b'' (-1) [''a'', ''b'', ''c'', ''b''])"]
  by (simp add: lrem_ref_def prod_eq_iff)

text \<open>C31. \<^verbatim>\<open>LMOVE\<close>, \<^verbatim>\<open>RPOPLPUSH\<close> and their blocking forms. When the source is a list that is not empty and the
  target is a list or absent, the reply is the element at the chosen end of the source. It leaves the
  source, joins the chosen end of the target, and nothing else changes: no element is lost or made. When
  the source is also the target, the element is added and not taken: the list grows by one.\<close>

theorem lmove_moves:
  assumes "kv_store K view live" "live (store w)" "wf_store (view (store w))" "d = dict (view (store w)) now"
    and "list_entry (d src) = Ok (xs, x)" "xs \<noteq> []" "or_empty (list_entry (d dst)) = Ok (ys, y)"
    and "take_end fromTail xs = (elem, rest)"
    and "run_state (moveCore K now src dst fromTail toTail) w = (r, w')"
  shows "r = Ok (BulkString (Some elem)) \<and> live (store w') \<and> wf_store (view (store w'))
    \<and> attach fromTail elem rest = xs
    \<and> dict (view (store w')) now =
        (if src = dst then d(src \<mapsto> list_cell (attach toTail elem xs) x)
         else d(dst \<mapsto> list_cell (attach toTail elem ys) y, src := if rest = [] then None else Some (list_cell rest x)))"
proof -
  have l: "live_dict now d" unfolding assms(4) by (rule live_dict_dict)
  note g = moveCore_goes [OF l assms(5-7), of "kvText K" fromTail toTail]
  from goes_transfer [OF assms(1) kv_store.sim_moveCore [OF assms(1)] g [unfolded assms(4)] assms(2,3,9)]
  show ?thesis using take_end_attach [OF assms(6,8)] by (simp add: moved_def assms(4,8))
qed

theorem lmove_moves_witness:
  "fst (run_state (moveCore (pebble_kv memdb quiet_env) 1 ''k'' ''k'' True False) (one_world TypeList ''k'' (EncodeList [''a'', ''b''])))
    = Ok (BulkString (Some ''b''))"
  using lmove_moves [OF memdb.kv_store_axioms, of "one_world TypeList ''k'' (EncodeList [''a'', ''b''])" _ 1 "''k''" "[''a'', ''b'']" 0
      "''k''" "[''a'', ''b'']" 0 True "''b''" "[''a'']" False
      "fst (run_state (moveCore (pebble_kv memdb quiet_env) 1 ''k'' ''k'' True False) (one_world TypeList ''k'' (EncodeList [''a'', ''b''])))"
      "snd (run_state (moveCore (pebble_kv memdb quiet_env) 1 ''k'' ''k'' True False) (one_world TypeList ''k'' (EncodeList [''a'', ''b''])))", OF _ _ refl]
    one_dict [of TypeList] DecodeList_EncodeList [of "[''a'', ''b'']" "[]"]
  by (simp add: one_world_def New_def typed_entry_def or_empty_def take_end_def go_list_def go_str_def makeslice_ok_def)

text \<open>\<^verbatim>\<open>BLMOVE\<close> and \<^verbatim>\<open>BRPOPLPUSH\<close> take a moved element without bytes for an empty source: the element moves
  and the client, whose timeout is over, is told that nothing was there.\<close>

theorem blmove_empty_element:
  assumes "kv_store K view live" "live (store w)" "wf_store (view (store w))" "d = dict (view (store w)) now"
    and "list_entry (d src) = Ok (xs, x)" "xs \<noteq> []" "or_empty (list_entry (d dst)) = Ok (ys, y)"
    and "take_end fromTail xs = ([], rest)" "src \<noteq> dst"
    and "run_state (blockMove K now src dst fromTail toTail []) w = (r, w')"
  shows "r = Ok NilBulk
    \<and> dict (view (store w')) now = d(dst \<mapsto> list_cell (attach toTail [] ys) y, src := if rest = [] then None else Some (list_cell rest x))"
proof -
  have l: "live_dict now d" unfolding assms(4) by (rule live_dict_dict)
  note g = blockMove_goes [OF l assms(5-8), of "kvText K" toTail]
  from goes_transfer [OF assms(1) kv_store.sim_blockMove_now [OF assms(1)] g [unfolded assms(4)] assms(2,3,10)]
  show ?thesis using assms(9) by (simp add: moved_def assms(4,8))
qed

theorem blmove_empty_element_witness:
  "fst (run_state (blockMove (pebble_kv memdb quiet_env) 1 ''k'' ''m'' True False []) (one_world TypeList ''k'' (EncodeList [''a'', []])))
    = Ok NilBulk"
  using blmove_empty_element [OF memdb.kv_store_axioms, of "one_world TypeList ''k'' (EncodeList [''a'', []])" _ 1 "''k''" "[''a'', []]" 0
      "''m''" "[]" 0 True "[''a'']" False
      "fst (run_state (blockMove (pebble_kv memdb quiet_env) 1 ''k'' ''m'' True False []) (one_world TypeList ''k'' (EncodeList [''a'', []])))"
      "snd (run_state (blockMove (pebble_kv memdb quiet_env) 1 ''k'' ''m'' True False []) (one_world TypeList ''k'' (EncodeList [''a'', []])))", OF _ _ refl]
    one_dict [of TypeList] DecodeList_EncodeList [of "[''a'', []]" "[]"]
  by (simp add: one_world_def New_def typed_entry_def or_empty_def isNotFound_def take_end_def go_list_def go_str_def makeslice_ok_def)
end
