(* ===== verification/Paging.thy ===== *)
theory Paging
  imports MultiKey
begin

text \<open>
  Listing and scanning: the options and the pages that \<^verbatim>\<open>SCAN\<close>, \<^verbatim>\<open>HSCAN\<close>, \<^verbatim>\<open>SSCAN\<close> and \<^verbatim>\<open>ZSCAN\<close> share, and the commands
  \<^verbatim>\<open>SCAN\<close> (\<^verbatim>\<open>scan.go\<close>) and \<^verbatim>\<open>KEYS\<close> (\<^verbatim>\<open>keyspace.go\<close>). A client that follows the cursors from 0 to 0 is shown to see every
  live key once.
\<close>

subsection \<open>Options and pages\<close>

record scan_opts =
  sc_match :: string
  sc_count :: int
  sc_novalues :: bool
  sc_type :: string

definition scan_default :: scan_opts where
  "scan_default = \<lparr> sc_match = ''*'', sc_count = 10, sc_novalues = False, sc_type = [] \<rparr>"

text \<open>The option loop; \<open>nv\<close> and \<open>ty\<close> tell whether the command knows \<^verbatim>\<open>NOVALUES\<close> and \<^verbatim>\<open>TYPE\<close>.\<close>

fun scan_parse :: "bool \<Rightarrow> bool \<Rightarrow> RVal list \<Rightarrow> scan_opts \<Rightarrow> reply + scan_opts" where
  "scan_parse nv ty [] opts = Inr opts"
| "scan_parse nv ty [a] opts =
     need ''ERR syntax error'' a (\<lambda>name.
       if ToUpper name = ''NOVALUES'' \<and> nv then Inr (opts\<lparr> sc_novalues := True \<rparr>) else refuse ''ERR syntax error'')"
| "scan_parse nv ty (a # b # as) opts =
     need ''ERR syntax error'' a (\<lambda>name.
       if ToUpper name = ''MATCH'' then
         need ''ERR syntax error'' b (\<lambda>p. scan_parse nv ty as (opts\<lparr> sc_match := p \<rparr>))
       else if ToUpper name = ''COUNT'' then
         need ''ERR syntax error'' b (\<lambda>n. case ParseInt n of
           None \<Rightarrow> refuse notint
         | Some c \<Rightarrow> if c < 0 then refuse notint else scan_parse nv ty as (opts\<lparr> sc_count := c \<rparr>))
       else if ToUpper name = ''NOVALUES'' \<and> nv then scan_parse nv ty (b # as) (opts\<lparr> sc_novalues := True \<rparr>)
       else if ToUpper name = ''TYPE'' \<and> ty then
         need ''ERR syntax error'' b (\<lambda>t. scan_parse nv ty as (opts\<lparr> sc_type := t \<rparr>))
       else refuse ''ERR syntax error'')"

definition scan_cursor :: "RVal \<Rightarrow> (int \<Rightarrow> reply + 'b) \<Rightarrow> reply + 'b" where
  "scan_cursor a k =
     need ''ERR invalid cursor'' a (\<lambda>s. case ParseInt s of
       None \<Rightarrow> refuse notint
     | Some c \<Rightarrow> if c < 0 then refuse notint else k c)"

text \<open>A page of the matched elements and the next cursor. When \<open>cursor + count\<close> wraps around, \<^verbatim>\<open>make\<close> or the slice
  expression panics.\<close>

definition scan_page :: "int \<Rightarrow> int \<Rightarrow> 'a list \<Rightarrow> ('a list \<times> int) option" where
  "scan_page cursor0 cnt matched =
     (let n = int (length matched);
          cursor = (if n < cursor0 then n else cursor0);
          stop = wrap64 (cursor + cnt)
      in if n \<le> stop then Some (drop (nat cursor) matched, 0)
         else if stop < cursor then None
         else Some (take (nat (stop - cursor)) (drop (nat cursor) matched), stop))"

definition scan_reply :: "int \<Rightarrow> RVal list \<Rightarrow> RVal" where
  "scan_reply after items = Array (Some [BulkOf (FormatInt after), Array (Some items)])"

definition scan_answer :: "int \<Rightarrow> int \<Rightarrow> 'a list \<Rightarrow> ('a \<Rightarrow> RVal list) \<Rightarrow> reply" where
  "scan_answer cursor cnt matched emit =
     (case scan_page cursor cnt matched of
        None \<Rightarrow> Panic
      | Some (page, after) \<Rightarrow> Ok (scan_reply after (concat (map emit page))))"

subsection \<open>\<^verbatim>\<open>KEYS\<close> and \<^verbatim>\<open>SCAN\<close>\<close>

definition keys_cmd :: "'s kv \<Rightarrow> RVal list \<Rightarrow> 's handler" where
  "keys_cmd K args =
     (if length args \<noteq> 1 then fail (wrongargs ''keys'')
      else case argString (args ! 0) of
        None \<Rightarrow> fail ''ERR invalid pattern''
      | Some pattern \<Rightarrow> do {
          r \<leftarrow> allUserKeys K;
          (case r of
             Err e \<Rightarrow> answer (errValue K e)
           | Panic \<Rightarrow> crash
           | Ok names \<Rightarrow> answer (Array (Some (map BulkOf (filter (path_ok pattern) (map fst names))))))
        })"

text \<open>The names of the keys that are live, with their types; a cell that cannot be read is left out.\<close>

fun scan_live :: "'s kv \<Rightarrow> int \<Rightarrow> (string \<times> bytes) list \<Rightarrow> (string \<times> char) list \<Rightarrow> ('s world, (unit, (string \<times> char) list) res) state" where
  "scan_live K now [] acc = State_Monad.return (Ok acc)"
| "scan_live K now ((name, raw) # ks) acc = do {
     r \<leftarrow> kget K raw;
     (case r of
        Panic \<Rightarrow> State_Monad.return Panic
      | Err _ \<Rightarrow> scan_live K now ks acc
      | Ok v \<Rightarrow>
          (case Decode v of
             Ok e \<Rightarrow> scan_live K now ks (if Expiry e \<noteq> 0 \<and> Expiry e \<le> now then acc else acc @ [(name, Type e)])
           | _ \<Rightarrow> scan_live K now ks acc))
   }"

definition scan_matched :: "scan_opts \<Rightarrow> (string \<times> char) list \<Rightarrow> string list" where
  "scan_matched opts typed =
     map fst (filter (\<lambda>(name, typ). (sc_type opts = [] \<or> EqualFold (typeName typ) (sc_type opts)) \<and> path_ok (sc_match opts) name)
       (sort_key fst typed))"

definition scan_cmd :: "'s kv \<Rightarrow> int \<Rightarrow> RVal list \<Rightarrow> 's handler" where
  "scan_cmd K now args =
     (if length args < 1 then fail (wrongargs ''scan'')
      else case scan_cursor (args ! 0) (\<lambda>c. case scan_parse False True (tl args) scan_default of Inl r \<Rightarrow> Inl r | Inr opts \<Rightarrow> Inr (c, opts)) of
        Inl r \<Rightarrow> State_Monad.return r
      | Inr (cursor, opts) \<Rightarrow> do {
          r \<leftarrow> allUserKeys K;
          (case r of
             Err e \<Rightarrow> answer (errValue K e)
           | Panic \<Rightarrow> crash
           | Ok names \<Rightarrow> do {
               t \<leftarrow> scan_live K now names [];
               (case t of
                  Ok typed \<Rightarrow> State_Monad.return (scan_answer cursor (sc_count opts) (scan_matched opts typed) (\<lambda>k. [BulkOf k]))
                | _ \<Rightarrow> crash)
             })
        })"

context kv_store
begin

lemma sim_keys_cmd [sim_intros]: "msim (keys_cmd K args) (keys_cmd M args)"
  unfolding keys_cmd_def by (intro sim_intros) simp_all

lemma sim_scan_live [sim_intros]: "msim (scan_live K now ks acc) (scan_live M now ks acc)"
proof (induction ks arbitrary: acc)
  case (Cons k ks)
  then show ?case by (cases k) (simp only: scan_live.simps, (intro sim_intros; simp?)+)
qed (simp add: sim_intros)

lemma sim_scan_cmd [sim_intros]: "msim (scan_cmd K now args) (scan_cmd M now args)"
  unfolding scan_cmd_def by (intro sim_intros) simp_all

end

subsection \<open>The pages cover the list\<close>

text \<open>A client that follows the cursors.\<close>

fun scan_result :: "reply \<Rightarrow> (string list \<times> int) option" where
  "scan_result (Ok (Array (Some [BulkString (Some c), Array (Some ks)]))) =
     (case ParseInt c of None \<Rightarrow> None | Some n \<Rightarrow> Some (map (\<lambda>k. the (argString k)) ks, n))"
| "scan_result _ = None"

fun scan_client :: "'s kv \<Rightarrow> int \<Rightarrow> RVal list \<Rightarrow> nat \<Rightarrow> int \<Rightarrow> ('s world, string list option) state" where
  "scan_client K now opts 0 cursor = State_Monad.return None"
| "scan_client K now opts (Suc fuel) cursor = do {
     r \<leftarrow> scan_cmd K now (BulkString (Some (FormatInt cursor)) # opts);
     (case scan_result r of
        None \<Rightarrow> State_Monad.return None
      | Some (ks, n) \<Rightarrow>
          if n = 0 then State_Monad.return (Some ks)
          else do {
            rest \<leftarrow> scan_client K now opts fuel n;
            State_Monad.return (map_option (\<lambda>xs. ks @ xs) rest)
          })
   }"

lemma scan_page_steps:
  assumes "0 < cnt" "int (length xs) + cnt < 2 ^ 63" "0 \<le> c" "c \<le> int (length xs)"
  shows "scan_page c cnt xs =
    (if int (length xs) \<le> c + cnt then Some (drop (nat c) xs, 0) else Some (take (nat cnt) (drop (nat c) xs), c + cnt))"
proof -
  have w: "wrap64 (c + cnt) = c + cnt" using assms by (intro wrap64_id) (auto simp: int64_range_def)
  show ?thesis unfolding scan_page_def Let_def using assms w by auto
qed

text \<open>What \<^verbatim>\<open>SCAN\<close> answers on a store that does not change: the pages of one list.\<close>

lemma scan_client_run:
  assumes "\<And>c. int64_range c \<Longrightarrow> 0 \<le> c \<Longrightarrow>
      run_state (scan_cmd K now (BulkString (Some (FormatInt c)) # opts)) w = (scan_answer c cnt xs (\<lambda>k. [BulkOf k]), w)"
    and "0 < cnt" "int (length xs) + cnt < 2 ^ 63" "0 \<le> c" "c \<le> int (length xs)" "nat (int (length xs) - c) < fuel"
  shows "run_state (scan_client K now opts fuel c) w = (Some (drop (nat c) xs), w)"
  using assms(4-6)
proof (induction fuel arbitrary: c)
  case (Suc fuel)
  have names: "map (\<lambda>k. the (argString k)) (concat (map (\<lambda>k. [BulkOf k]) ys)) = ys" for ys
    by (induction ys) (simp_all add: BulkOf_def bulk_def)
  have c: "int64_range c" using Suc.prems assms(2,3) by (simp add: int64_range_def)
  note A = assms(1) [OF c Suc.prems(1)] and P = scan_page_steps [OF assms(2,3) Suc.prems(1,2)]
  show ?case
  proof (cases "int (length xs) \<le> c + cnt")
    case True
    then show ?thesis using names [of "drop (nat c) xs"]
      by (simp add: A P scan_answer_def scan_reply_def BulkOf_def ParseInt_FormatInt int64_range_def)
  next
    case False
    have n: "int64_range (c + cnt)" using Suc.prems assms(2,3) False by (simp add: int64_range_def)
    have R: "run_state (scan_client K now opts fuel (c + cnt)) w = (Some (drop (nat (c + cnt)) xs), w)"
      using Suc.prems assms(2) False by (intro Suc.IH) auto
    have "take (nat cnt) (drop (nat c) xs) @ drop (nat (c + cnt)) xs = drop (nat c) xs"
      using Suc.prems(1) assms(2) by (metis add.commute append_take_drop_id drop_drop nat_add_distrib less_imp_le)
    then show ?thesis using False names [of "take (nat cnt) (drop (nat c) xs)"] Suc.prems(1) assms(2)
      by (simp add: A P scan_answer_def scan_reply_def BulkOf_def ParseInt_FormatInt n R)
  qed
qed simp
subsection \<open>The keys that are listed\<close>

lemma in_tagged: "(a, b) \<in> set (concat (map (\<lambda>p. map (\<lambda>k. (f p k, k)) (g p)) ps)) \<longleftrightarrow> (\<exists>p \<in> set ps. b \<in> set (g p) \<and> a = f p b)"
  by (induction ps) auto

lemma allUserKeys_names:
  assumes "wf_store (store w)"
  obtains names where "run_state (allUserKeys (map_kv T)) w = (Ok names, w)" "distinct (map fst names)"
    "\<And>name raw. (name, raw) \<in> set names \<longleftrightarrow> (\<exists>p \<in> set typePrefixes. raw = p @ name \<and> store w raw \<noteq> None)"
proof -
  let ?m = "store w"
  have fin: "finite (dom ?m)" using assms by (simp add: wf_store_def)
  define names where "names = concat (map (\<lambda>p. map (\<lambda>k. (drop (length p) k, k)) (raws_under ?m p)) typePrefixes)"
  have run: "run_state (allUserKeys (map_kv T)) w = (Ok names, w)"
    unfolding allUserKeys_def names_def
    by (subst user_keys_loop_run [OF assms]) (simp_all add: typePrefixes_def)
  have mem: "(name, raw) \<in> set names \<longleftrightarrow> (\<exists>p \<in> set typePrefixes. raw = p @ name \<and> ?m raw \<noteq> None)" for name raw
  proof
    assume "(name, raw) \<in> set names"
    then obtain p where p: "p \<in> set typePrefixes" "raw \<in> set (raws_under ?m p)" "name = drop (length p) raw"
      unfolding names_def in_tagged by blast
    with raws_under_split [OF fin p(2)] have "raw = p @ name" by simp
    moreover have "?m raw \<noteq> None" using p(2) fin by (auto simp: set_raws_under)
    ultimately show "\<exists>p \<in> set typePrefixes. raw = p @ name \<and> ?m raw \<noteq> None" using p(1) by blast
  next
    assume "\<exists>p \<in> set typePrefixes. raw = p @ name \<and> ?m raw \<noteq> None"
    then obtain p where p: "p \<in> set typePrefixes" "raw = p @ name" "?m raw \<noteq> None" by blast
    then have "raw \<in> set (raws_under ?m p)" using fin by (auto simp: set_raws_under HasPrefix_iff)
    moreover have "name = drop (length p) raw" using p(2) by simp
    ultimately show "(name, raw) \<in> set names" unfolding names_def in_tagged using p(1) by blast
  qed
  have "map snd names = all_raws ?m" by (simp add: names_def all_raws_def map_concat comp_def)
  with all_raws_props(2) [OF assms] have d: "distinct (map snd names)" by simp
  have "inj_on fst (set names)"
  proof (rule inj_onI)
    fix a b assume m: "a \<in> set names" "b \<in> set names" "fst a = fst b"
    obtain n r where a: "a = (n, r)" by (cases a)
    obtain n' s where b: "b = (n', s)" by (cases b)
    with m a have ab: "a = (n, r)" "b = (n, s)" "(n, r) \<in> set names" "(n, s) \<in> set names" by simp_all
    from mem [THEN iffD1, OF ab(3)] obtain p where p: "p \<in> set typePrefixes" "r = p @ n" "?m (p @ n) \<noteq> None" by blast
    from mem [THEN iffD1, OF ab(4)] obtain q where q: "q \<in> set typePrefixes" "s = q @ n" "?m (q @ n) \<noteq> None" by blast
    have "q = p" using wf_other [OF assms p(1,3) q(1)] q(3) by blast
    with ab p(2) q(2) show "a = b" by simp
  qed
  with d have "distinct (map fst names)" by (simp add: distinct_map)
  from that [OF run this mem] show thesis .
qed

definition live_type :: "(bytes \<rightharpoonup> bytes) \<Rightarrow> int \<Rightarrow> string \<times> bytes \<Rightarrow> (string \<times> char) option" where
  "live_type m now nr =
     (case m (snd nr) of
        None \<Rightarrow> None
      | Some v \<Rightarrow> (case Decode v of Ok e \<Rightarrow> if expired_at now e then None else Some (fst nr, Type e) | _ \<Rightarrow> None))"

lemma map_filter_Cons: "List.map_filter f (x # xs) = (case f x of None \<Rightarrow> List.map_filter f xs | Some y \<Rightarrow> y # List.map_filter f xs)"
  by (simp add: List.map_filter_def split: option.split)

lemma map_filter_Nil: "List.map_filter f [] = []"
  by (simp add: List.map_filter_def)

lemma in_map_filter: "y \<in> set (List.map_filter f xs) \<longleftrightarrow> (\<exists>x \<in> set xs. f x = Some y)"
  by (induction xs) (auto simp: map_filter_Cons map_filter_Nil split: option.splits)

lemma scan_live_run:
  "run_state (scan_live (map_kv T) now ks acc) w = (Ok (acc @ List.map_filter (live_type (store w) now) ks), w)"
proof (induction ks arbitrary: acc)
  case (Cons k ks)
  obtain name raw where k: "k = (name, raw)" by (cases k)
  show ?case
  proof (cases "store w raw")
    case None
    with Cons show ?thesis by (simp add: k runs live_type_def map_filter_Cons)
  next
    case (Some v)
    show ?thesis
    proof (cases "Decode v")
      case (Ok e)
      with Some Cons show ?thesis by (simp add: k runs live_type_def map_filter_Cons expired_at_def)
    qed (use Some Cons in \<open>simp_all add: k runs live_type_def map_filter_Cons\<close>)
  qed
qed (simp add: map_filter_Nil)

lemma live_type_Some:
  "live_type m now (n, r) = Some (k, t) \<longleftrightarrow> n = k \<and> (\<exists>v e. m r = Some v \<and> Decode v = Ok e \<and> \<not> expired_at now e \<and> Type e = t)"
  by (auto simp: live_type_def split: option.splits res.splits if_splits)

lemma live_type_fst: "live_type m now x = Some y \<Longrightarrow> fst y = fst x"
  by (auto simp: live_type_def split: option.splits res.splits if_splits)

lemma map_fst_live: "map fst (List.map_filter (live_type m now) names) = map fst (filter (\<lambda>x. live_type m now x \<noteq> None) names)"
  by (induction names) (auto simp: map_filter_Cons map_filter_Nil dest: live_type_fst split: option.split)

lemma scan_typed:
  fixes now :: int
  assumes "wf_store m" "distinct (map fst names)"
    and names: "\<And>name raw. (name, raw) \<in> set names \<longleftrightarrow> (\<exists>p \<in> set typePrefixes. raw = p @ name \<and> m raw \<noteq> None)"
  defines "typed \<equiv> List.map_filter (live_type m now) names"
  shows "(k, t) \<in> set typed \<longleftrightarrow> (\<exists>e. dict m now k = Some e \<and> Type e = t)" "distinct (map fst typed)"
proof
  assume "(k, t) \<in> set typed"
  then obtain n r where nr: "(n, r) \<in> set names" "live_type m now (n, r) = Some (k, t)"
    unfolding typed_def in_map_filter by (metis surj_pair)
  from nr(2) obtain v e where v: "n = k" "m r = Some v" "Decode v = Ok e" "\<not> expired_at now e" "Type e = t"
    unfolding live_type_Some by blast
  from names [THEN iffD1, OF nr(1)] v(1) obtain p where "p \<in> set typePrefixes" "r = p @ k" by blast
  with v dict_Some [OF assms(1), of now k e] show "\<exists>e. dict m now k = Some e \<and> Type e = t" by blast
next
  assume "\<exists>e. dict m now k = Some e \<and> Type e = t"
  then obtain e where e: "dict m now k = Some e" "Type e = t" by blast
  from dict_Some [OF assms(1), THEN iffD1, OF e(1)] obtain p v where
    p: "p \<in> set typePrefixes" "m (p @ k) = Some v" "Decode v = Ok e" "\<not> expired_at now e" by blast
  have "(k, p @ k) \<in> set names" using names [of k "p @ k"] p(1,2) by blast
  moreover have "live_type m now (k, p @ k) = Some (k, t)" unfolding live_type_Some using p e(2) by blast
  ultimately show "(k, t) \<in> set typed" unfolding typed_def in_map_filter by blast
next
  show "distinct (map fst typed)" unfolding typed_def map_fst_live using assms(2) by (simp add: distinct_map inj_on_def)
qed

text \<open>The list that \<^verbatim>\<open>SCAN\<close> pages through: the live keys in order, of the asked type, that match the pattern.\<close>

definition scan_list :: "scan_opts \<Rightarrow> (string \<rightharpoonup> Entry) \<Rightarrow> string list" where
  "scan_list opts d =
     filter (\<lambda>k. (sc_type opts = [] \<or> EqualFold (typeName (Type (the (d k)))) (sc_type opts)) \<and> path_ok (sc_match opts) k)
       (sorted_list_of_set (dom d))"

lemma scan_matched_list:
  assumes typed: "\<And>k t. (k, t) \<in> set typed \<longleftrightarrow> (\<exists>e. d k = Some e \<and> Type e = t)" and "distinct (map fst typed)"
  shows "scan_matched opts typed = scan_list opts d"
proof -
  let ?P = "\<lambda>k t. (sc_type opts = [] \<or> EqualFold (typeName t) (sc_type opts)) \<and> path_ok (sc_match opts) k"
  have S: "fst ` set typed = dom d" using typed by force
  have s: "map fst (sort_key fst typed) = sorted_list_of_set (dom d)"
    using assms(2) S by (metis distinct_map distinct_sort mset_map mset_sort set_map set_sort sorted_list_of_set.idem_if_sorted_distinct sorted_sort_key)
  have "filter (\<lambda>(k, t). ?P k t) (sort_key fst typed) = filter (\<lambda>x. ?P (fst x) (Type (the (d (fst x))))) (sort_key fst typed)"
  proof (rule filter_cong [OF refl])
    fix x assume "x \<in> set (sort_key fst typed)"
    then obtain e where "d (fst x) = Some e" "Type e = snd x" using typed [of "fst x" "snd x"] by auto
    then show "(case x of (k, t) \<Rightarrow> ?P k t) = ?P (fst x) (Type (the (d (fst x))))" by (simp add: case_prod_beta)
  qed
  then show ?thesis unfolding scan_matched_def scan_list_def s [symmetric] filter_map by (simp add: comp_def)
qed

lemma finite_dict: "wf_store m \<Longrightarrow> finite (dom (dict m now))"
proof -
  assume wf: "wf_store m"
  have "k \<in> (\<Union>p \<in> set typePrefixes. drop (length p) ` dom m)" if "k \<in> dom (dict m now)" for k
  proof -
    from that obtain e where "dict m now k = Some e" by blast
    from dict_Some [OF wf, THEN iffD1, OF this] obtain p v where "p \<in> set typePrefixes" "m (p @ k) = Some v" by blast
    then have "p @ k \<in> dom m" "drop (length p) (p @ k) = k" by auto
    with \<open>p \<in> set typePrefixes\<close> show ?thesis by (metis UN_I imageI)
  qed
  then have "dom (dict m now) \<subseteq> (\<Union>p \<in> set typePrefixes. drop (length p) ` dom m)" by blast
  moreover have "finite (dom m)" using wf by (simp add: wf_store_def)
  ultimately show ?thesis by (meson finite_UN_I finite_imageI finite_set finite_subset)
qed

lemma scan_cmd_run:
  assumes "wf_store (store w)" "scan_parse False True rest scan_default = Inr opts" "int64_range c" "0 \<le> c"
  shows "run_state (scan_cmd (map_kv T) now (BulkString (Some (FormatInt c)) # rest)) w
    = (scan_answer c (sc_count opts) (scan_list opts (dict (store w) now)) (\<lambda>k. [BulkOf k]), w)"
proof -
  obtain names where n: "run_state (allUserKeys (map_kv T)) w = (Ok names, w)" "distinct (map fst names)"
    "\<And>name raw. (name, raw) \<in> set names \<longleftrightarrow> (\<exists>p \<in> set typePrefixes. raw = p @ name \<and> store w raw \<noteq> None)"
    using allUserKeys_names [OF assms(1)] by blast
  let ?typed = "List.map_filter (live_type (store w) now) names"
  have "scan_matched opts ?typed = scan_list opts (dict (store w) now)"
    using scan_typed [OF assms(1) n(2,3), where now = now] by (intro scan_matched_list) auto
  then show ?thesis
    using assms(2-4)
    by (simp add: scan_cmd_def scan_cursor_def need_def bulk_def ParseInt_FormatInt runs n(1) scan_live_run)
qed

context kv_store
begin

lemma sim_scan_client [sim_intros]: "msim (scan_client K now opts fuel c) (scan_client M now opts fuel c)"
proof (induction fuel arbitrary: c)
  case (Suc fuel)
  then show ?case by (simp only: scan_client.simps) (intro sim_intros Suc; simp)
qed (simp add: sim_intros)

end

text \<open>C33. A client that follows the cursors of \<^verbatim>\<open>SCAN\<close> from 0 until it gets 0 back sees every live key that has the
  asked type and matches the pattern, each exactly once, after finitely many calls, whatever the page
  size is; the store is not changed. Expired keys that were not deleted yet are not shown.\<close>

theorem scan_complete:
  assumes "kv_store K view live" "live (store w)" "wf_store (view (store w))" "d = dict (view (store w)) now"
    and "scan_parse False True rest scan_default = Inr opts" "0 < sc_count opts"
    and "int (card (dom d)) + sc_count opts < 2 ^ 63" "card (dom d) < fuel"
    and "run_state (scan_client K now rest fuel 0) w = (r, w')"
  shows "\<exists>ks. r = Some ks \<and> distinct ks
    \<and> set ks = {k \<in> dom d. (sc_type opts = [] \<or> EqualFold (typeName (Type (the (d k)))) (sc_type opts)) \<and> path_ok (sc_match opts) k}
    \<and> view (store w') = view (store w)"
proof -
  let ?xs = "scan_list opts d"
  have fin: "finite (dom d)" unfolding assms(4) by (rule finite_dict [OF assms(3)])
  have len: "length ?xs \<le> card (dom d)"
    unfolding scan_list_def using length_filter_le [of _ "sorted_list_of_set (dom d)"] by simp
  have "run_state (scan_client (map_kv (kvText K)) now rest fuel 0) (absw view w) = (Some (drop (nat 0) ?xs), absw view w)"
    using assms(4,5) scan_cmd_run [of "absw view w"] assms(3,6-8) len by (intro scan_client_run) auto
  with simD [OF kv_store.sim_scan_client [OF assms(1)] assms(2), of now rest fuel 0] assms(9)
  show ?thesis using fin by (auto simp: scan_list_def)
qed
theorem scan_complete_witness:
  "\<exists>ks. fst (run_state (scan_client (pebble_kv memdb quiet_env) 1 [] 2 0) (one_world TypeList ''k'' [])) = Some ks \<and> set ks = {''k''}"
proof -
  let ?w = "one_world TypeList ''k'' []"
  have "path_ok ''*'' ''k''" by code_simp
  then have p: "{k. k = ''k'' \<and> path_ok ''*'' k} = {''k''}" by auto
  show ?thesis
    using scan_complete [OF memdb.kv_store_axioms, of ?w _ 1 "[]" scan_default 2
        "fst (run_state (scan_client (pebble_kv memdb quiet_env) 1 [] 2 0) ?w)"
        "snd (run_state (scan_client (pebble_kv memdb quiet_env) 1 [] 2 0) ?w)", OF _ _ refl]
      one_dict [of TypeList "''k''" "[]"]
    by (simp add: one_world_def New_def scan_default_def p) blast
qed

text \<open>Two corners of the page arithmetic: \<^verbatim>\<open>COUNT 0\<close> ends a scan before its first element, and a large count wraps
  around behind the first page.\<close>

lemma scan_count_zero: "xs \<noteq> [] \<Longrightarrow> scan_page 0 0 xs = Some ([], 0)"
  by (simp add: scan_page_def wrap64_def)

lemma scan_count_wraps: "0 < c \<Longrightarrow> c \<le> int (length xs) \<Longrightarrow> c < 2 ^ 62 \<Longrightarrow> scan_page c (2 ^ 63 - 1) xs = None"
proof -
  assume a: "0 < c" "c \<le> int (length xs)" "c < 2 ^ 62"
  have "(18446744073709551615 + c) mod 18446744073709551616 = c - 1" using a mod_pos_pos_trivial [of "c - 1" 18446744073709551616] mod_add_self2 [of "c - 1" 18446744073709551616] by simp
  with a show ?thesis by (simp add: scan_page_def wrap64_def Let_def)
qed
end
