(* ===== verification/Sets.thy ===== *)
theory Sets
  imports Lists Paging
begin

text \<open>
  The set commands of \<^verbatim>\<open>internal/commands\<close>: \<^verbatim>\<open>set.go\<close> and \<^verbatim>\<open>set_ops.go\<close>. A \<^verbatim>\<open>map[string]struct{}\<close> is the list of its
  members, each once; no result depends on their order, because the replies and the stored payload are
  sorted. \<^verbatim>\<open>math/rand\<close> is a parameter: \<open>perm n\<close> is what \<^verbatim>\<open>rand.Perm(n)\<close> returns, \<open>intn i n\<close> the i-th result of \<^verbatim>\<open>rand.Intn(n)\<close>.
\<close>

subsection \<open>\<^verbatim>\<open>set.go\<close>\<close>

definition set_dec :: "bytes \<Rightarrow> (ds_error, bytes list) res" where
  "set_dec raw = bind_res (DecodeSet raw) (\<lambda>(s, _). Ok s)"

definition readSet :: "'s kv \<Rightarrow> int \<Rightarrow> string \<Rightarrow> ('s world, (cmd_error, bytes list \<times> int) res) state" where
  "readSet = typed_read TypeSet set_dec"

definition writeSet :: "'s kv \<Rightarrow> string \<Rightarrow> bytes list \<Rightarrow> int \<Rightarrow> ('s world, (storage_error, unit) res) state" where
  "writeSet K key members expiry = kset K (SetKey key) (Encode TypeSet expiry (EncodeSet members))"

definition set_cmd_of :: "'s kv \<Rightarrow> int \<Rightarrow> bytes list parsed \<Rightarrow> 's handler" where
  "set_cmd_of = cell_cmd TypeSet set_dec"

abbreviation keep_set :: "bytes list \<Rightarrow> int \<Rightarrow> action" where
  "keep_set members expiry \<equiv> Write TypeSet expiry (EncodeSet members)"

definition sortedMembers :: "bytes list \<Rightarrow> bytes list" where
  "sortedMembers s = insertion_sort (<) s"

fun sadd_loop :: "RVal list \<Rightarrow> bytes list \<Rightarrow> int \<Rightarrow> (bytes list \<times> int) option" where
  "sadd_loop [] s added = Some (s, added)"
| "sadd_loop (a # as) s added =
     (case argString a of
        None \<Rightarrow> None
      | Some m \<Rightarrow> if m \<in> set s then sadd_loop as s added else sadd_loop as (s @ [m]) (added + 1))"

definition sadd_step :: "RVal list \<Rightarrow> string \<Rightarrow> bytes list step" where
  "sadd_step ms key old =
     (case (case old of None \<Rightarrow> ([], 0) | Some x \<Rightarrow> x) of (s, expiry) \<Rightarrow>
        (case sadd_loop ms s 0 of
           None \<Rightarrow> (Ok (RError ''ERR invalid member''), Keep, [])
         | Some (out, added) \<Rightarrow> (Ok (Integer added), keep_set out expiry, [(''s'', ''sadd'', key)])))"

definition sadd :: "RVal list \<Rightarrow> bytes list parsed" where
  "sadd args =
     (if length args < 2 then refuse (wrongargs ''sadd'')
      else need_key (args ! 0) (\<lambda>key. Inr (key, sadd_step (tl args) key)))"

fun srem_loop :: "RVal list \<Rightarrow> bytes list \<Rightarrow> int \<Rightarrow> bytes list \<times> int" where
  "srem_loop [] s deleted = (s, deleted)"
| "srem_loop (a # as) s deleted =
     (case argString a of
        None \<Rightarrow> srem_loop as s deleted
      | Some m \<Rightarrow> if m \<in> set s then srem_loop as (remove1 m s) (deleted + 1) else srem_loop as s deleted)"

definition srem_step :: "RVal list \<Rightarrow> string \<Rightarrow> bytes list step" where
  "srem_step ms key old =
     (case old of
        None \<Rightarrow> (Ok (Integer 0), Keep, [])
      | Some (s, expiry) \<Rightarrow>
          (case srem_loop ms s 0 of (out, deleted) \<Rightarrow>
             if out = [] then
               (Ok (Integer deleted), Remove TypeSet, if 0 < deleted then [(''s'', ''srem'', key), (''g'', ''del'', key)] else [])
             else (Ok (Integer deleted), keep_set out expiry, if 0 < deleted then [(''s'', ''srem'', key)] else [])))"

definition srem :: "RVal list \<Rightarrow> bytes list parsed" where
  "srem args =
     (if length args < 2 then refuse (wrongargs ''srem'')
      else need_key (args ! 0) (\<lambda>key. Inr (key, srem_step (tl args) key)))"

definition smembers :: "RVal list \<Rightarrow> bytes list parsed" where
  "smembers args =
     (if length args \<noteq> 1 then refuse (wrongargs ''smembers'')
      else need_key (args ! 0) (\<lambda>key. Inr (key, look (toBulkArray []) (\<lambda>s. toBulkArray (sortedMembers s)))))"

definition member_flag :: "bytes list \<Rightarrow> bytes \<Rightarrow> RVal" where
  "member_flag s m = Integer (if m \<in> set s then 1 else 0)"

definition sismember :: "RVal list \<Rightarrow> bytes list parsed" where
  "sismember args =
     (if length args \<noteq> 2 then refuse (wrongargs ''sismember'')
      else need_key (args ! 0) (\<lambda>key. need ''ERR invalid member'' (args ! 1) (\<lambda>m.
        Inr (key, look (Integer 0) (\<lambda>s. member_flag s m)))))"

fun smismember_loop :: "RVal list \<Rightarrow> bytes list \<Rightarrow> RVal list \<Rightarrow> RVal list option" where
  "smismember_loop [] s out = Some out"
| "smismember_loop (a # as) s out =
     (case argString a of None \<Rightarrow> None | Some m \<Rightarrow> smismember_loop as s (out @ [member_flag s m]))"

definition smismember_reply :: "RVal list \<Rightarrow> bytes list \<Rightarrow> RVal" where
  "smismember_reply ms s =
     (case smismember_loop ms s [] of None \<Rightarrow> RError ''ERR invalid member'' | Some out \<Rightarrow> Array (Some out))"

definition smismember :: "RVal list \<Rightarrow> bytes list parsed" where
  "smismember args =
     (if length args < 2 then refuse (wrongargs ''smismember'')
      else need_key (args ! 0) (\<lambda>key. Inr (key, look (smismember_reply (tl args) []) (smismember_reply (tl args)))))"

definition scard :: "RVal list \<Rightarrow> bytes list parsed" where
  "scard args =
     (if length args \<noteq> 1 then refuse (wrongargs ''scard'')
      else need_key (args ! 0) (\<lambda>key. Inr (key, look (Integer 0) (\<lambda>s. Integer (int (length s))))))"

text \<open>\<open>None\<close> when no count was given.\<close>

definition popCount :: "RVal list \<Rightarrow> bool \<Rightarrow> (int option \<Rightarrow> reply + 'b) \<Rightarrow> reply + 'b" where
  "popCount args allowNegative k =
     (if length args = 1 then k None
      else need_int (args ! 1) (\<lambda>n. if \<not> allowNegative \<and> n < 0 then refuse notint else k (Some n)))"

definition or_one :: "int option \<Rightarrow> int" where
  "or_one cnt = (case cnt of None \<Rightarrow> 1 | Some n \<Rightarrow> n)"

definition drawn :: "(nat \<Rightarrow> nat list) \<Rightarrow> int \<Rightarrow> 'a list \<Rightarrow> 'a list" where
  "drawn perm cnt members =
     (let n = (if int (length members) < cnt then length members else nat cnt)
      in map (\<lambda>i. members ! (perm (length members) ! i)) [0..<n])"

definition spop_step :: "(nat \<Rightarrow> nat list) \<Rightarrow> int option \<Rightarrow> string \<Rightarrow> bytes list step" where
  "spop_step perm cnt key old =
     (case old of
        None \<Rightarrow> (Ok (if cnt = None then NilBulk else toBulkArray []), Keep, [])
      | Some (s, expiry) \<Rightarrow>
          (let popped = drawn perm (or_one cnt) (sortedMembers s);
               rest = foldl (\<lambda>s m. removeAll m s) s popped;
               v = (if cnt = None then (if popped = [] then NilBulk else BulkOf (hd popped)) else toBulkArray popped)
           in if rest = [] then
                (Ok v, Remove TypeSet, if popped \<noteq> [] then [(''s'', ''spop'', key), (''g'', ''del'', key)] else [])
              else (Ok v, keep_set rest expiry, if popped \<noteq> [] then [(''s'', ''spop'', key)] else [])))"

definition spop :: "(nat \<Rightarrow> nat list) \<Rightarrow> RVal list \<Rightarrow> bytes list parsed" where
  "spop perm args =
     (if length args < 1 \<or> 2 < length args then refuse (wrongargs ''spop'')
      else need_key (args ! 0) (\<lambda>key. popCount args False (\<lambda>cnt. Inr (key, spop_step perm cnt key))))"

text \<open>\<^verbatim>\<open>rand.Intn(0)\<close> panics.\<close>

definition srand_reply :: "(nat \<Rightarrow> nat list) \<Rightarrow> (nat \<Rightarrow> nat \<Rightarrow> nat) \<Rightarrow> int option \<Rightarrow> bytes list \<Rightarrow> reply" where
  "srand_reply perm intn cnt s =
     (let members = sortedMembers s; n = length members in
      case cnt of
        None \<Rightarrow> if members = [] then Ok NilBulk else Ok (BulkOf (members ! intn 0 n))
      | Some c \<Rightarrow>
          if c = 0 then Ok (toBulkArray [])
          else if 0 < c then Ok (toBulkArray (drawn perm c members))
          else if 0 < wrap64 (- c) \<and> members = [] then Panic
          else Ok (toBulkArray (map (\<lambda>i. members ! intn i n) [0..<nat (wrap64 (- c))])))"

definition srandmember :: "(nat \<Rightarrow> nat list) \<Rightarrow> (nat \<Rightarrow> nat \<Rightarrow> nat) \<Rightarrow> RVal list \<Rightarrow> bytes list parsed" where
  "srandmember perm intn args =
     (if length args < 1 \<or> 2 < length args then refuse (wrongargs ''srandmember'')
      else need_key (args ! 0) (\<lambda>key. popCount args True (\<lambda>cnt. Inr (key, \<lambda>old.
        case old of
          None \<Rightarrow> (Ok (if cnt = None then NilBulk else toBulkArray []), Keep, [])
        | Some (s, _) \<Rightarrow> (srand_reply perm intn cnt s, Keep, [])))))"

definition smove_write :: "'s kv \<Rightarrow> string \<Rightarrow> string \<Rightarrow> bytes list \<times> int \<Rightarrow> bytes list \<times> int \<Rightarrow> 's handler" where
  "smove_write K src dst kept target =
     (case (kept, target) of ((rest, srcExpiry), (out, dstExpiry)) \<Rightarrow> do {
        u \<leftarrow> (if rest = [] then kdel K (SetKey src) else writeSet K src rest srcExpiry);
        (case u of
           Err e \<Rightarrow> answer (errValue K (Stored e))
         | Panic \<Rightarrow> crash
         | Ok _ \<Rightarrow> do {
             w \<leftarrow> writeSet K dst out dstExpiry;
             (case w of
                Err e \<Rightarrow> answer (errValue K (Stored e))
              | Panic \<Rightarrow> crash
              | Ok _ \<Rightarrow> notify_all [(''s'', ''srem'', src), (''s'', ''sadd'', dst)] (answer (Integer 1)))
           })
      })"

definition smove_core :: "'s kv \<Rightarrow> int \<Rightarrow> string \<Rightarrow> string \<Rightarrow> bytes \<Rightarrow> 's handler" where
  "smove_core K now src dst m = do {
     r \<leftarrow> readSet K now src;
     (case r of
        Err e \<Rightarrow> missing K (Integer 0) e
      | Panic \<Rightarrow> crash
      | Ok (srcSet, srcExpiry) \<Rightarrow>
          if m \<notin> set srcSet then answer (Integer 0)
          else if src = dst then answer (Integer 1)
          else do {
            d \<leftarrow> readSet K now dst;
            (case or_empty d of
               Err e \<Rightarrow> answer (errValue K e)
             | Panic \<Rightarrow> crash
             | Ok (dstSet, dstExpiry) \<Rightarrow>
                 smove_write K src dst (remove1 m srcSet, srcExpiry) (if m \<in> set dstSet then dstSet else dstSet @ [m], dstExpiry))
          })
   }"

definition smove :: "'s kv \<Rightarrow> int \<Rightarrow> RVal list \<Rightarrow> 's handler" where
  "smove K now args =
     (if length args \<noteq> 3 then fail (wrongargs ''smove'')
      else case need ''ERR invalid source'' (args ! 0) (\<lambda>src. need ''ERR invalid destination'' (args ! 1) (\<lambda>dst.
             need ''ERR invalid member'' (args ! 2) (\<lambda>m. Inr (src, dst, m)))) of
        Inl r \<Rightarrow> State_Monad.return r
      | Inr (src, dst, m) \<Rightarrow> smove_core K now src dst m)"

subsection \<open>\<^verbatim>\<open>set_ops.go\<close>\<close>

text \<open>The sets of several keys; \<open>Err\<close> is the reply of the first key that is not a set.\<close>

fun readSets :: "'s kv \<Rightarrow> int \<Rightarrow> string list \<Rightarrow> bytes list list \<Rightarrow> ('s world, (RVal, bytes list list) res) state" where
  "readSets K now [] sets = State_Monad.return (Ok sets)"
| "readSets K now (k # ks) sets = do {
     r \<leftarrow> readSet K now k;
     (case or_empty r of
        Err e \<Rightarrow> State_Monad.return (Err (errValue K e))
      | Panic \<Rightarrow> State_Monad.return Panic
      | Ok (s, _) \<Rightarrow> readSets K now ks (sets @ [s]))
   }"

definition setKeys :: "RVal list \<Rightarrow> (string list \<Rightarrow> reply + 'b) \<Rightarrow> reply + 'b" where
  "setKeys args k = list_keys args [] k"

definition interSets :: "bytes list list \<Rightarrow> bytes list" where
  "interSets sets = filter (\<lambda>m. list_all (\<lambda>s. m \<in> set s) (tl sets)) (hd sets)"

definition unionSets :: "bytes list list \<Rightarrow> bytes list" where
  "unionSets sets = foldl (\<lambda>out s. foldl (\<lambda>out m. if m \<in> set out then out else out @ [m]) out s) [] sets"

definition diffSets :: "bytes list list \<Rightarrow> bytes list" where
  "diffSets sets = filter (\<lambda>m. \<not> list_ex (\<lambda>s. m \<in> set s) (tl sets)) (hd sets)"

definition with_sets :: "'s kv \<Rightarrow> int \<Rightarrow> string list \<Rightarrow> (bytes list list \<Rightarrow> 's handler) \<Rightarrow> 's handler" where
  "with_sets K now keys f = do {
     r \<leftarrow> readSets K now keys [];
     (case r of Err v \<Rightarrow> answer v | Panic \<Rightarrow> crash | Ok sets \<Rightarrow> f sets)
   }"

definition set_op :: "string \<Rightarrow> (bytes list list \<Rightarrow> bytes list) \<Rightarrow> 's kv \<Rightarrow> int \<Rightarrow> RVal list \<Rightarrow> 's handler" where
  "set_op name f K now args =
     (if length args < 1 then fail (wrongargs name)
      else case setKeys args Inr of
        Inl r \<Rightarrow> State_Monad.return r
      | Inr keys \<Rightarrow> with_sets K now keys (\<lambda>sets. answer (toBulkArray (sortedMembers (f sets)))))"

definition sinter :: "'s kv \<Rightarrow> int \<Rightarrow> RVal list \<Rightarrow> 's handler" where
  "sinter = set_op ''sinter'' interSets"

definition sunion :: "'s kv \<Rightarrow> int \<Rightarrow> RVal list \<Rightarrow> 's handler" where
  "sunion = set_op ''sunion'' unionSets"

definition sdiff :: "'s kv \<Rightarrow> int \<Rightarrow> RVal list \<Rightarrow> 's handler" where
  "sdiff = set_op ''sdiff'' diffSets"

fun smallest_from :: "bytes list list \<Rightarrow> nat list \<Rightarrow> nat \<Rightarrow> nat" where
  "smallest_from sets [] best = best"
| "smallest_from sets (i # is) best =
     smallest_from sets is (if length (sets ! i) < length (sets ! best) then i else best)"

fun card_loop :: "bytes list list \<Rightarrow> int \<Rightarrow> bytes list \<Rightarrow> int \<Rightarrow> int" where
  "card_loop others limit [] n = n"
| "card_loop others limit (m # ms) n =
     (if list_all (\<lambda>s. m \<in> set s) others then
        (if 0 < limit \<and> limit \<le> n + 1 then n + 1 else card_loop others limit ms (n + 1))
      else card_loop others limit ms n)"

definition intercard :: "bytes list list \<Rightarrow> int \<Rightarrow> int" where
  "intercard sets limit =
     (let s = smallest_from sets [0..<length sets] 0
      in card_loop (take s sets @ drop (s + 1) sets) limit (sets ! s) 0)"

definition card_limit :: "RVal list \<Rightarrow> (int \<Rightarrow> reply + 'b) \<Rightarrow> reply + 'b" where
  "card_limit rest k =
     (if length rest = 2 then
        need ''ERR syntax error'' (rest ! 0) (\<lambda>opt.
          if \<not> EqualFold opt ''LIMIT'' then refuse ''ERR syntax error''
          else need_int (rest ! 1) (\<lambda>n. if n < 0 then refuse ''ERR LIMIT can't be negative'' else k n))
      else if rest \<noteq> [] then refuse ''ERR syntax error''
      else k 0)"

definition sintercard :: "'s kv \<Rightarrow> int \<Rightarrow> RVal list \<Rightarrow> 's handler" where
  "sintercard K now args =
     (if length args < 2 then fail (wrongargs ''sintercard'')
      else case need notint (args ! 0) (\<lambda>s. case ParseInt s of
             None \<Rightarrow> refuse (wrongargs ''sintercard'')
           | Some numkeys \<Rightarrow>
               if numkeys \<le> 0 \<or> int (length args) - 1 < numkeys then refuse (wrongargs ''sintercard'')
               else setKeys (take (nat numkeys) (drop 1 args)) (\<lambda>keys.
                 card_limit (drop (1 + nat numkeys) args) (\<lambda>limit. Inr (keys, limit)))) of
        Inl r \<Rightarrow> State_Monad.return r
      | Inr (keys, limit) \<Rightarrow> with_sets K now keys (\<lambda>sets. answer (Integer (intercard sets limit))))"

definition storeResult :: "'s kv \<Rightarrow> string \<Rightarrow> bytes list \<Rightarrow> 's handler" where
  "storeResult K dst result =
     (if result = [] then do { _ \<leftarrow> kdel K (SetKey dst); answer (Integer 0) }
      else do {
        w \<leftarrow> writeSet K dst result 0;
        (case w of
           Err e \<Rightarrow> answer (errValue K (Stored e))
         | Panic \<Rightarrow> crash
         | Ok _ \<Rightarrow> answer (Integer (int (length result))))
      })"

fun is_error :: "reply \<Rightarrow> bool" where
  "is_error (Ok (RError _)) = True"
| "is_error Panic = True"
| "is_error _ = False"

definition store_notify :: "string \<Rightarrow> 's kv \<Rightarrow> int \<Rightarrow> string \<Rightarrow> bytes list \<Rightarrow> 's handler" where
  "store_notify name K now dst result = do {
     old \<leftarrow> readSet K now dst;
     if old = Panic then crash
     else do {
       out \<leftarrow> storeResult K dst result;
       if is_error out then State_Monad.return out
       else notify_all ((''s'', name, dst) # (if result = [] \<and> (case old of Ok _ \<Rightarrow> True | _ \<Rightarrow> False) then [(''g'', ''del'', dst)] else []))
              (State_Monad.return out)
     }
   }"

definition storeSetOp :: "string \<Rightarrow> (bytes list list \<Rightarrow> bytes list) \<Rightarrow> 's kv \<Rightarrow> int \<Rightarrow> RVal list \<Rightarrow> 's handler" where
  "storeSetOp name f K now args =
     (if length args < 2 then fail (wrongargs name)
      else case need ''ERR invalid destination'' (args ! 0) (\<lambda>dst. setKeys (tl args) (\<lambda>keys. Inr (dst, keys))) of
        Inl r \<Rightarrow> State_Monad.return r
      | Inr (dst, keys) \<Rightarrow> with_sets K now keys (\<lambda>sets. store_notify name K now dst (f sets)))"

definition sinterstore :: "'s kv \<Rightarrow> int \<Rightarrow> RVal list \<Rightarrow> 's handler" where
  "sinterstore = storeSetOp ''sinterstore'' interSets"

definition sunionstore :: "'s kv \<Rightarrow> int \<Rightarrow> RVal list \<Rightarrow> 's handler" where
  "sunionstore = storeSetOp ''sunionstore'' unionSets"

definition sdiffstore :: "'s kv \<Rightarrow> int \<Rightarrow> RVal list \<Rightarrow> 's handler" where
  "sdiffstore = storeSetOp ''sdiffstore'' diffSets"

definition sscan :: "RVal list \<Rightarrow> bytes list parsed" where
  "sscan args =
     (if length args < 2 then refuse (wrongargs ''sscan'')
      else need_key (args ! 0) (\<lambda>key. scan_cursor (args ! 1) (\<lambda>cursor.
        case scan_parse False False (drop 2 args) scan_default of
          Inl r \<Rightarrow> Inl r
        | Inr opts \<Rightarrow> Inr (key, \<lambda>old.
            (case old of
               None \<Rightarrow> Ok (scan_reply 0 [])
             | Some (s, _) \<Rightarrow>
                 scan_answer cursor (sc_count opts) (filter (path_ok (sc_match opts)) (sortedMembers s)) (\<lambda>m. [BulkOf m]),
             Keep, [])))))"

definition set_steps ::
  "(nat \<Rightarrow> nat list) \<Rightarrow> (nat \<Rightarrow> nat \<Rightarrow> nat) \<Rightarrow> (string \<times> (RVal list \<Rightarrow> bytes list parsed)) list" where
  "set_steps perm intn =
     [(''SADD'', sadd), (''SREM'', srem), (''SMEMBERS'', smembers), (''SISMEMBER'', sismember), (''SMISMEMBER'', smismember),
      (''SCARD'', scard), (''SPOP'', spop perm), (''SRANDMEMBER'', srandmember perm intn), (''SSCAN'', sscan)]"

definition set_table :: "(nat \<Rightarrow> nat list) \<Rightarrow> (nat \<Rightarrow> nat \<Rightarrow> nat) \<Rightarrow> 's kv \<Rightarrow> int \<Rightarrow> 's table" where
  "set_table perm intn K now =
     map (\<lambda>(n, p). (n, \<lambda>args. set_cmd_of K now (p args))) (set_steps perm intn) @
     [(''SMOVE'', smove K now), (''SINTER'', sinter K now), (''SINTERSTORE'', sinterstore K now), (''SUNION'', sunion K now),
      (''SUNIONSTORE'', sunionstore K now), (''SDIFF'', sdiff K now), (''SDIFFSTORE'', sdiffstore K now),
      (''SINTERCARD'', sintercard K now)]"

subsection \<open>Refinement\<close>

lemma set_steps_ok [step_oks]:
  "act_tag TypeSet (fst (snd (sadd_step ms key None)))"
  "int64_range x \<Longrightarrow> act_tag TypeSet (fst (snd (sadd_step ms key (Some (s, x)))))"
  "act_tag TypeSet (fst (snd (srem_step ms key None)))"
  "int64_range x \<Longrightarrow> act_tag TypeSet (fst (snd (srem_step ms key (Some (s, x)))))"
  "act_tag TypeSet (fst (snd (spop_step perm cnt key None)))"
  "int64_range x \<Longrightarrow> act_tag TypeSet (fst (snd (spop_step perm cnt key (Some (s, x)))))"
  by (simp_all add: sadd_step_def srem_step_def spop_step_def Let_def split: option.split prod.split)

lemma step_ok_popCount [step_oks]: "(\<And>c. step_ok tag (f c)) \<Longrightarrow> step_ok tag (popCount args b f)"
  unfolding popCount_def by (intro step_oks)

lemma step_ok_cursor [step_oks]: "(\<And>c. step_ok tag (f c)) \<Longrightarrow> step_ok tag (scan_cursor a f)"
  unfolding scan_cursor_def by (intro step_oks)

lemma set_steps_typed:
  assumes "map_of (set_steps perm intn) name = Some p"
  shows "step_ok TypeSet (p args)"
  using assms unfolding set_steps_def
  by (auto split: if_splits simp: sadd_def srem_def smembers_def sismember_def smismember_def scard_def spop_def srandmember_def
      sscan_def intro!: step_oks)
context kv_store
begin

lemma sim_readSet [sim_intros]: "msim (readSet K now key) (readSet M now key)"
  unfolding readSet_def by (intro sim_intros)

lemma sim_writeSet [sim_intros]: "msim (writeSet K key s x) (writeSet M key s x)"
  unfolding writeSet_def by (intro sim_intros)

lemma sim_set_cmd_of [sim_intros]: "msim (set_cmd_of K now p) (set_cmd_of M now p)"
  unfolding set_cmd_of_def by (intro sim_intros)

lemma sim_smove_core [sim_intros]: "msim (smove_core K now src dst m) (smove_core M now src dst m)"
  unfolding smove_core_def smove_write_def by (intro sim_intros) simp_all

lemma sim_smove [sim_intros]: "msim (smove K now args) (smove M now args)"
  unfolding smove_def by (intro sim_intros) simp_all

lemma sim_readSets [sim_intros]: "msim (readSets K now ks sets) (readSets M now ks sets)"
  by (induction ks arbitrary: sets) (simp_all only: readSets.simps, (intro sim_intros; simp)+)

lemma sim_with_sets [sim_intros]: "(\<And>x. msim (f x) (g x)) \<Longrightarrow> msim (with_sets K now ks f) (with_sets M now ks g)"
  unfolding with_sets_def by (intro sim_intros) simp_all

lemma sim_set_op [sim_intros]: "msim (set_op name f K now args) (set_op name f M now args)"
  unfolding set_op_def by (intro sim_intros) simp_all

lemma sim_storeResult [sim_intros]: "msim (storeResult K dst r) (storeResult M dst r)"
  unfolding storeResult_def by (intro sim_intros) simp_all

lemma sim_storeSetOp [sim_intros]: "msim (storeSetOp name f K now args) (storeSetOp name f M now args)"
  unfolding storeSetOp_def store_notify_def by (intro sim_intros) simp_all

lemma sim_sintercard [sim_intros]: "msim (sintercard K now args) (sintercard M now args)"
  unfolding sintercard_def by (intro sim_intros) simp_all

end

subsection \<open>Sets of several keys\<close>

abbreviation set_entry :: "Entry option \<Rightarrow> (cmd_error, bytes list \<times> int) res" where
  "set_entry \<equiv> typed_entry TypeSet set_dec"

abbreviation set_cell :: "bytes list \<Rightarrow> int \<Rightarrow> Entry" where
  "set_cell s x \<equiv> \<lparr> Type = TypeSet, Expiry = x, Payload = EncodeSet s \<rparr>"

text \<open>A key that is a set or absent, and its members.\<close>

definition is_set :: "Entry option \<Rightarrow> bool" where
  "is_set old = (case or_empty (set_entry old) of Ok _ \<Rightarrow> True | _ \<Rightarrow> False)"

definition members_of :: "Entry option \<Rightarrow> bytes list" where
  "members_of old = (case or_empty (set_entry old) of Ok (s, _) \<Rightarrow> s | _ \<Rightarrow> [])"

lemma set_dec_distinct: "set_dec raw = Ok s \<Longrightarrow> distinct s"
proof -
  assume "set_dec raw = Ok s"
  then obtain enc where "DecodeSet raw = Ok (s, enc)" by (auto simp: set_dec_def)
  then obtain ms where "s = keys_of (gomap_of (map (\<lambda>m. (m, ())) ms))"
    by (auto simp: DecodeSet_def split: list.splits option.splits)
  then show ?thesis using gomap_gomap_of by (simp add: gomap_def)
qed

lemma members_distinct: "distinct (members_of old)"
  by (auto simp: members_of_def or_empty_def typed_entry_def isNotFound_def dest: set_dec_distinct
      split: option.split res.split prod.split if_splits)

lemma is_set_Ok: "is_set old \<Longrightarrow> \<exists>x. or_empty (set_entry old) = Ok (members_of old, x)"
  by (auto simp: is_set_def members_of_def split: res.splits prod.splits)

lemma goes_readSet: "goes now (d, C) (readSet (map_kv T) now k) (set_entry (d k)) (d, insert k C)"
  unfolding readSet_def by (rule goes_read)

lemma goes_readSets:
  assumes "\<forall>k \<in> set ks. is_set (d k)"
  shows "goes now (d, C) (readSets (map_kv T) now ks sets) (Ok (sets @ map (\<lambda>k. members_of (d k)) ks)) (d, C \<union> set ks)"
  using assms
proof (induction ks arbitrary: C sets)
  case Nil
  show ?case using goes_return by simp
next
  case (Cons k ks)
  obtain x where x: "or_empty (set_entry (d k)) = Ok (members_of (d k), x)" using is_set_Ok Cons.prems by fastforce
  have "goes now (d, insert k C) (readSets (map_kv T) now ks (sets @ [members_of (d k)]))
      (Ok ((sets @ [members_of (d k)]) @ map (\<lambda>k. members_of (d k)) ks)) (d, insert k C \<union> set ks)"
    using Cons.prems by (intro Cons.IH) auto
  then show ?case
    unfolding readSets.simps by (intro goes_bind [OF goes_readSet]) (simp add: x)
qed

lemma goes_with_sets:
  assumes "\<forall>k \<in> set ks. is_set (d k)" "goes now (d, set ks) (f (map (\<lambda>k. members_of (d k)) ks)) r s'"
  shows "goes now (d, {}) (with_sets (map_kv T) now ks f) r s'"
  unfolding with_sets_def
  using goes_readSets [OF assms(1), of now "{}" T "[]"] assms(2) by (intro goes_bind) auto

subsection \<open>The algebra\<close>

lemma sortedMembers_set: "distinct s \<Longrightarrow> sortedMembers s = sorted_list_of_set (set s)"
  by (simp add: sortedMembers_def insertion_sort_eq_sort sorted_list_of_set_sort_remdups distinct_remdups_id)

lemma set_interSets: "sets \<noteq> [] \<Longrightarrow> set (interSets sets) = (\<Inter>s \<in> set sets. set s)"
  by (cases sets) (auto simp: interSets_def list_all_iff)

lemma set_diffSets: "sets \<noteq> [] \<Longrightarrow> set (diffSets sets) = set (hd sets) - (\<Union>s \<in> set (tl sets). set s)"
  by (auto simp: diffSets_def list_ex_iff)

lemma union_inner:
  "set (foldl (\<lambda>out m. if m \<in> set out then out else out @ [m]) out s) = set out \<union> set s"
  "distinct out \<Longrightarrow> distinct (foldl (\<lambda>out m. if m \<in> set out then out else out @ [m]) out s)"
  by (induction s arbitrary: out) auto

lemma set_unionSets: "set (unionSets sets) = (\<Union>s \<in> set sets. set s)" "distinct (unionSets sets)"
proof -
  let ?f = "\<lambda>out s. foldl (\<lambda>out m. if m \<in> set out then out else out @ [m]) out s"
  have "set (foldl ?f out sets) = set out \<union> (\<Union>s \<in> set sets. set s) \<and> (distinct out \<longrightarrow> distinct (foldl ?f out sets))" for out
    by (induction sets arbitrary: out) (auto simp: union_inner)
  then show "set (unionSets sets) = (\<Union>s \<in> set sets. set s)" "distinct (unionSets sets)" by (simp_all add: unionSets_def)
qed

lemma card_loop_count:
  assumes "0 \<le> limit" "limit = 0 \<or> n < limit"
  shows "card_loop others limit ms n =
    (let c = n + int (length (filter (\<lambda>m. list_all (\<lambda>s. m \<in> set s) others) ms)) in if limit = 0 then c else min limit c)"
  using assms by (induction ms arbitrary: n) (auto simp: Let_def min_def)

lemma smallest_bound: "best < length sets \<Longrightarrow> list_all (\<lambda>i. i < length sets) is \<Longrightarrow> smallest_from sets is best < length sets"
  by (induction "is" arbitrary: best) auto

lemma intercard_inter:
  assumes "sets \<noteq> []" "list_all distinct sets" "0 \<le> limit"
  shows "intercard sets limit = (let c = int (card (\<Inter>s \<in> set sets. set s)) in if limit = 0 then c else min limit c)"
proof -
  define s where "s = smallest_from sets [0..<length sets] 0"
  have s: "s < length sets" unfolding s_def using assms(1) by (intro smallest_bound) (auto simp: list_all_iff)
  let ?o = "take s sets @ drop (s + 1) sets"
  have S: "set sets = insert (sets ! s) (set ?o)" using s by (metis Un_insert_right id_take_nth_drop set_append set_simps(2) Suc_eq_plus1)
  have "set (filter (\<lambda>m. list_all (\<lambda>t. m \<in> set t) ?o) (sets ! s)) = (\<Inter>t \<in> set sets. set t)"
    unfolding S by (auto simp: list_all_iff)
  moreover have "distinct (sets ! s)" using assms(2) s by (simp add: list_all_length)
  ultimately have "length (filter (\<lambda>m. list_all (\<lambda>t. m \<in> set t) ?o) (sets ! s)) = card (\<Inter>t \<in> set sets. set t)"
    by (metis distinct_card distinct_filter)
  moreover have "limit = 0 \<or> 0 < limit" using assms(3) by linarith
  ultimately show ?thesis
    using card_loop_count [OF assms(3), of 0 ?o "sets ! s"]
    unfolding intercard_def s_def [symmetric] by (simp add: Let_def)
qed
lemma list_keys_bulks: "list_keys (map (\<lambda>k. BulkString (Some k)) ks) acc f = f (acc @ ks)"
  by (induction ks arbitrary: acc) (simp_all add: need_def bulk_def)

lemma set_op_goes:
  assumes "ks \<noteq> []" "\<forall>k \<in> set ks. is_set (d k)" "distinct (f (map (\<lambda>k. members_of (d k)) ks))"
  shows "goes now (d, {}) (set_op name f (map_kv T) now (map (\<lambda>k. BulkString (Some k)) ks))
    (Ok (toBulkArray (sorted_list_of_set (set (f (map (\<lambda>k. members_of (d k)) ks)))))) (d, set ks)"
proof -
  have "goes now (d, {}) (with_sets (map_kv T) now ks (\<lambda>sets. answer (toBulkArray (sortedMembers (f sets)))))
      (Ok (toBulkArray (sorted_list_of_set (set (f (map (\<lambda>k. members_of (d k)) ks)))))) (d, set ks)"
    using assms(2,3) by (intro goes_with_sets) (simp_all add: sortedMembers_set goes_answer)
  with assms(1) show ?thesis by (simp add: set_op_def setKeys_def list_keys_bulks Suc_le_eq)
qed

lemma goes_writeSet:
  assumes "key \<in> C" "x = 0 \<or> now < x" "int64_range x" "\<forall>e. d key = Some e \<longrightarrow> Type e = TypeSet"
  shows "goes now (d, C) (writeSet (map_kv T) key s x) (Ok ()) (d(key \<mapsto> set_cell s x), C)"
  using goes_kset [of key C d TypeSet x "EncodeSet s" now T] assms by (simp add: writeSet_def SetKey_def)

lemma is_set_type: "is_set old \<Longrightarrow> old = Some e \<Longrightarrow> Type e = TypeSet"
  by (auto simp: is_set_def or_empty_def typed_entry_def isNotFound_def split: if_splits)

lemma storeResult_goes:
  assumes "dst \<in> C" "is_set (d dst)"
  shows "goes now (d, C) (storeResult (map_kv T) dst r) (Ok (Integer (int (length r))))
    (d(dst := if r = [] then None else Some (set_cell r 0)), C)"
proof -
  have t: "\<forall>e. d dst = Some e \<longrightarrow> Type e = TypeSet" using is_set_type [OF assms(2)] by blast
  have del: "goes now (d, C) (kdel (map_kv T) (SetKey dst)) (Ok ()) (d(dst := None), C)"
    using goes_kdel [of dst C d TypeSet now T] assms(1) t by (simp add: SetKey_def)
  have w: "goes now (d, C) (writeSet (map_kv T) dst r 0) (Ok ()) (d(dst \<mapsto> set_cell r 0), C)"
    using goes_writeSet [of dst C 0 now d T r] assms(1) t by (simp add: int64_range_def)
  show ?thesis
  proof (cases "r = []")
    case True
    with goes_bind [OF del goes_answer] show ?thesis by (simp add: storeResult_def)
  next
    case False
    have "goes now (d, C) (storeResult (map_kv T) dst r) (Ok (Integer (int (length r)))) (d(dst \<mapsto> set_cell r 0), C)"
      unfolding storeResult_def if_not_P [OF False] by (rule goes_bind [OF w]) (simp add: goes_answer)
    with False show ?thesis by simp
  qed
qed

lemma store_notify_goes:
  assumes "is_set (d dst)"
  shows "goes now (d, C) (store_notify name (map_kv T) now dst r) (Ok (Integer (int (length r))))
    (d(dst := if r = [] then None else Some (set_cell r 0)), insert dst C)"
proof -
  have np: "set_entry (d dst) \<noteq> Panic" using assms by (auto simp: is_set_def or_empty_def)
  show ?thesis
    unfolding store_notify_def
    by (rule goes_bind [OF goes_readSet], simp only: np if_False, rule goes_bind [OF storeResult_goes])
      (use assms in \<open>auto simp del: notify_all.simps intro!: goes_note_all goes_return\<close>)
qed

lemma storeSetOp_goes:
  assumes "ks \<noteq> []" "\<forall>k \<in> set ks. is_set (d k)" "is_set (d dst)" "r = f (map (\<lambda>k. members_of (d k)) ks)"
  shows "goes now (d, {}) (storeSetOp name f (map_kv T) now (BulkString (Some dst) # map (\<lambda>k. BulkString (Some k)) ks))
    (Ok (Integer (int (length r)))) (d(dst := if r = [] then None else Some (set_cell r 0)), insert dst (set ks))"
proof -
  have "goes now (d, {}) (with_sets (map_kv T) now ks (\<lambda>sets. store_notify name (map_kv T) now dst (f sets)))
    (Ok (Integer (int (length r)))) (d(dst := if r = [] then None else Some (set_cell r 0)), insert dst (set ks))"
    using store_notify_goes [of d dst now "set ks" name T r] assms(3)
    by (intro goes_with_sets [OF assms(2)]) (simp only: assms(4) [symmetric])
  with assms(1) show ?thesis
    unfolding storeSetOp_def by (simp add: setKeys_def list_keys_bulks need_def bulk_def Suc_le_eq)
qed

lemma smove_goes:
  assumes "live_dict now d" "set_entry (d src) = Ok (s, x)" "m \<in> set s" "src \<noteq> dst" "or_empty (set_entry (d dst)) = Ok (t, y)"
  defines "rest \<equiv> remove1 m s" and "out \<equiv> (if m \<in> set t then t else t @ [m])"
  shows "goes now (d, {}) (smove_core (map_kv T) now src dst m) (Ok (Integer 1))
    (d(src := if rest = [] then None else Some (set_cell rest x), dst \<mapsto> set_cell out y), {src, dst})"
proof -
  let ?d1 = "d(src := if rest = [] then None else Some (set_cell rest x))" and ?C = "{dst, src}"
  obtain e where e: "d src = Some e" "Type e = TypeSet" "Expiry e = x" using assms(2) by (rule typed_entry_Ok)
  with assms(1) have x: "x = 0 \<or> now < x" "int64_range x" by (auto simp: live_dict_def)
  have td: "\<forall>e. d dst = Some e \<longrightarrow> Type e = TypeSet" and y: "y = 0 \<or> now < y" "int64_range y"
    using assms(1,5) by (auto simp: live_dict_def or_empty_def typed_entry_def isNotFound_def int64_range_def
        split: option.splits if_splits res.splits)
  have u: "goes now (d, ?C) (if rest = [] then kdel (map_kv T) (SetKey src) else writeSet (map_kv T) src rest x) (Ok ()) (?d1, ?C)"
    using goes_kdel [of src ?C d TypeSet now T] goes_writeSet [of src ?C x now d T rest] e x by (auto simp: SetKey_def)
  have w: "goes now (?d1, ?C) (writeSet (map_kv T) dst out y) (Ok ()) (?d1(dst \<mapsto> set_cell out y), ?C)"
    using goes_writeSet [of dst ?C y now ?d1 T out] td y assms(4) by simp
  have W: "goes now (d, ?C) (smove_write (map_kv T) src dst (rest, x) (out, y)) (Ok (Integer 1)) (?d1(dst \<mapsto> set_cell out y), ?C)"
    unfolding smove_write_def prod.case
    by (rule goes_bind [OF u], simp only: res.case, rule goes_bind [OF w], simp only: res.case, rule goes_note_all, rule goes_answer)
  have "goes now (d, {}) (smove_core (map_kv T) now src dst m) (Ok (Integer 1)) (?d1(dst \<mapsto> set_cell out y), ?C)"
    unfolding smove_core_def
    by (rule goes_bind [OF goes_readSet])
      (simp only: assms(2,3) res.case prod.case not_True_eq_False if_False if_not_P [OF assms(4)], rule goes_bind [OF goes_readSet],
       simp only: assms(5) res.case prod.case rest_def [symmetric] out_def [symmetric] W)
  then show ?thesis by (simp add: insert_commute)
qed

subsection \<open>The properties\<close>

text \<open>C34. The set operations. When every key holds a set or is absent, \<^verbatim>\<open>SINTER\<close>, \<^verbatim>\<open>SUNION\<close> and \<^verbatim>\<open>SDIFF\<close> reply with the sorted
  intersection, union and difference of the stored sets and change nothing. The \<^verbatim>\<open>STORE\<close> forms, onto a key that
  holds a set or is absent, reply with the size, store exactly that set without an expiry or delete the
  key when it is empty, and change no other key.\<close>

theorem set_algebra:
  assumes "kv_store K view live" "live (store w)" "wf_store (view (store w))" "d = dict (view (store w)) now"
    and "ks \<noteq> []" "\<forall>k \<in> set ks. is_set (d k)" "is_set (d dst)"
    and "(name, f, R) \<in> {(''sinter'', interSets, \<Inter>k \<in> set ks. set (members_of (d k))),
                          (''sunion'', unionSets, \<Union>k \<in> set ks. set (members_of (d k))),
                          (''sdiff'', diffSets, set (members_of (d (hd ks))) - (\<Union>k \<in> set (tl ks). set (members_of (d k))))}"
    and "run_state (set_op name f K now (map (\<lambda>k. BulkString (Some k)) ks)) w = (r, w')"
    and "run_state (storeSetOp (name @ ''store'') f K now (BulkString (Some dst) # map (\<lambda>k. BulkString (Some k)) ks)) w = (r'', w'')"
  shows "r = Ok (toBulkArray (sorted_list_of_set R)) \<and> dict (view (store w')) now = d
    \<and> r'' = Ok (Integer (int (card R)))
    \<and> dict (view (store w'')) now = d(dst := if R = {} then None else Some (set_cell (sorted_list_of_set R) 0))
    \<and> wf_store (view (store w''))"
proof -
  let ?ss = "map (\<lambda>k. members_of (d k)) ks"
  have ne: "?ss \<noteq> []" using assms(5) by simp
  have R: "set (f ?ss) = R \<and> distinct (f ?ss)"
    using assms(8) set_interSets [OF ne] set_unionSets [of ?ss] set_diffSets [OF ne] members_distinct assms(5)
    by (auto simp: interSets_def diffSets_def hd_map map_tl [symmetric])
  note g = set_op_goes [where f = f and ks = ks and d = d and now = now and name = name and T = "kvText K", OF assms(5,6) R [THEN conjunct2]]
  note h = storeSetOp_goes [OF assms(5-7) refl, of now "name @ ''store''" f "kvText K"]
  have len: "length (f ?ss) = card R" using R distinct_card by metis
  have enc: "EncodeSet (f ?ss) = EncodeSet (sorted_list_of_set R)" using R by (intro EncodeSet_cong) auto
  have e: "f ?ss = [] \<longleftrightarrow> R = {}" using R by auto
  show ?thesis
    using goes_transfer [OF assms(1) kv_store.sim_set_op [OF assms(1)] g [unfolded assms(4)] assms(2,3,9)] R
      goes_transfer [OF assms(1) kv_store.sim_storeSetOp [OF assms(1)] h [unfolded assms(4)] assms(2,3,10)]
    by (simp add: len enc e assms(4) [symmetric])
qed
lemma set_dec_one: "set_dec (EncodeSet [''a'']) = Ok [''a'']"
proof -
  obtain s enc where s: "DecodeSet (EncodeSet [''a'']) = Ok (s, enc)" "set s = {''a''}" "distinct s"
    using DecodeSet_EncodeSet [of "[''a'']" "[]"] by (auto simp: go_set_def go_str_def)
  then have "s = [''a'']" by (cases s) (auto simp: distinct_singleton, metis distinct.simps(2) insert_iff list.exhaust list.set_intros(1) singletonD subset_iff)
  with s show ?thesis by (simp add: set_dec_def)
qed

theorem set_algebra_witness:
  "fst (run_state (sunion (pebble_kv memdb quiet_env) 1 [BulkString (Some ''k''), BulkString (Some ''m'')]) (one_world TypeSet ''k'' (EncodeSet [''a''])))
    = Ok (toBulkArray [''a''])"
proof -
  let ?w = "one_world TypeSet ''k'' (EncodeSet [''a''])" and ?K = "pebble_kv memdb quiet_env"
  let ?a = "map (\<lambda>k. BulkString (Some k)) [''k'', ''m'']"
  have d: "dict [''st:k'' \<mapsto> Encode TypeSet 0 (EncodeSet [''a''])] 1 = [''k'' \<mapsto> set_cell [''a''] 0]"
    and wf: "wf_store [''st:k'' \<mapsto> Encode TypeSet 0 (EncodeSet [''a''])]"
    using one_dict [of TypeSet "''k''" "EncodeSet [''a'']"] by simp_all
  have k: "is_set (Some (set_cell [''a''] 0))" "members_of (Some (set_cell [''a''] 0)) = [''a'']" "is_set None" "members_of None = []"
    by (simp_all add: is_set_def members_of_def or_empty_def typed_entry_def set_dec_one isNotFound_def)
  show ?thesis
    using set_algebra [OF memdb.kv_store_axioms, of ?w _ 1 "[''k'', ''m'']" "''n''" "''sunion''" unionSets "{''a''}"
        "fst (run_state (set_op ''sunion'' unionSets ?K 1 ?a) ?w)" "snd (run_state (set_op ''sunion'' unionSets ?K 1 ?a) ?w)"
        "fst (run_state (storeSetOp (''sunion'' @ ''store'') unionSets ?K 1 (BulkString (Some ''n'') # ?a)) ?w)"
        "snd (run_state (storeSetOp (''sunion'' @ ''store'') unionSets ?K 1 (BulkString (Some ''n'') # ?a)) ?w)", OF _ _ refl]
      wf k by (simp add: d sunion_def one_world_def New_def)
qed

text \<open>\<^verbatim>\<open>SUNIONSTORE\<close> and its siblings do not look at the type of the target: over a key of another type they leave two
  cells.\<close>

lemma store_second_type:
  assumes "wf_store (store w)" "dict (store w) now dst = Some e" "Type e \<noteq> TypeSet" "r \<noteq> []"
  shows "\<not> wf_store (store (snd (run_state (storeResult (map_kv T) dst r) w)))"
proof -
  obtain raw where L: "lookup (store w) now dst = Ok (raw, e)" using dict_lookup [OF assms(2)] by blast
  from lookup_Ok [OF L] obtain p u where p: "p \<in> set typePrefixes" "store w (p @ dst) = Some u" "Decode u = Ok e" by auto
  have ne: "p \<noteq> ''st:''" using wf_cell [OF assms(1) p(1,2)] p(3) assms(3) by (auto simp: prefix_tags_def)
  let ?m = "store (snd (run_state (storeResult (map_kv T) dst r) w))"
  have m: "?m = (store w)(''st:'' @ dst \<mapsto> Encode TypeSet 0 (EncodeSet r))"
    using assms(4) by (simp add: storeResult_def writeSet_def SetKey_def runs)
  have "?m (''st:'' @ dst) \<noteq> None" "?m (p @ dst) \<noteq> None" unfolding m using p(2) by auto
  then show ?thesis using wf_other [of ?m "''st:''" dst p] ne p(1) by auto
qed

text \<open>What \<^verbatim>\<open>SPOP\<close> draws: distinct members, as many as asked for and there are.\<close>

lemma drawn_members:
  assumes "mset (perm (length xs)) = mset [0..<length xs]" "distinct xs" "0 \<le> cnt"
  shows "distinct (drawn perm cnt xs) \<and> set (drawn perm cnt xs) \<subseteq> set xs \<and> length (drawn perm cnt xs) = min (nat cnt) (length xs)"
proof -
  let ?p = "perm (length xs)" and ?n = "if int (length xs) < cnt then length xs else nat cnt"
  have l: "length ?p = length xs" using assms(1) by (metis length_upt diff_zero mset_eq_length)
  have p: "set ?p = {..<length xs}" "distinct ?p"
    using assms(1) by (metis atLeast_upt set_mset_mset, metis distinct_upt mset_eq_imp_distinct_iff)
  have n: "?n = min (nat cnt) (length xs)" by auto
  have D: "drawn perm cnt xs = map ((!) xs) (take ?n ?p)"
    by (simp add: drawn_def Let_def n l list_eq_iff_nth_eq)
  have t: "set (take ?n ?p) \<subseteq> {..<length xs}" using set_take_subset [of ?n ?p] p(1) by blast
  have "inj_on ((!) xs) (set (take ?n ?p))" using t assms(2) by (intro inj_on_nth) auto
  then have "distinct (drawn perm cnt xs)" unfolding D distinct_map using p(2) by (simp add: distinct_take)
  moreover have "set (drawn perm cnt xs) \<subseteq> set xs" unfolding D using t by auto
  moreover have "length (drawn perm cnt xs) = min (nat cnt) (length xs)" unfolding D by (simp add: l n min_def)
  ultimately show ?thesis by simp
qed
end
