(* ===== verification/Hashes.thy ===== *)
theory Hashes
  imports Sets
begin

text \<open>
  The hash commands of \<^verbatim>\<open>internal/commands\<close>: \<^verbatim>\<open>hash.go\<close>, \<^verbatim>\<open>hash_multi.go\<close>, \<^verbatim>\<open>hash_incr.go\<close> and \<^verbatim>\<open>hash_expire.go\<close>. The expiry of single
  fields is kept in a second cell, the sidecar, under \<^verbatim>\<open>HashExpKey\<close>; \<^verbatim>\<open>readHash\<close> drops the fields whose time has passed.
  A \<^verbatim>\<open>map[string]string\<close> is an association list with distinct keys.
\<close>

type_synonym hmap = "(bytes \<times> bytes) list"

subsection \<open>Reading and writing\<close>

definition hash_dec :: "bytes \<Rightarrow> (ds_error, hmap) res" where
  "hash_dec raw = bind_res (DecodeHash raw) (\<lambda>(m, _). Ok m)"

definition readFieldExp :: "'s kv \<Rightarrow> string \<Rightarrow> ('s world, (unit, hmap) res) state" where
  "readFieldExp K key = do {
     r \<leftarrow> kget K (HashExpKey key);
     State_Monad.return (case r of
        Panic \<Rightarrow> Panic
      | Err _ \<Rightarrow> Ok []
      | Ok raw \<Rightarrow>
          (case Decode raw of
             Ok e \<Rightarrow> (case hash_dec (Payload e) of Ok m \<Rightarrow> Ok m | Err _ \<Rightarrow> Ok [] | Panic \<Rightarrow> Panic)
           | Err _ \<Rightarrow> Ok []
           | Panic \<Rightarrow> Panic))
   }"

definition writeFieldExp :: "'s kv \<Rightarrow> string \<Rightarrow> hmap \<Rightarrow> ('s world, (storage_error, unit) res) state" where
  "writeFieldExp K key ex =
     (if ex = [] then kdel K (HashExpKey key) else kset K (HashExpKey key) (Encode TypeHash 0 (EncodeHash ex)))"

definition writeHash :: "'s kv \<Rightarrow> string \<Rightarrow> hmap \<Rightarrow> int \<Rightarrow> ('s world, (storage_error, unit) res) state" where
  "writeHash K key m expiry = kset K (HashKey key) (Encode TypeHash expiry (EncodeHash m))"

text \<open>A field whose entry in the sidecar is not a number, or has passed.\<close>

definition field_dead :: "int \<Rightarrow> bytes \<Rightarrow> bool" where
  "field_dead now ts = (case ParseInt ts of None \<Rightarrow> True | Some nano \<Rightarrow> nano \<le> now)"

definition drop_dead :: "int \<Rightarrow> hmap \<Rightarrow> hmap \<Rightarrow> hmap \<times> hmap" where
  "drop_dead now ex m =
     (filter (\<lambda>(f, _). \<not> (\<exists>ts. map_of ex f = Some ts \<and> field_dead now ts)) m, filter (\<lambda>(_, ts). \<not> field_dead now ts) ex)"

definition purge_fields :: "'s kv \<Rightarrow> int \<Rightarrow> string \<Rightarrow> hmap \<Rightarrow> int \<Rightarrow> hmap \<Rightarrow> ('s world, (cmd_error, hmap \<times> int) res) state" where
  "purge_fields K now key m expiry ex =
     (case drop_dead now ex m of (m', ex') \<Rightarrow>
        if list_ex (\<lambda>(_, ts). field_dead now ts) ex then do {
          u \<leftarrow> writeHash K key m' expiry;
          (case u of
             Err e \<Rightarrow> State_Monad.return (Err (Stored e))
           | Panic \<Rightarrow> State_Monad.return Panic
           | Ok _ \<Rightarrow> do {
               v \<leftarrow> writeFieldExp K key ex';
               (case v of
                  Err e \<Rightarrow> State_Monad.return (Err (Stored e))
                | Panic \<Rightarrow> State_Monad.return Panic
                | Ok _ \<Rightarrow> do { notify ''h'' ''hexpired'' key; State_Monad.return (Ok (m', expiry)) })
             })
        }
        else State_Monad.return (Ok (m, expiry)))"

definition readHash :: "'s kv \<Rightarrow> int \<Rightarrow> string \<Rightarrow> ('s world, (cmd_error, hmap \<times> int) res) state" where
  "readHash K now key = do {
     r \<leftarrow> typed_read TypeHash hash_dec K now key;
     (case r of
        Err e \<Rightarrow> State_Monad.return (Err e)
      | Panic \<Rightarrow> State_Monad.return Panic
      | Ok (m, expiry) \<Rightarrow> do {
          x \<leftarrow> readFieldExp K key;
          (case x of Ok ex \<Rightarrow> purge_fields K now key m expiry ex | _ \<Rightarrow> State_Monad.return Panic)
        })
   }"

definition hash_cmd :: "'s kv \<Rightarrow> int \<Rightarrow> hmap parsed \<Rightarrow> 's handler" where
  "hash_cmd K now = step_cmd K (readHash K now)"

abbreviation keep_hash :: "hmap \<Rightarrow> int \<Rightarrow> action" where
  "keep_hash m expiry \<equiv> Write TypeHash expiry (EncodeHash m)"

abbreviation or_new :: "(hmap \<times> int) option \<Rightarrow> hmap \<times> int" where
  "or_new old \<equiv> (case old of None \<Rightarrow> ([], 0) | Some x \<Rightarrow> x)"

subsection \<open>\<^verbatim>\<open>hash.go\<close>\<close>

text \<open>The pairs of \<^verbatim>\<open>HSET\<close> and \<^verbatim>\<open>HMSET\<close>; their number was checked before.\<close>

fun hset_loop :: "RVal list \<Rightarrow> hmap \<Rightarrow> int \<Rightarrow> string + hmap \<times> int" where
  "hset_loop (a # b # as) m added =
     (case argString a of
        None \<Rightarrow> Inl ''ERR invalid field''
      | Some f \<Rightarrow>
          (case argString b of
             None \<Rightarrow> Inl ''ERR invalid value''
           | Some v \<Rightarrow> hset_loop as (AList.update f v m) (if f \<in> set (keys_of m) then added else added + 1)))"
| "hset_loop _ m added = Inr (m, added)"

definition hset_step :: "RVal list \<Rightarrow> (int \<Rightarrow> RVal) \<Rightarrow> string \<Rightarrow> hmap step" where
  "hset_step pairs v key old =
     (case or_new old of (m, expiry) \<Rightarrow>
        (case hset_loop pairs m 0 of
           Inl msg \<Rightarrow> (Ok (RError msg), Keep, [])
         | Inr (m', added) \<Rightarrow> (Ok (v added), keep_hash m' expiry, [(''h'', ''hset'', key)])))"

definition hset :: "RVal list \<Rightarrow> hmap parsed" where
  "hset args =
     (if length args < 3 \<or> length args mod 2 = 0 then refuse (wrongargs ''hset'')
      else need_key (args ! 0) (\<lambda>key. Inr (key, hset_step (tl args) Integer key)))"

abbreviation need_field :: "RVal \<Rightarrow> (string \<Rightarrow> reply + 'b) \<Rightarrow> reply + 'b" where
  "need_field \<equiv> need ''ERR invalid field''"

definition bulk_or_nil :: "bytes option \<Rightarrow> RVal" where
  "bulk_or_nil v = (case v of None \<Rightarrow> NilBulk | Some s \<Rightarrow> BulkOf s)"

definition hget :: "RVal list \<Rightarrow> hmap parsed" where
  "hget args =
     (if length args \<noteq> 2 then refuse (wrongargs ''hget'')
      else need_key (args ! 0) (\<lambda>key. need_field (args ! 1) (\<lambda>f.
        Inr (key, look NilBulk (\<lambda>m. bulk_or_nil (map_of m f))))))"

fun hdel_loop :: "RVal list \<Rightarrow> hmap \<Rightarrow> int \<Rightarrow> hmap \<Rightarrow> bool \<Rightarrow> (hmap \<times> int) \<times> (hmap \<times> bool)" where
  "hdel_loop [] m deleted ex dirty = ((m, deleted), (ex, dirty))"
| "hdel_loop (a # as) m deleted ex dirty =
     (case argString a of
        None \<Rightarrow> hdel_loop as m deleted ex dirty
      | Some f \<Rightarrow>
          hdel_loop as (AList.delete f m) (if f \<in> set (keys_of m) then deleted + 1 else deleted)
            (AList.delete f ex) (dirty \<or> f \<in> set (keys_of ex)))"

definition hdel_write :: "'s kv \<Rightarrow> string \<Rightarrow> int \<Rightarrow> (hmap \<times> int) \<times> (hmap \<times> bool) \<Rightarrow> 's handler" where
  "hdel_write K key expiry outcome =
     (case outcome of ((m, deleted), (ex, dirty)) \<Rightarrow> do {
        u \<leftarrow> (if m = [] \<and> 0 < deleted then kdel K (HashKey key) else writeHash K key m expiry);
        (case u of
           Err e \<Rightarrow> answer (errValue K (Stored e))
         | Panic \<Rightarrow> crash
         | Ok _ \<Rightarrow> do {
             v \<leftarrow> (if dirty then writeFieldExp K key ex else State_Monad.return (Ok ()));
             (case v of
                Err e \<Rightarrow> answer (errValue K (Stored e))
              | Panic \<Rightarrow> crash
              | Ok _ \<Rightarrow>
                  notify_all (if 0 < deleted then (''h'', ''hdel'', key) # (if m = [] then [(''g'', ''del'', key)] else []) else [])
                    (answer (Integer deleted)))
           })
      })"

definition hdel :: "'s kv \<Rightarrow> int \<Rightarrow> RVal list \<Rightarrow> 's handler" where
  "hdel K now args =
     (if length args < 2 then fail (wrongargs ''hdel'')
      else case argString (args ! 0) of
        None \<Rightarrow> fail ''ERR invalid key''
      | Some key \<Rightarrow> do {
          r \<leftarrow> readHash K now key;
          (case r of
             Err e \<Rightarrow> missing K (Integer 0) e
           | Panic \<Rightarrow> crash
           | Ok (m, expiry) \<Rightarrow> do {
               x \<leftarrow> readFieldExp K key;
               (case x of
                  Ok ex \<Rightarrow> hdel_write K key expiry (hdel_loop (tl args) m 0 ex False)
                | _ \<Rightarrow> crash)
             })
        })"

definition hsetnx_step :: "string \<Rightarrow> string \<Rightarrow> string \<Rightarrow> hmap step" where
  "hsetnx_step f v key old =
     (case or_new old of (m, expiry) \<Rightarrow>
        if f \<in> set (keys_of m) then (Ok (Integer 0), Keep, [])
        else (Ok (Integer 1), keep_hash (AList.update f v m) expiry, [(''h'', ''hset'', key)]))"

definition hsetnx :: "RVal list \<Rightarrow> hmap parsed" where
  "hsetnx args =
     (if length args \<noteq> 3 then refuse (wrongargs ''hsetnx'')
      else need_key (args ! 0) (\<lambda>key. need_field (args ! 1) (\<lambda>f. need ''ERR invalid value'' (args ! 2) (\<lambda>v.
        Inr (key, hsetnx_step f v key)))))"

definition hexists :: "RVal list \<Rightarrow> hmap parsed" where
  "hexists args =
     (if length args \<noteq> 2 then refuse (wrongargs ''hexists'')
      else need_key (args ! 0) (\<lambda>key. need_field (args ! 1) (\<lambda>f.
        Inr (key, look (Integer 0) (\<lambda>m. Integer (if f \<in> set (keys_of m) then 1 else 0))))))"

definition hlen :: "RVal list \<Rightarrow> hmap parsed" where
  "hlen args =
     (if length args \<noteq> 1 then refuse (wrongargs ''hlen'')
      else need_key (args ! 0) (\<lambda>key. Inr (key, look (Integer 0) (\<lambda>m. Integer (int (length m))))))"

definition hstrlen :: "RVal list \<Rightarrow> hmap parsed" where
  "hstrlen args =
     (if length args \<noteq> 2 then refuse (wrongargs ''hstrlen'')
      else need_key (args ! 0) (\<lambda>key. need_field (args ! 1) (\<lambda>f.
        Inr (key, look (Integer 0) (\<lambda>m. Integer (int (length (getd [] m f))))))))"

subsection \<open>\<^verbatim>\<open>hash_multi.go\<close>\<close>

definition sortedHashFields :: "hmap \<Rightarrow> bytes list" where
  "sortedHashFields m = insertion_sort (<) (keys_of m)"

definition hrandfieldElem :: "hmap \<Rightarrow> bytes \<Rightarrow> bool \<Rightarrow> RVal" where
  "hrandfieldElem m f withValues = (if \<not> withValues then BulkOf f else Array (Some [BulkOf f, BulkOf (getd [] m f)]))"

text \<open>The iteration order over the map is arbitrary and so is the random source; the order of the list stands for
  both.\<close>

definition hrand_reply :: "(nat \<Rightarrow> nat list) \<Rightarrow> (nat \<Rightarrow> nat \<Rightarrow> nat) \<Rightarrow> RVal list \<Rightarrow> hmap \<Rightarrow> reply" where
  "hrand_reply perm intn args m =
     (let hfields = keys_of m; n = length m in
      case (if 2 \<le> length args
            then need_int (args ! 1) (\<lambda>c.
              if length args = 3 then
                need ''ERR syntax error'' (args ! 2) (\<lambda>w.
                  if \<not> EqualFold w ''WITHVALUES'' then refuse ''ERR syntax error'' else Inr (Some (c, True)))
              else Inr (Some (c, False)))
            else Inr None) of
        Inl r \<Rightarrow> r
      | Inr None \<Rightarrow> if hfields = [] then Ok NilBulk else Ok (BulkOf (hfields ! intn 0 n))
      | Inr (Some (c, withValues)) \<Rightarrow>
          if 0 \<le> c then
            Ok (Array (Some (map (\<lambda>i. hrandfieldElem m (hfields ! i) withValues) (take (if int n < c then n else nat c) (perm n)))))
          else if 0 < wrap64 (- c) \<and> hfields = [] then Panic
          else Ok (Array (Some (map (\<lambda>i. hrandfieldElem m (hfields ! intn i n) withValues) [0..<nat (wrap64 (- c))]))))"

definition hrandfield :: "(nat \<Rightarrow> nat list) \<Rightarrow> (nat \<Rightarrow> nat \<Rightarrow> nat) \<Rightarrow> RVal list \<Rightarrow> hmap parsed" where
  "hrandfield perm intn args =
     (if length args < 1 \<or> 3 < length args then refuse (wrongargs ''hrandfield'')
      else need_key (args ! 0) (\<lambda>key. Inr (key, \<lambda>old.
        case old of
          None \<Rightarrow> (Ok (if length args = 1 then NilBulk else Array (Some [])), Keep, [])
        | Some (m, _) \<Rightarrow> (hrand_reply perm intn args m, Keep, []))))"

definition hmset :: "RVal list \<Rightarrow> hmap parsed" where
  "hmset args =
     (if length args < 3 \<or> length args mod 2 = 0 then refuse (wrongargs ''hmset'')
      else need_key (args ! 0) (\<lambda>key. Inr (key, hset_step (tl args) (\<lambda>_. SimpleString ''OK'') key)))"

fun hmget_loop :: "RVal list \<Rightarrow> hmap \<Rightarrow> RVal list \<Rightarrow> RVal list option" where
  "hmget_loop [] m out = Some out"
| "hmget_loop (a # as) m out =
     (case argString a of None \<Rightarrow> None | Some f \<Rightarrow> hmget_loop as m (out @ [bulk_or_nil (map_of m f)]))"

definition hmget_reply :: "RVal list \<Rightarrow> hmap \<Rightarrow> RVal" where
  "hmget_reply as m = (case hmget_loop as m [] of None \<Rightarrow> RError ''ERR invalid field'' | Some out \<Rightarrow> Array (Some out))"

definition hmget :: "RVal list \<Rightarrow> hmap parsed" where
  "hmget args =
     (if length args < 2 then refuse (wrongargs ''hmget'')
      else need_key (args ! 0) (\<lambda>key. Inr (key, look (hmget_reply (tl args) []) (hmget_reply (tl args)))))"

definition hash_list :: "string \<Rightarrow> (hmap \<Rightarrow> bytes \<Rightarrow> RVal list) \<Rightarrow> RVal list \<Rightarrow> hmap parsed" where
  "hash_list name emit args =
     (if length args \<noteq> 1 then refuse (wrongargs name)
      else need_key (args ! 0) (\<lambda>key. Inr (key, look (Array (Some []))
        (\<lambda>m. Array (Some (concat (map (emit m) (sortedHashFields m))))))))"

definition hgetall :: "RVal list \<Rightarrow> hmap parsed" where
  "hgetall = hash_list ''hgetall'' (\<lambda>m f. [BulkOf f, BulkOf (getd [] m f)])"

definition hkeys :: "RVal list \<Rightarrow> hmap parsed" where
  "hkeys = hash_list ''hkeys'' (\<lambda>m f. [BulkOf f])"

definition hvals :: "RVal list \<Rightarrow> hmap parsed" where
  "hvals = hash_list ''hvals'' (\<lambda>m f. [BulkOf (getd [] m f)])"

definition hscan :: "RVal list \<Rightarrow> hmap parsed" where
  "hscan args =
     (if length args < 2 then refuse (wrongargs ''hscan'')
      else need_key (args ! 0) (\<lambda>key. scan_cursor (args ! 1) (\<lambda>cursor.
        case scan_parse True False (drop 2 args) scan_default of
          Inl r \<Rightarrow> Inl r
        | Inr opts \<Rightarrow> Inr (key, \<lambda>old.
            (case old of
               None \<Rightarrow> Ok (scan_reply 0 [])
             | Some (m, _) \<Rightarrow>
                 scan_answer cursor (sc_count opts) (filter (path_ok (sc_match opts)) (sortedHashFields m))
                   (\<lambda>f. if sc_novalues opts then [BulkOf f] else [BulkOf f, BulkOf (getd [] m f)]),
             Keep, [])))))"

subsection \<open>\<^verbatim>\<open>hash_incr.go\<close>\<close>

definition hincrby_step :: "string \<Rightarrow> int \<Rightarrow> string \<Rightarrow> hmap step" where
  "hincrby_step f delta key old =
     (case or_new old of (m, expiry) \<Rightarrow>
        (case (case map_of m f of None \<Rightarrow> Some 0 | Some v \<Rightarrow> ParseInt v) of
           None \<Rightarrow> (Ok (RError ''ERR hash value is not an integer''), Keep, [])
         | Some cur \<Rightarrow>
             if incr_overflows cur delta then (Ok (RError ''ERR increment or decrement would overflow''), Keep, [])
             else
               (let new = wrap64 (cur + delta) in
                (Ok (Integer new), keep_hash (AList.update f (FormatInt new) m) expiry, [(''h'', ''hincrby'', key)]))))"

definition hincrby :: "RVal list \<Rightarrow> hmap parsed" where
  "hincrby args =
     (if length args \<noteq> 3 then refuse (wrongargs ''hincrby'')
      else need_key (args ! 0) (\<lambda>key. need_field (args ! 1) (\<lambda>f. need_int (args ! 2) (\<lambda>delta.
        Inr (key, hincrby_step f delta key)))))"

definition hincrbyfloat_step ::
  "string \<Rightarrow> float64 \<Rightarrow> string \<Rightarrow> hmap step" where
  "hincrbyfloat_step f delta key old =
     (case or_new old of (m, expiry) \<Rightarrow>
        (case (case map_of m f of None \<Rightarrow> Some 0 | Some v \<Rightarrow> ParseFloat v) of
           None \<Rightarrow> (Ok (RError ''ERR hash value is not a valid float''), Keep, [])
         | Some cur \<Rightarrow>
             (let out = FormatFloat fmtF (f64_add cur delta) in
              (Ok (BulkString (Some out)), keep_hash (AList.update f out m) expiry, [(''h'', ''hincrbyfloat'', key)]))))"

definition hincrbyfloat ::
  "RVal list \<Rightarrow> hmap parsed" where
  "hincrbyfloat args =
     (if length args \<noteq> 3 then refuse (wrongargs ''hincrbyfloat'')
      else need_key (args ! 0) (\<lambda>key. need_field (args ! 1) (\<lambda>f. need ''ERR value is not a valid float'' (args ! 2) (\<lambda>s.
        case ParseFloat s of
          None \<Rightarrow> refuse ''ERR value is not a valid float''
        | Some delta \<Rightarrow> Inr (key, hincrbyfloat_step f delta key)))))"

subsection \<open>\<^verbatim>\<open>hash_expire.go\<close>\<close>

datatype hexpireCond = hexpireNone | hexpireNX | hexpireXX | hexpireGT | hexpireLT

definition hexpire_cond :: "RVal \<Rightarrow> hexpireCond" where
  "hexpire_cond a =
     (case argString a of
        None \<Rightarrow> hexpireNone
      | Some s \<Rightarrow>
          (let name = ToUpper s in
           if name = ''NX'' then hexpireNX else if name = ''XX'' then hexpireXX
           else if name = ''GT'' then hexpireGT else if name = ''LT'' then hexpireLT else hexpireNone))"

text \<open>\<^verbatim>\<open>FIELDS n field ...\<close> from index \<open>idx\<close> on.\<close>

definition fields_args :: "nat \<Rightarrow> RVal list \<Rightarrow> (RVal list \<Rightarrow> reply + 'b) \<Rightarrow> reply + 'b" where
  "fields_args idx args k =
     (if length args \<le> idx then refuse ''ERR syntax error''
      else need ''ERR syntax error'' (args ! idx) (\<lambda>kw.
        if ToUpper kw \<noteq> ''FIELDS'' then refuse ''ERR syntax error''
        else if length args \<le> idx + 1 then refuse ''ERR syntax error''
        else need ''ERR syntax error'' (args ! (idx + 1)) (\<lambda>c. case ParseInt c of
          None \<Rightarrow> refuse ''ERR syntax error''
        | Some n \<Rightarrow>
            if n \<le> 0 \<or> int idx + 2 + n \<noteq> int (length args) then refuse ''ERR syntax error''
            else k (drop (idx + 2) args))))"

fun hcond_holds :: "hexpireCond \<Rightarrow> int \<Rightarrow> int option \<Rightarrow> bool" where
  "hcond_holds hexpireNone x cur = True"
| "hcond_holds hexpireNX x cur = (cur = None)"
| "hcond_holds hexpireXX x cur = (cur \<noteq> None)"
| "hcond_holds hexpireGT x cur = (case cur of None \<Rightarrow> False | Some c \<Rightarrow> c < x)"
| "hcond_holds hexpireLT x cur = (case cur of None \<Rightarrow> True | Some c \<Rightarrow> x < c)"

record hexpire_state =
  hx_map :: hmap
  hx_side :: hmap
  hx_out :: "RVal list"
  hx_dirtyMain :: bool
  hx_dirtyExp :: bool

definition hexpire_field :: "hexpireCond \<Rightarrow> int \<Rightarrow> int \<Rightarrow> bytes \<Rightarrow> hexpire_state \<Rightarrow> hexpire_state" where
  "hexpire_field cond x now f s =
     (if f \<notin> set (keys_of (hx_map s)) then s\<lparr> hx_out := hx_out s @ [Integer (-2)] \<rparr>
      else if \<not> hcond_holds cond x (map_option (\<lambda>ts. case ParseInt ts of None \<Rightarrow> 0 | Some c \<Rightarrow> c) (map_of (hx_side s) f))
      then s\<lparr> hx_out := hx_out s @ [Integer 0] \<rparr>
      else if x \<le> now then
        s\<lparr> hx_map := AList.delete f (hx_map s), hx_side := AList.delete f (hx_side s), hx_out := hx_out s @ [Integer 1],
           hx_dirtyMain := True, hx_dirtyExp := True \<rparr>
      else s\<lparr> hx_side := AList.update f (FormatInt x) (hx_side s), hx_out := hx_out s @ [Integer 1], hx_dirtyExp := True \<rparr>)"

fun hexpire_loop :: "hexpireCond \<Rightarrow> int \<Rightarrow> int \<Rightarrow> RVal list \<Rightarrow> hexpire_state \<Rightarrow> hexpire_state option" where
  "hexpire_loop cond x now [] s = Some s"
| "hexpire_loop cond x now (a # as) s =
     (case argString a of None \<Rightarrow> None | Some f \<Rightarrow> hexpire_loop cond x now as (hexpire_field cond x now f s))"

definition write_if :: "bool \<Rightarrow> ('s world, (storage_error, unit) res) state \<Rightarrow> ('s world, (storage_error, unit) res) state" where
  "write_if c m = (if c then m else State_Monad.return (Ok ()))"

definition hexpire_write :: "'s kv \<Rightarrow> string \<Rightarrow> int \<Rightarrow> hexpire_state \<Rightarrow> 's handler" where
  "hexpire_write K key expiry s = do {
     u \<leftarrow> write_if (hx_dirtyMain s) (writeHash K key (hx_map s) expiry);
     (case u of
        Err e \<Rightarrow> answer (errValue K (Stored e))
      | Panic \<Rightarrow> crash
      | Ok _ \<Rightarrow> do {
          v \<leftarrow> write_if (hx_dirtyExp s) (writeFieldExp K key (hx_side s));
          (case v of
             Err e \<Rightarrow> answer (errValue K (Stored e))
           | Panic \<Rightarrow> crash
           | Ok _ \<Rightarrow> do { notify ''h'' ''hexpired'' key; answer (Array (Some (hx_out s))) })
        })
   }"

text \<open>A command on the fields of a hash and its sidecar; \<open>missing\<close> replies -2 for every field.\<close>

definition httlMissing :: "nat \<Rightarrow> RVal" where
  "httlMissing n = Array (Some (replicate n (Integer (-2))))"

definition with_side :: "'s kv \<Rightarrow> int \<Rightarrow> string \<Rightarrow> nat \<Rightarrow> (hmap \<times> int \<times> hmap \<Rightarrow> 's handler) \<Rightarrow> 's handler" where
  "with_side K now key n f = do {
     r \<leftarrow> readHash K now key;
     (case r of
        Err e \<Rightarrow> missing K (httlMissing n) e
      | Panic \<Rightarrow> crash
      | Ok (m, expiry) \<Rightarrow> do {
          x \<leftarrow> readFieldExp K key;
          (case x of Ok ex \<Rightarrow> f (m, expiry, ex) | _ \<Rightarrow> crash)
        })
   }"

definition hexpire :: "expireKind \<Rightarrow> 's kv \<Rightarrow> int \<Rightarrow> RVal list \<Rightarrow> 's handler" where
  "hexpire kind K now args =
     (if length args < 4 then fail (wrongargs ''hexpire'')
      else case need_key (args ! 0) (\<lambda>key. need_int (args ! 1) (\<lambda>n.
             fields_args (if hexpire_cond (args ! 2) = hexpireNone then 2 else 3) args (\<lambda>fs. Inr (key, n, fs)))) of
        Inl r \<Rightarrow> State_Monad.return r
      | Inr (key, n, fs) \<Rightarrow>
          with_side K now key (length fs) (\<lambda>(m, expiry, ex).
            case hexpire_loop (hexpire_cond (args ! 2)) (expire_at now kind n) now fs
                \<lparr> hx_map = m, hx_side = ex, hx_out = [], hx_dirtyMain = False, hx_dirtyExp = False \<rparr> of
              None \<Rightarrow> fail ''ERR invalid field''
            | Some s \<Rightarrow> hexpire_write K key expiry s))"

definition httlFields :: "RVal list \<Rightarrow> reply + (string \<times> string list)" where
  "httlFields args =
     (if length args < 2 then refuse ''ERR wrong number of arguments''
      else need_key (args ! 0) (\<lambda>key.
        let names = (\<lambda>as. case those (map argString as) of None \<Rightarrow> refuse ''ERR invalid field'' | Some fs \<Rightarrow> Inr (key, fs)) in
        (case argString (args ! 1) of
           Some kw \<Rightarrow>
             if ToUpper kw = ''FIELDS'' then
               (if length args < 3 then refuse ''ERR syntax error''
                else need ''ERR syntax error'' (args ! 2) (\<lambda>c. case ParseInt c of
                  None \<Rightarrow> refuse ''ERR syntax error''
                | Some n \<Rightarrow> if n \<le> 0 \<or> n \<noteq> int (length args) - 3 then refuse ''ERR syntax error'' else names (drop 3 args)))
             else names (tl args)
         | None \<Rightarrow> names (tl args))))"

definition field_time :: "(int \<Rightarrow> int) \<Rightarrow> int \<Rightarrow> hmap \<Rightarrow> hmap \<Rightarrow> bytes \<Rightarrow> RVal" where
  "field_time disp now m ex f =
     Integer (if f \<notin> set (keys_of m) then -2
       else case map_of ex f of
         None \<Rightarrow> -1
       | Some ts \<Rightarrow> (case ParseInt ts of None \<Rightarrow> -2 | Some nano \<Rightarrow> if nano \<le> now then -2 else disp nano))"

definition field_times :: "(int \<Rightarrow> int) \<Rightarrow> 's kv \<Rightarrow> int \<Rightarrow> RVal list \<Rightarrow> 's handler" where
  "field_times disp K now args =
     (case httlFields args of
        Inl r \<Rightarrow> State_Monad.return r
      | Inr (key, fs) \<Rightarrow> with_side K now key (length fs) (\<lambda>(m, _, ex). answer (Array (Some (map (field_time disp now m ex) fs)))))"

definition fieldExpireAt :: "bool \<Rightarrow> 's kv \<Rightarrow> int \<Rightarrow> RVal list \<Rightarrow> 's handler" where
  "fieldExpireAt millis = field_times (\<lambda>nano. if millis then go_div nano msec else go_div nano sec)"

definition hfieldttl :: "bool \<Rightarrow> 's kv \<Rightarrow> int \<Rightarrow> RVal list \<Rightarrow> 's handler" where
  "hfieldttl millis K now =
     field_times (\<lambda>nano. let ms = go_div (wrap64 (nano - now)) msec in if millis then ms else go_div (ms + 500) 1000) K now"

fun hpersist_loop :: "hmap \<Rightarrow> bytes list \<Rightarrow> hmap \<Rightarrow> RVal list \<Rightarrow> bool \<Rightarrow> hmap \<times> RVal list \<times> bool" where
  "hpersist_loop m [] ex out dirty = (ex, out, dirty)"
| "hpersist_loop m (f # fs) ex out dirty =
     (if f \<notin> set (keys_of m) then hpersist_loop m fs ex (out @ [Integer (-2)]) dirty
      else if f \<notin> set (keys_of ex) then hpersist_loop m fs ex (out @ [Integer (-1)]) dirty
      else hpersist_loop m fs (AList.delete f ex) (out @ [Integer 1]) True)"

definition hpersist :: "'s kv \<Rightarrow> int \<Rightarrow> RVal list \<Rightarrow> 's handler" where
  "hpersist K now args =
     (case httlFields args of
        Inl r \<Rightarrow> State_Monad.return r
      | Inr (key, fs) \<Rightarrow> with_side K now key (length fs) (\<lambda>(m, _, ex).
          case hpersist_loop m fs ex [] False of (ex', out, dirty) \<Rightarrow>
            if \<not> dirty then answer (Array (Some out))
            else do {
              u \<leftarrow> writeFieldExp K key ex';
              (case u of
                 Err e \<Rightarrow> answer (errValue K (Stored e))
               | Panic \<Rightarrow> crash
               | Ok _ \<Rightarrow> do { notify ''h'' ''hpersist'' key; answer (Array (Some out)) })
            }))"

definition hash_steps ::
  "(nat \<Rightarrow> nat list) \<Rightarrow> (nat \<Rightarrow> nat \<Rightarrow> nat) \<Rightarrow>      (string \<times> (RVal list \<Rightarrow> hmap parsed)) list" where
  "hash_steps perm intn =
     [(''HSET'', hset), (''HGET'', hget), (''HSETNX'', hsetnx), (''HEXISTS'', hexists), (''HLEN'', hlen), (''HSTRLEN'', hstrlen),
      (''HMSET'', hmset), (''HMGET'', hmget), (''HGETALL'', hgetall), (''HKEYS'', hkeys), (''HVALS'', hvals), (''HSCAN'', hscan),
      (''HRANDFIELD'', hrandfield perm intn), (''HINCRBY'', hincrby), (''HINCRBYFLOAT'', hincrbyfloat)]"

definition hash_table ::
  "(nat \<Rightarrow> nat list) \<Rightarrow> (nat \<Rightarrow> nat \<Rightarrow> nat) \<Rightarrow>      's kv \<Rightarrow> int \<Rightarrow> 's table" where
  "hash_table perm intn K now =
     map (\<lambda>(n, p). (n, \<lambda>args. hash_cmd K now (p args))) (hash_steps perm intn) @
     [(''HDEL'', hdel K now), (''HEXPIRE'', hexpire expireRelativeSec K now), (''HEXPIREAT'', hexpire expireAbsoluteSec K now),
      (''HPEXPIRE'', hexpire expireRelativeMs K now), (''HPEXPIREAT'', hexpire expireAbsoluteMs K now),
      (''HTTL'', hfieldttl False K now), (''HPTTL'', hfieldttl True K now), (''HEXPIRETIME'', fieldExpireAt False K now),
      (''HPEXPIRETIME'', fieldExpireAt True K now), (''HPERSIST'', hpersist K now)]"

subsection \<open>Refinement\<close>

lemma hash_steps_ok [step_oks]:
  "act_tag TypeHash (fst (snd (hset_step ps v key None)))"
  "int64_range x \<Longrightarrow> act_tag TypeHash (fst (snd (hset_step ps v key (Some (m, x)))))"
  "act_tag TypeHash (fst (snd (hsetnx_step f u key None)))"
  "int64_range x \<Longrightarrow> act_tag TypeHash (fst (snd (hsetnx_step f u key (Some (m, x)))))"
  "act_tag TypeHash (fst (snd (hincrby_step f n key None)))"
  "int64_range x \<Longrightarrow> act_tag TypeHash (fst (snd (hincrby_step f n key (Some (m, x)))))"
  "act_tag TypeHash (fst (snd (hincrbyfloat_step f r key None)))"
  "int64_range x \<Longrightarrow> act_tag TypeHash (fst (snd (hincrbyfloat_step f r key (Some (m, x)))))"
  by (simp_all add: hset_step_def hsetnx_step_def hincrby_step_def hincrbyfloat_step_def Let_def
      split: option.split prod.split sum.split)

lemma hash_steps_typed:
  assumes "map_of (hash_steps perm intn) name = Some p"
  shows "step_ok TypeHash (p args)"
  using assms unfolding hash_steps_def
  by (auto split: if_splits simp: hset_def hget_def hsetnx_def hexists_def hlen_def hstrlen_def hmset_def hmget_def hgetall_def
      hkeys_def hvals_def hash_list_def hscan_def hrandfield_def hincrby_def hincrbyfloat_def intro!: step_oks)
context kv_store
begin

lemma sim_readFieldExp [sim_intros]: "msim (readFieldExp K key) (readFieldExp M key)"
  unfolding readFieldExp_def by (intro sim_intros) simp_all

lemma sim_writeFieldExp [sim_intros]: "msim (writeFieldExp K key ex) (writeFieldExp M key ex)"
  unfolding writeFieldExp_def by (intro sim_intros)

lemma sim_writeHash [sim_intros]: "msim (writeHash K key m x) (writeHash M key m x)"
  unfolding writeHash_def by (intro sim_intros)

lemma sim_purge_fields [sim_intros]: "msim (purge_fields K now key m x ex) (purge_fields M now key m x ex)"
  unfolding purge_fields_def by (intro sim_intros) simp_all

lemma sim_readHash [sim_intros]: "msim (readHash K now key) (readHash M now key)"
  unfolding readHash_def by (intro sim_intros) simp_all

lemma sim_hash_cmd [sim_intros]: "msim (hash_cmd K now p) (hash_cmd M now p)"
  unfolding hash_cmd_def by (intro sim_intros)

lemma sim_hdel [sim_intros]: "msim (hdel K now args) (hdel M now args)"
  unfolding hdel_def hdel_write_def by (intro sim_intros) simp_all

lemma sim_with_side [sim_intros]: "(\<And>a. msim (f a) (g a)) \<Longrightarrow> msim (with_side K now key n f) (with_side M now key n g)"
  unfolding with_side_def by (intro sim_intros) simp_all

lemma sim_hexpire_write [sim_intros]: "msim (hexpire_write K key x s) (hexpire_write M key x s)"
  unfolding hexpire_write_def write_if_def by (intro sim_intros) simp_all

lemma sim_hexpire [sim_intros]: "msim (hexpire kind K now args) (hexpire kind M now args)"
  unfolding hexpire_def by (intro sim_intros) simp_all

lemma sim_field_times [sim_intros]: "msim (field_times disp K now args) (field_times disp M now args)"
  unfolding field_times_def by (intro sim_intros) simp_all

lemma sim_hfieldttl [sim_intros]: "msim (hfieldttl millis K now args) (hfieldttl millis M now args)"
  unfolding hfieldttl_def by (rule sim_field_times)

lemma sim_fieldExpireAt [sim_intros]: "msim (fieldExpireAt millis K now args) (fieldExpireAt millis M now args)"
  unfolding fieldExpireAt_def by (rule sim_field_times)

lemma sim_hpersist [sim_intros]: "msim (hpersist K now args) (hpersist M now args)"
  unfolding hpersist_def by (intro sim_intros) simp_all

end

text \<open>On a well-formed store a hash has no sidecar, and reading it is reading a typed key.\<close>

lemma no_sidecar:
  assumes "wf_store (store w)" "typed_entry TypeHash hash_dec (dict (store w) now key) = Ok x"
  shows "store w (HashExpKey key) = None"
proof -
  obtain e where e: "dict (store w) now key = Some e" "Type e = TypeHash"
    using assms(2) by (cases x) (auto elim: typed_entry_Ok)
  obtain raw where "lookup (store w) now key = Ok (raw, e)" using dict_lookup [OF e(1)] by blast
  from lookup_Ok [OF this] obtain p v where p: "p \<in> set typePrefixes" "store w (p @ key) = Some v" "Decode v = Ok e" by auto
  from wf_cell [OF assms(1) p(1,2)] p(3) e(2) tag_prefix [OF p(1)] have "p = ''h:''" by fastforce
  with wf_other [OF assms(1) p(1), of key "''x:''"] p(2) show ?thesis by (simp add: HashExpKey_def)
qed

lemma typed_read_entry:
  "wf_store (store w) \<Longrightarrow> fst (run_state (typed_read tag dec (map_kv T) now key) w) = typed_entry tag dec (dict (store w) now key)"
  using goes_read [of now "dict (store w) now" "{}" tag dec T key] by (simp add: goes_def shows_dict_def)

lemma run_readHash_wf:
  assumes "wf_store (store w)"
  shows "run_state (readHash (map_kv T) now key) w = run_state (typed_read TypeHash hash_dec (map_kv T) now key) w"
proof -
  obtain r w' where R: "run_state (typed_read TypeHash hash_dec (map_kv T) now key) w = (r, w')" by fastforce
  then have r: "r = typed_entry TypeHash hash_dec (dict (store w) now key)"
    using typed_read_entry [OF assms, of TypeHash hash_dec T now key] by simp
  show ?thesis
  proof (cases r)
    case (Ok x)
    then obtain m y where x: "x = (m, y)" "typed_entry TypeHash hash_dec (dict (store w) now key) = Ok (m, y)" using r by (cases x) auto
    then obtain e where "dict (store w) now key = Some e" by (auto elim: typed_entry_Ok)
    then obtain raw where "lookup (store w) now key = Ok (raw, e)" using dict_lookup by blast
    then have w: "w' = w" using R purge_hit by (auto simp: runs)
    have "run_state (readFieldExp (map_kv T) key) w = (Ok [], w)"
      using no_sidecar [OF assms x(2)] by (simp add: readFieldExp_def runs)
    then show ?thesis using R Ok x(1) w by (simp add: readHash_def purge_fields_def drop_dead_def)
  qed (use R in \<open>simp_all add: readHash_def\<close>)
qed

lemma hash_cmd_refines:
  assumes "step_ok TypeHash p"
  shows "refines now (hash_cmd (map_kv T) now p) (parsed_spec TypeHash hash_dec p)"
proof -
  have "run_state (hash_cmd (map_kv T) now p) w = run_state (cell_cmd TypeHash hash_dec (map_kv T) now p) w" if "wf_store (store w)" for w
    using run_readHash_wf [OF that] by (auto simp: hash_cmd_def cell_cmd_def step_cmd_def split: sum.split prod.split)
  with cell_cmd_refines [OF assms valid_tags(2), of now hash_dec T] show ?thesis by (simp add: refines_def)
qed
subsection \<open>The expiry of a field\<close>

lemma go_str_FormatInt: "int64_range i \<Longrightarrow> go_str (FormatInt i)"
  using FormatUint_length [of "nat i" 19] FormatUint_length [of "nat (- i)" 19]
  by (auto simp: FormatInt_def go_str_def int64_range_def nat_less_iff)

lemma hash_dec_one: "go_str f \<Longrightarrow> go_str t \<Longrightarrow> hash_dec (EncodeHash [(f, t)]) = Ok [(f, t)]"
  using DecodeHash_EncodeHash [of "[(f, t)]" "[]"]
  by (simp add: hash_dec_def go_hash_def gomap_def hash_pairs_def getd_def gomap_of_def)

text \<open>A hash without an expiry of its own, and its cell.\<close>

definition hash_at :: "(bytes \<rightharpoonup> bytes) \<Rightarrow> string \<Rightarrow> hmap \<Rightarrow> bool" where
  "hash_at m key hm \<longleftrightarrow>
     m (''s:'' @ key) = None
     \<and> (\<exists>u e. m (''h:'' @ key) = Some u \<and> Decode u = Ok e \<and> Type e = TypeHash \<and> Expiry e = 0 \<and> hash_dec (Payload e) = Ok hm)"

lemma hash_at_read:
  assumes "hash_at (store w) key hm"
  shows "run_state (typed_read TypeHash hash_dec (map_kv T) now key) w = (Ok (hm, 0), w)"
proof -
  obtain u e where u: "store w (''h:'' @ key) = Some u" "Decode u = Ok e" "Type e = TypeHash" "Expiry e = 0" "hash_dec (Payload e) = Ok hm"
    and s: "store w (''s:'' @ key) = None" using assms by (auto simp: hash_at_def)
  have "found (store w) key typePrefixes = Some ''h:''" using u(1) s by (simp add: found_def typePrefixes_def)
  then have "lookup (store w) now key = Ok (''h:'' @ key, e)" using u by (simp add: lookup_m_def expired_at_def)
  then show ?thesis using u purge_hit by (auto simp: runs)
qed

lemma hash_at_other: "hash_at m key hm \<Longrightarrow> hash_at (m(''x:'' @ key := c)) key hm"
  by (simp add: hash_at_def)

lemma side_read:
  assumes "go_str f" "int64_range x" "store w (''x:'' @ key) = Some (Encode TypeHash 0 (EncodeHash [(f, FormatInt x)]))"
  shows "run_state (readFieldExp (map_kv T) key) w = (Ok [(f, FormatInt x)], w)"
  using assms hash_dec_one [OF assms(1) go_str_FormatInt [OF assms(2)]]
  by (simp add: readFieldExp_def runs HashExpKey_def Decode_Encode int64_range_def)

text \<open>Reading the hash while the field is live, and after.\<close>

lemma readHash_live:
  assumes "go_str f" "int64_range x" "hash_at (store w) key hm" "now < x"
    and "store w (''x:'' @ key) = Some (Encode TypeHash 0 (EncodeHash [(f, FormatInt x)]))"
  shows "run_state (readHash (map_kv T) now key) w = (Ok (hm, 0), w)"
  using hash_at_read [OF assms(3)] side_read [OF assms(1,2,5)] assms(2,4)
  by (simp add: readHash_def purge_fields_def drop_dead_def field_dead_def)

lemma readHash_dead:
  assumes "go_str f" "int64_range x" "hash_at (store w) key hm" "x \<le> now"
    and "store w (''x:'' @ key) = Some (Encode TypeHash 0 (EncodeHash [(f, FormatInt x)]))"
  shows "fst (run_state (readHash (map_kv T) now key) w) = Ok (AList.delete f hm, 0)"
    and "store (snd (run_state (readHash (map_kv T) now key) w))
      = (store w)(''h:'' @ key \<mapsto> Encode TypeHash 0 (EncodeHash (AList.delete f hm)), ''x:'' @ key := None)"
proof -
  have d: "filter (\<lambda>(g, _). \<not> (\<exists>ts. map_of [(f, FormatInt x)] g = Some ts \<and> field_dead now ts)) hm = AList.delete f hm"
    using assms(2,4) by (auto simp: AList.delete_eq field_dead_def intro!: filter_cong)
  have dead: "field_dead now (FormatInt x)" using assms(2,4) by (simp add: field_dead_def)
  have "run_state (readHash (map_kv T) now key) w = run_state (purge_fields (map_kv T) now key hm 0 [(f, FormatInt x)]) w"
    using hash_at_read [OF assms(3)] side_read [OF assms(1,2,5)] by (simp add: readHash_def)
  moreover have "drop_dead now [(f, FormatInt x)] hm = (AList.delete f hm, [])"
    unfolding drop_dead_def d using dead by simp
  ultimately show "fst (run_state (readHash (map_kv T) now key) w) = Ok (AList.delete f hm, 0)"
    "store (snd (run_state (readHash (map_kv T) now key) w))
      = (store w)(''h:'' @ key \<mapsto> Encode TypeHash 0 (EncodeHash (AList.delete f hm)), ''x:'' @ key := None)"
    using dead by (simp_all add: purge_fields_def writeHash_def writeFieldExp_def HashKey_def HashExpKey_def runs)
qed
definition field_ttl_script :: "'s kv \<Rightarrow> int \<Rightarrow> int \<Rightarrow> string \<Rightarrow> string \<Rightarrow> int \<Rightarrow> ('s world, reply list) state" where
  "field_ttl_script K now now2 key f n = (let k = BulkString (Some key); fs = [BulkString (Some ''FIELDS''), BulkString (Some ''1''), BulkString (Some f)] in do {
     a \<leftarrow> hexpire expireRelativeSec K now (k # BulkString (Some (FormatInt n)) # fs);
     b \<leftarrow> hfieldttl False K now (k # fs);
     c \<leftarrow> hash_cmd K now2 (hget [k, BulkString (Some f)]);
     State_Monad.return [a, b, c]
   })"

context kv_store
begin

lemma sim_field_ttl_script: "msim (field_ttl_script K now now2 key f n) (field_ttl_script M now now2 key f n)"
  unfolding field_ttl_script_def Let_def by (intro sim_intros) simp

end

lemma hexpire_run:
  assumes "hash_at (store w) key hm" "store w (''x:'' @ key) = None" "f \<in> set (keys_of hm)"
    and "int64_range n" "now < expire_at now expireRelativeSec n"
  shows "fst (run_state (hexpire expireRelativeSec (map_kv T) now [BulkString (Some key), BulkString (Some (FormatInt n)),
      BulkString (Some ''FIELDS''), BulkString (Some ''1''), BulkString (Some f)]) w) = Ok (Array (Some [Integer 1]))"
    and "store (snd (run_state (hexpire expireRelativeSec (map_kv T) now [BulkString (Some key), BulkString (Some (FormatInt n)),
      BulkString (Some ''FIELDS''), BulkString (Some ''1''), BulkString (Some f)]) w))
      = (store w)(''x:'' @ key \<mapsto> Encode TypeHash 0 (EncodeHash [(f, FormatInt (expire_at now expireRelativeSec n))]))"
proof -
  let ?x = "expire_at now expireRelativeSec n"
  have kw: "ToUpper ''FIELDS'' = ''FIELDS''" by code_simp
  have one: "ParseInt ''1'' = Some 1" by (simp add: parse_simps)
  have F: "run_state (readFieldExp (map_kv T) key) w = (Ok [], w)"
    using assms(2) by (simp add: readFieldExp_def HashExpKey_def runs)
  then have R: "run_state (readHash (map_kv T) now key) w = (Ok (hm, 0), w)"
    using hash_at_read [OF assms(1)] by (simp add: readHash_def purge_fields_def drop_dead_def)
  have L: "hexpire_field hexpireNone ?x now f \<lparr> hx_map = hm, hx_side = [], hx_out = [], hx_dirtyMain = False, hx_dirtyExp = False \<rparr>
      = \<lparr> hx_map = hm, hx_side = [(f, FormatInt ?x)], hx_out = [Integer 1], hx_dirtyMain = False, hx_dirtyExp = True \<rparr>"
    using assms(3,5) by (simp add: hexpire_field_def)
  note parts = hexpire_def hexpire_cond_def fields_args_def need_def need_int_def bulk_def kw one with_side_def F R L
    hexpire_write_def write_if_def writeFieldExp_def HashExpKey_def runs ParseInt_FormatInt [OF assms(4)]
  show "fst (run_state (hexpire expireRelativeSec (map_kv T) now [BulkString (Some key), BulkString (Some (FormatInt n)),
      BulkString (Some ''FIELDS''), BulkString (Some ''1''), BulkString (Some f)]) w) = Ok (Array (Some [Integer 1]))"
    by (simp add: parts del: expire_at.simps)
  show "store (snd (run_state (hexpire expireRelativeSec (map_kv T) now [BulkString (Some key), BulkString (Some (FormatInt n)),
      BulkString (Some ''FIELDS''), BulkString (Some ''1''), BulkString (Some f)]) w))
      = (store w)(''x:'' @ key \<mapsto> Encode TypeHash 0 (EncodeHash [(f, FormatInt ?x)]))"
    by (simp add: parts del: expire_at.simps)
qed
lemma httl_run:
  assumes "go_str f" "int64_range x" "hash_at (store w) key hm" "now < x" "0 \<le> now" "f \<in> set (keys_of hm)"
    and "store w (''x:'' @ key) = Some (Encode TypeHash 0 (EncodeHash [(f, FormatInt x)]))"
  shows "run_state (hfieldttl False (map_kv T) now [BulkString (Some key), BulkString (Some ''FIELDS''), BulkString (Some ''1''), BulkString (Some f)]) w
    = (Ok (Array (Some [Integer (((x - now) div msec + 500) div 1000)])), w)"
proof -
  have kw: "ToUpper ''FIELDS'' = ''FIELDS''" by code_simp
  have one: "ParseInt ''1'' = Some 1" by (simp add: parse_simps)
  have w: "wrap64 (x - now) = x - now" using assms(2,4,5) by (intro wrap64_id) (auto simp: int64_range_def)
  have "0 \<le> (x - now) div msec" using assms(4) by (simp add: msec_def pos_imp_zdiv_nonneg_iff)
  then show ?thesis
    using readHash_live [OF assms(1-4,7)] side_read [OF assms(1,2,7)] assms(2,4,6)
    by (simp add: hfieldttl_def field_times_def httlFields_def need_def bulk_def kw one with_side_def field_time_def Let_def w go_div_def)
qed

lemma hget_run:
  assumes "run_state (readHash (map_kv T) now key) w = (Ok (hm, x), w')"
  shows "run_state (hash_cmd (map_kv T) now (hget [BulkString (Some key), BulkString (Some f)])) w = (Ok (bulk_or_nil (map_of hm f)), w')"
  by (simp add: hash_cmd_def step_cmd_def hget_def need_def bulk_def assms look_def)

text \<open>C35. The expiry of a field. \<^verbatim>\<open>HEXPIRE\<close> with \<open>n\<close> seconds replies 1 and \<^verbatim>\<open>HTTL\<close> then reports \<open>n\<close>. Until the time has come
  \<^verbatim>\<open>HGET\<close> gives the value. From then on it gives nil, and the field is removed from the stored hash, which stays
  as an empty hash when it was the last field.\<close>

theorem field_expires:
  assumes "kv_store K view live" "live (store w)" "wf_store (view (store w))"
    and "dict (view (store w)) now key = Some e" "Type e = TypeHash" "Expiry e = 0" "hash_dec (Payload e) = Ok hm"
    and "map_of hm f = Some v" "go_str f" "0 < n" "0 \<le> now" "now + n * sec < 2 ^ 63"
    and "run_state (field_ttl_script K now now2 key f n) w = (rs, w')"
  shows "rs = [Ok (Array (Some [Integer 1])), Ok (Array (Some [Integer n])),
               Ok (if now2 < now + n * sec then BulkOf v else NilBulk)]
    \<and> (now + n * sec \<le> now2 \<longrightarrow>
         dict (view (store w')) now2 = (dict (view (store w)) now2)(key \<mapsto> \<lparr> Type = TypeHash, Expiry = 0, Payload = EncodeHash (AList.delete f hm) \<rparr>))"
proof -
  let ?m = "view (store w)" and ?x = "now + n * sec" and ?T = "kvText K"
  obtain raw where "lookup ?m now key = Ok (raw, e)" using dict_lookup [OF assms(4)] by blast
  note L = this
  from lookup_Ok [OF L] obtain p u where p: "p \<in> set typePrefixes" "raw = p @ key" "?m (p @ key) = Some u" "Decode u = Ok e" by auto
  from wf_cell [OF assms(3) p(1,3)] p(4) assms(5) tag_prefix [OF p(1)] have h: "p = ''h:''" by fastforce
  have none: "?m (''x:'' @ key) = None" "?m (''s:'' @ key) = None" 
    using wf_other [OF assms(3) p(1), of key "''x:''"] wf_other [OF assms(3) p(1), of key "''s:''"] p(3) h by simp_all
  have at: "hash_at ?m key hm" using p(3,4) h none(2) assms(5-7) by (simp add: hash_at_def)
  have f: "f \<in> set (keys_of hm)" using assms(8) by (metis domI dom_map_of_conv_image_fst list.set_map)
  have sec: "0 < n * sec" using assms(10) by (simp add: sec_def)
  have x: "int64_range ?x" "int64_range n" "expire_at now expireRelativeSec n = ?x"
    using assms(10-12) sec by (auto simp: int64_range_def wrap64_id sec_def)
  define w1 where "w1 = snd (run_state (hexpire expireRelativeSec (map_kv ?T) now [BulkString (Some key), BulkString (Some (FormatInt n)),
      BulkString (Some ''FIELDS''), BulkString (Some ''1''), BulkString (Some f)]) (absw view w))"
  have lt: "now < expire_at now expireRelativeSec n" using x(3) sec by simp
  have s0: "store (absw view w) = ?m" by (simp add: absw_def)
  note E = hexpire_run [of "absw view w" key hm f n now ?T, unfolded s0, OF at none(1) f x(2) lt, folded w1_def, unfolded x(3)]
  have at1: "hash_at (store w1) key hm" unfolding E(2) by (rule hash_at_other [OF at])
  have side: "store w1 (''x:'' @ key) = Some (Encode TypeHash 0 (EncodeHash [(f, FormatInt ?x)]))" unfolding E(2) by simp
  have H: "run_state (hfieldttl False (map_kv ?T) now [BulkString (Some key), BulkString (Some ''FIELDS''), BulkString (Some ''1''), BulkString (Some f)]) w1
      = (Ok (Array (Some [Integer n])), w1)"
    using httl_run [OF assms(9) x(1) at1 _ assms(11) f side, of ?T] sec by (simp add: sec_def msec_def)
  have script: "run_state (field_ttl_script (map_kv ?T) now now2 key f n) (absw view w) =
      (let (c, w2) = run_state (hash_cmd (map_kv ?T) now2 (hget [BulkString (Some key), BulkString (Some f)])) w1
       in ([Ok (Array (Some [Integer 1])), Ok (Array (Some [Integer n])), c], w2))"
    unfolding field_ttl_script_def Let_def using E(1) H by (simp add: State_Monad.run_state_bind case_prod_beta w1_def [symmetric])
  note S = simD [OF kv_store.sim_field_ttl_script [OF assms(1)] assms(2), of now now2 key f n]
  show ?thesis
  proof (cases "now2 < ?x")
    case True
    note G = hget_run [OF readHash_live [OF assms(9) x(1) at1 True side, of ?T], of f]
    show ?thesis using S script G assms(8,13) True by (simp add: bulk_or_nil_def)
  next
    case False
    let ?c = "Encode TypeHash 0 (EncodeHash (AList.delete f hm))"
    obtain w2 where R: "run_state (readHash (map_kv ?T) now2 key) w1 = (Ok (AList.delete f hm, 0), w2)"
      and w2: "store w2 = (store w1)(''h:'' @ key \<mapsto> ?c, ''x:'' @ key := None)"
      using readHash_dead [OF assms(9) x(1) at1 _ side, of now2 ?T] False
      by (cases "run_state (readHash (map_kv ?T) now2 key) w1") auto
    have "store w2 = ?m(''h:'' @ key \<mapsto> ?c)" unfolding w2 E(2) using none(1) by (auto simp: fun_eq_iff)
    then have D: "dict (store w2) now2 = (dict ?m now2)(key \<mapsto> \<lparr> Type = TypeHash, Expiry = 0, Payload = EncodeHash (AList.delete f hm) \<rparr>)"
      using rewrite_cell(2) [OF assms(3) L, of 0 "EncodeHash (AList.delete f hm)" now2] p(2) h assms(5)
      by (cases e) (simp add: int64_range_def expired_at_def)
    show ?thesis using S script hget_run [OF R, of f] assms(13) False D by (simp add: bulk_or_nil_def AList.delete_conv)
  qed
qed

theorem field_expires_witness:
  "fst (run_state (field_ttl_script (pebble_kv memdb quiet_env) 1 (5 * sec) ''k'' ''f'' 2) (one_world TypeHash ''k'' (EncodeHash [(''f'', ''v'')])))
    = [Ok (Array (Some [Integer 1])), Ok (Array (Some [Integer 2])), Ok NilBulk]"
  using field_expires [OF memdb.kv_store_axioms, of "one_world TypeHash ''k'' (EncodeHash [(''f'', ''v'')])" 1 "''k''"
      "\<lparr> Type = TypeHash, Expiry = 0, Payload = EncodeHash [(''f'', ''v'')] \<rparr>" "[(''f'', ''v'')]" "''f''" "''v''" 2 "5 * sec"
      "fst (run_state (field_ttl_script (pebble_kv memdb quiet_env) 1 (5 * sec) ''k'' ''f'' 2) (one_world TypeHash ''k'' (EncodeHash [(''f'', ''v'')])))"
      "snd (run_state (field_ttl_script (pebble_kv memdb quiet_env) 1 (5 * sec) ''k'' ''f'' 2) (one_world TypeHash ''k'' (EncodeHash [(''f'', ''v'')])))"]
    one_dict [of TypeHash] hash_dec_one [of "''f''" "''v''"]
  by (simp add: one_world_def New_def go_str_def sec_def)

text \<open>An emptied hash makes \<^verbatim>\<open>HRANDFIELD\<close> with a negative count panic.\<close>

lemma hrandfield_panics: "hrand_reply perm intn [k, BulkString (Some ''-1'')] [] = Panic"
  by (simp add: hrand_reply_def need_int_def bulk_def parse_simps wrap64_def)

text \<open>\<^verbatim>\<open>HDEL\<close> on a hash without sidecar is a step.\<close>

definition hdel_step :: "RVal list \<Rightarrow> string \<Rightarrow> hmap step" where
  "hdel_step fs key old =
     (case old of
        None \<Rightarrow> (Ok (Integer 0), Keep, [])
      | Some (m, expiry) \<Rightarrow>
          (case fst (hdel_loop fs m 0 [] False) of (m', deleted) \<Rightarrow>
             (Ok (Integer deleted), if m' = [] \<and> 0 < deleted then Remove TypeHash else keep_hash m' expiry,
              if 0 < deleted then (''h'', ''hdel'', key) # (if m' = [] then [(''g'', ''del'', key)] else []) else [])))"

definition hdel_parsed :: "RVal list \<Rightarrow> hmap parsed" where
  "hdel_parsed args =
     (if length args < 2 then refuse (wrongargs ''hdel'')
      else need_key (args ! 0) (\<lambda>key. Inr (key, hdel_step (tl args) key)))"

lemma hdel_loop_side: "snd (hdel_loop fs m n [] False) = ([], False)"
  by (induction fs arbitrary: m n) (auto split: option.split)

lemma hdel_parsed_ok: "step_ok TypeHash (hdel_parsed args)"
proof -
  have "act_tag TypeHash (fst (snd (hdel_step fs key None)))"
    "int64_range x \<Longrightarrow> act_tag TypeHash (fst (snd (hdel_step fs key (Some (m, x)))))" for fs key m x
    by (simp_all add: hdel_step_def split: prod.split)
  then show ?thesis unfolding hdel_parsed_def by (intro step_oks)
qed

lemma hdel_run_wf:
  assumes "wf_store (store w)"
  shows "run_state (hdel (map_kv T) now args) w = run_state (hash_cmd (map_kv T) now (hdel_parsed args)) w"
proof (cases "length args < 2 \<or> argString (args ! 0) = None")
  case True
  then show ?thesis by (auto simp: hdel_def hash_cmd_def step_cmd_def hdel_parsed_def refuse_def need_def)
next
  case False
  then obtain key where key: "argString (args ! 0) = Some key" "\<not> length args < 2" by auto
  obtain r w' where R: "run_state (readHash (map_kv T) now key) w = (r, w')" by fastforce
  have T: "run_state (typed_read TypeHash hash_dec (map_kv T) now key) w = (r, w')" using run_readHash_wf [OF assms, of T now key] R by simp
  have r: "r = typed_entry TypeHash hash_dec (dict (store w) now key)" using typed_read_entry [OF assms, of TypeHash hash_dec T now key] T by simp
  show ?thesis
  proof (cases r)
    case (Ok x)
    obtain m y where x: "x = (m, y)" by (cases x)
    have w': "w' = w"
    proof -
      have "typed_entry TypeHash hash_dec (dict (store w) now key) = Ok (m, y)" using Ok x r by simp
      then obtain e where "dict (store w) now key = Some e" by (auto elim: typed_entry_Ok)
      then obtain raw where "lookup (store w) now key = Ok (raw, e)" using dict_lookup by blast
      then show ?thesis using T purge_hit by (auto simp: runs)
    qed
    have F: "run_state (readFieldExp (map_kv T) key) w = (Ok [], w)"
      using no_sidecar [OF assms, of now key x] r Ok by (simp add: readFieldExp_def runs)
    obtain m' n where L: "hdel_loop (tl args) m 0 [] False = ((m', n), ([], False))"
      using hdel_loop_side [of "tl args" m 0] by (cases "hdel_loop (tl args) m 0 [] False") auto
    show ?thesis
      using R Ok x w' F L key
      by (simp add: hdel_def hdel_write_def hash_cmd_def step_cmd_def hdel_parsed_def need_def hdel_step_def writeHash_def HashKey_def runs)
  next
    case (Err e)
    with R key show ?thesis by (simp add: hdel_def hash_cmd_def step_cmd_def hdel_parsed_def need_def hdel_step_def missing_def)
  next
    case Panic
    with R key show ?thesis by (simp add: hdel_def hash_cmd_def step_cmd_def hdel_parsed_def need_def)
  qed
qed

lemma hdel_refines: "refines now (hdel (map_kv T) now args) (parsed_spec TypeHash hash_dec (hdel_parsed args))"
  using hash_cmd_refines [OF hdel_parsed_ok, of now T args] by (simp add: refines_def hdel_run_wf)
end
