(* ===== verification/ZSets.thy ===== *)
theory ZSets
  imports Hashes
begin

text \<open>
  The sorted-set commands on one key: \<^verbatim>\<open>zset.go\<close>, \<^verbatim>\<open>zset_range.go\<close> and \<^verbatim>\<open>zset_scan.go\<close>. A \<^verbatim>\<open>map[string]float64\<close> is the list of
  its pairs, each member once. The order in which Go iterates over the map does not show: the commands sort
  by score and member before they use the order.
\<close>

type_synonym zmap = "(bytes \<times> float64) list"

subsection \<open>\<^verbatim>\<open>zset.go\<close>\<close>

definition ParseScore :: "string \<Rightarrow> float64 option" where
  "ParseScore s = (case ParseFloat s of None \<Rightarrow> None | Some f \<Rightarrow> if IsNaN f \<or> IsInf f then None else Some f)"

definition zset_dec :: "bytes \<Rightarrow> (ds_error, zmap) res" where
  "zset_dec raw = bind_res (DecodeZSet raw) (\<lambda>(z, _). Ok z)"

definition readZSet :: "'s kv \<Rightarrow> int \<Rightarrow> string \<Rightarrow> ('s world, (cmd_error, zmap \<times> int) res) state" where
  "readZSet = typed_read TypeZSet zset_dec"

definition writeZSet :: "'s kv \<Rightarrow> string \<Rightarrow> zmap \<Rightarrow> int \<Rightarrow> ('s world, (storage_error, unit) res) state" where
  "writeZSet K key z expiry =
     (if z = [] then kdel K (ZSetKey key) else kset K (ZSetKey key) (Encode TypeZSet expiry (EncodeZSet z)))"

definition zset_cmd :: "'s kv \<Rightarrow> int \<Rightarrow> zmap parsed \<Rightarrow> 's handler" where
  "zset_cmd = cell_cmd TypeZSet zset_dec"

definition keep_zset :: "zmap \<Rightarrow> int \<Rightarrow> action" where
  "keep_zset z expiry = (if z = [] then Remove TypeZSet else Write TypeZSet expiry (EncodeZSet z))"

definition sortedZSet :: "zmap \<Rightarrow> (bytes \<times> float64) list" where
  "sortedZSet z = insertion_sort zset_less z"

text \<open>\<^verbatim>\<open>strings.Replace(s, old, new, 1)\<close>.\<close>

fun replace_first :: "string \<Rightarrow> string \<Rightarrow> string \<Rightarrow> string" where
  "replace_first [] old new = []"
| "replace_first (c # s) old new =
     (if HasPrefix (c # s) old then new @ drop (length old) (c # s) else c # replace_first s old new)"

definition splitSci :: "float64 \<Rightarrow> string \<times> int" where
  "splitSci f =
     (let s = FormatFloat fmtE f; idx = IndexByte s CHR ''e''
      in case ParseInt (drop (nat (idx + 1)) s) of None \<Rightarrow> (s, 0) | Some n \<Rightarrow> (take (nat idx) s, n))"

definition normSci :: "float64 \<Rightarrow> string" where
  "normSci f = replace_first (replace_first (FormatFloat fmtE f) ''e-0'' ''e-'') ''e+0'' ''e+''"

definition formatScore :: "float64 \<Rightarrow> string" where
  "formatScore f =
     (if f64_eq f 0 then ''0''
      else case splitSci f of (mant, exp) \<Rightarrow>
        let digits = replace_first mant ''.'' [] in
        if 19 \<le> exp \<and> 8 \<le> exp + 1 - int (length digits) then normSci f
        else if exp \<le> -7 then normSci f
        else FormatFloat fmtF f)"

abbreviation score_bulk :: "float64 \<Rightarrow> RVal" where
  "score_bulk f \<equiv> BulkOf (formatScore f)"

record scoreBound =
  sb_v :: float64
  sb_ex :: bool
  sb_inf :: int

definition badfloat :: string where
  "badfloat = ''ERR min or max is not a float''"

definition parseScoreBound :: "string \<Rightarrow> scoreBound option" where
  "parseScoreBound s0 =
     (let ex = HasPrefix s0 ''(''; s = (if ex then tl s0 else s0)
      in if ToLower s = ''-inf'' then Some \<lparr> sb_v = f64_of True inf_mag, sb_ex = False, sb_inf = -1 \<rparr>
         else if ToLower s = ''+inf'' \<or> ToLower s = ''inf'' then Some \<lparr> sb_v = f64_of False inf_mag, sb_ex = False, sb_inf = 1 \<rparr>
         else case ParseFloat s of
           None \<Rightarrow> None
         | Some f \<Rightarrow> if IsNaN f then None else Some \<lparr> sb_v = f, sb_ex = ex, sb_inf = 0 \<rparr>)"

definition inScoreRange :: "float64 \<Rightarrow> scoreBound \<Rightarrow> scoreBound \<Rightarrow> bool" where
  "inScoreRange s lo hi \<longleftrightarrow>
     \<not> (sb_inf lo = 0 \<and> (f64_lt s (sb_v lo) \<or> (sb_ex lo \<and> f64_eq s (sb_v lo))))
     \<and> \<not> (sb_inf hi = 0 \<and> (f64_lt (sb_v hi) s \<or> (sb_ex hi \<and> f64_eq s (sb_v hi))))"

definition normalizeRange :: "int \<Rightarrow> int \<Rightarrow> int \<Rightarrow> (int \<times> int) option" where
  "normalizeRange start0 stop0 n =
     (if n = 0 then None
      else let start = (if start0 < 0 then start0 + n else start0);
               stop = (if stop0 < 0 then stop0 + n else stop0);
               start = (if start < 0 then 0 else start);
               stop = (if n \<le> stop then n - 1 else stop)
           in if stop < start then None else Some (start, stop))"

record zaddFlags =
  fl_nx :: bool
  fl_xx :: bool
  fl_gt :: bool
  fl_lt :: bool
  fl_ch :: bool
  fl_incr :: bool

definition no_flags :: zaddFlags where
  "no_flags = \<lparr> fl_nx = False, fl_xx = False, fl_gt = False, fl_lt = False, fl_ch = False, fl_incr = False \<rparr>"

text \<open>The flags and the arguments after them.\<close>

fun parseZAddFlags :: "RVal list \<Rightarrow> zaddFlags \<Rightarrow> reply + (zaddFlags \<times> RVal list)" where
  "parseZAddFlags [] fl = Inr (fl, [])"
| "parseZAddFlags (a # as) fl =
     need ''ERR invalid argument'' a (\<lambda>s.
       if ToUpper s = ''NX'' then parseZAddFlags as (fl\<lparr> fl_nx := True \<rparr>)
       else if ToUpper s = ''XX'' then parseZAddFlags as (fl\<lparr> fl_xx := True \<rparr>)
       else if ToUpper s = ''GT'' then parseZAddFlags as (fl\<lparr> fl_gt := True \<rparr>)
       else if ToUpper s = ''LT'' then parseZAddFlags as (fl\<lparr> fl_lt := True \<rparr>)
       else if ToUpper s = ''CH'' then parseZAddFlags as (fl\<lparr> fl_ch := True \<rparr>)
       else if ToUpper s = ''INCR'' then parseZAddFlags as (fl\<lparr> fl_incr := True \<rparr>)
       else Inr (fl, a # as))"

definition notfloat :: string where
  "notfloat = ''ERR value is not a valid float''"

definition zadd_pair :: "RVal \<Rightarrow> RVal \<Rightarrow> RVal + (float64 \<times> bytes)" where
  "zadd_pair a b =
     (case argString a of
        None \<Rightarrow> Inl (RError ''ERR invalid score'')
      | Some s \<Rightarrow>
          (case ParseScore s of
             None \<Rightarrow> Inl (RError notfloat)
           | Some delta \<Rightarrow>
               (case argString b of None \<Rightarrow> Inl (RError ''ERR invalid member'') | Some m \<Rightarrow> Inr (delta, m))))"

definition zadd_skips :: "zaddFlags \<Rightarrow> float64 \<Rightarrow> float64 \<Rightarrow> bool" where
  "zadd_skips fl delta cur \<longleftrightarrow> fl_nx fl \<or> (fl_gt fl \<and> f64_le delta cur) \<or> (fl_lt fl \<and> f64_le cur delta)"

fun zadd_loop :: "zaddFlags \<Rightarrow> RVal list \<Rightarrow> zmap \<Rightarrow> int \<Rightarrow> int \<Rightarrow> RVal + (zmap \<times> int \<times> int)" where
  "zadd_loop fl (a # b # as) z added changed =
     (case zadd_pair a b of
        Inl v \<Rightarrow> Inl v
      | Inr (delta, m) \<Rightarrow>
          (case map_of z m of
             None \<Rightarrow>
               if fl_xx fl then zadd_loop fl as z added changed
               else zadd_loop fl as (AList.update m delta z) (added + 1) (changed + 1)
           | Some cur \<Rightarrow>
               if zadd_skips fl delta cur \<or> f64_eq delta cur then zadd_loop fl as z added changed
               else zadd_loop fl as (AList.update m delta z) added (changed + 1)))"
| "zadd_loop fl _ z added changed = Inr (z, added, changed)"

definition outofrange :: string where
  "outofrange = ''ERR resulting score is out of range (result of INCRBY would be out of range)''"

definition zadd_incr :: "zaddFlags \<Rightarrow> RVal list \<Rightarrow> zmap \<Rightarrow> int \<Rightarrow> reply \<times> action \<times> noted" where
  "zadd_incr fl rest z expiry =
     (case zadd_pair (rest ! 0) (rest ! 1) of
        Inl v \<Rightarrow> (Ok v, Keep, [])
      | Inr (delta, m) \<Rightarrow>
          if map_of z m = None \<and> fl_xx fl then (Ok NilBulk, Keep, [])
          else if map_of z m \<noteq> None \<and> fl_nx fl then (Ok (score_bulk (getd 0 z m)), Keep, [])
          else let cur = f64_add (getd 0 z m) delta in
            if IsNaN cur \<or> IsInf cur then (Ok (RError outofrange), Keep, [])
            else (Ok (score_bulk cur), keep_zset (AList.update m cur z) expiry, []))"

abbreviation or_zero :: "(zmap \<times> int) option \<Rightarrow> zmap \<times> int" where
  "or_zero old \<equiv> (case old of None \<Rightarrow> ([], 0) | Some x \<Rightarrow> x)"

definition zadd_step :: "zaddFlags \<Rightarrow> RVal list \<Rightarrow> string \<Rightarrow> zmap step" where
  "zadd_step fl rest key old =
     (case or_zero old of (z, expiry) \<Rightarrow>
        if fl_incr fl then zadd_incr fl rest z expiry
        else case zadd_loop fl rest z 0 0 of
          Inl v \<Rightarrow> (Ok v, Keep, [])
        | Inr (out, added, changed) \<Rightarrow>
            (Ok (Integer (if fl_ch fl then changed else added)), keep_zset out expiry, [(''z'', ''zadd'', key)]))"

definition zadd :: "RVal list \<Rightarrow> zmap parsed" where
  "zadd args =
     (if length args < 3 then refuse (wrongargs ''zadd'')
      else need_key (args ! 0) (\<lambda>key.
        case parseZAddFlags (tl args) no_flags of
          Inl r \<Rightarrow> Inl r
        | Inr (fl, rest) \<Rightarrow>
            if fl_gt fl \<and> fl_lt fl then refuse ''ERR syntax error, GT and LT not compatible''
            else if (fl_gt fl \<or> fl_lt fl) \<and> fl_nx fl then
              refuse ''ERR syntax error, GT, LT, and/or NX options at the same time are not compatible''
            else if rest = [] \<or> odd (length rest) then refuse ''ERR syntax error''
            else if fl_incr fl \<and> length rest \<noteq> 2 then refuse ''ERR INCR option supports a single increment-element pair''
            else Inr (key, zadd_step fl rest key)))"

fun zrem_loop :: "RVal list \<Rightarrow> zmap \<Rightarrow> int \<Rightarrow> (zmap \<times> int) option" where
  "zrem_loop [] z removed = Some (z, removed)"
| "zrem_loop (a # as) z removed =
     (case argString a of
        None \<Rightarrow> None
      | Some m \<Rightarrow>
          if map_of z m \<noteq> None then zrem_loop as (AList.delete m z) (removed + 1) else zrem_loop as z removed)"

text \<open>The notifications of a removal.\<close>

definition gone_notes :: "string \<Rightarrow> string \<Rightarrow> bool \<Rightarrow> zmap \<Rightarrow> noted" where
  "gone_notes event key some z =
     (if some then (''z'', event, key) # (if z = [] then [(''g'', ''del'', key)] else []) else [])"

definition zrem_step :: "RVal list \<Rightarrow> string \<Rightarrow> zmap step" where
  "zrem_step ms key old =
     (case old of
        None \<Rightarrow> (Ok (Integer 0), Keep, [])
      | Some (z, expiry) \<Rightarrow>
          (case zrem_loop ms z 0 of
             None \<Rightarrow> (Ok (RError ''ERR invalid member''), Keep, [])
           | Some (out, removed) \<Rightarrow>
               (Ok (Integer removed), keep_zset out expiry, gone_notes ''zrem'' key (0 < removed) out)))"

definition zrem :: "RVal list \<Rightarrow> zmap parsed" where
  "zrem args =
     (if length args < 2 then refuse (wrongargs ''zrem'')
      else need_key (args ! 0) (\<lambda>key. Inr (key, zrem_step (tl args) key)))"

definition score_or_nil :: "zmap \<Rightarrow> bytes \<Rightarrow> RVal" where
  "score_or_nil z m = (case map_of z m of None \<Rightarrow> NilBulk | Some s \<Rightarrow> score_bulk s)"

definition zscore :: "RVal list \<Rightarrow> zmap parsed" where
  "zscore args =
     (if length args \<noteq> 2 then refuse (wrongargs ''zscore'')
      else need_key (args ! 0) (\<lambda>key. Inr (key, look NilBulk (\<lambda>z.
        case argString (args ! 1) of None \<Rightarrow> RError ''ERR invalid member'' | Some m \<Rightarrow> score_or_nil z m))))"

fun zmscore_loop :: "RVal list \<Rightarrow> zmap \<Rightarrow> RVal list \<Rightarrow> RVal list option" where
  "zmscore_loop [] z out = Some out"
| "zmscore_loop (a # as) z out =
     (case argString a of None \<Rightarrow> None | Some m \<Rightarrow> zmscore_loop as z (out @ [score_or_nil z m]))"

definition zmscore_reply :: "RVal list \<Rightarrow> zmap \<Rightarrow> RVal" where
  "zmscore_reply ms z =
     (case zmscore_loop ms z [] of None \<Rightarrow> RError ''ERR invalid member'' | Some out \<Rightarrow> Array (Some out))"

definition zmscore :: "RVal list \<Rightarrow> zmap parsed" where
  "zmscore args =
     (if length args < 2 then refuse (wrongargs ''zmscore'')
      else need_key (args ! 0) (\<lambda>key. Inr (key, look (zmscore_reply (tl args) []) (zmscore_reply (tl args)))))"

definition zcard :: "RVal list \<Rightarrow> zmap parsed" where
  "zcard args =
     (if length args \<noteq> 1 then refuse (wrongargs ''zcard'')
      else need_key (args ! 0) (\<lambda>key. Inr (key, look (Integer 0) (\<lambda>z. Integer (int (length z))))))"

definition zincrby_step :: "float64 \<Rightarrow> bytes \<Rightarrow> string \<Rightarrow> zmap step" where
  "zincrby_step delta m key old =
     (case or_zero old of (z, expiry) \<Rightarrow>
        let ns = f64_add (getd 0 z m) delta in
        if IsNaN ns \<or> IsInf ns then (Ok (RError outofrange), Keep, [])
        else (Ok (score_bulk ns), keep_zset (AList.update m ns z) expiry, [(''z'', ''zincr'', key)]))"

definition zincrby :: "RVal list \<Rightarrow> zmap parsed" where
  "zincrby args =
     (if length args \<noteq> 3 then refuse (wrongargs ''zincrby'')
      else need_key (args ! 0) (\<lambda>key. need ''ERR invalid increment'' (args ! 1) (\<lambda>s.
        case ParseScore s of
          None \<Rightarrow> refuse notfloat
        | Some delta \<Rightarrow> need ''ERR invalid member'' (args ! 2) (\<lambda>m. Inr (key, zincrby_step delta m key)))))"

text \<open>The position of a member among pairs, counted from \<open>i\<close>.\<close>

fun rank_from :: "(bytes \<times> float64) list \<Rightarrow> bytes \<Rightarrow> int \<Rightarrow> (int \<times> float64) option" where
  "rank_from [] member i = None"
| "rank_from ((m, s) # ps) member i = (if m = member then Some (i, s) else rank_from ps member (i + 1))"

definition rankOf :: "zmap \<Rightarrow> bytes \<Rightarrow> bool \<Rightarrow> (int \<times> float64) option" where
  "rankOf z member reverse =
     (let sorted = sortedZSet z
      in case rank_from sorted member 0 of
           None \<Rightarrow> None
         | Some (i, s) \<Rightarrow> Some (if reverse then int (length sorted) - 1 - i else i, s))"

definition rank_reply :: "bool \<Rightarrow> bool \<Rightarrow> RVal \<Rightarrow> zmap \<Rightarrow> RVal" where
  "rank_reply reverse withScore a z =
     (case argString a of
        None \<Rightarrow> RError ''ERR invalid member''
      | Some m \<Rightarrow>
          (case rankOf z m reverse of
             None \<Rightarrow> NilBulk
           | Some (r, s) \<Rightarrow> if withScore then Array (Some [Integer r, score_bulk s]) else Integer r))"

definition rank :: "bool \<Rightarrow> string \<Rightarrow> RVal list \<Rightarrow> zmap parsed" where
  "rank reverse name args =
     (if length args < 2 \<or> 3 < length args then refuse (wrongargs name)
      else if length args = 3 \<and> \<not> (case argString (args ! 2) of None \<Rightarrow> False | Some opt \<Rightarrow> EqualFold opt ''WITHSCORE'')
      then refuse ''ERR syntax error''
      else need_key (args ! 0) (\<lambda>key. Inr (key, look NilBulk (rank_reply reverse (length args = 3) (args ! 1)))))"

definition zrank :: "RVal list \<Rightarrow> zmap parsed" where
  "zrank = rank False ''zrank''"

definition zrevrank :: "RVal list \<Rightarrow> zmap parsed" where
  "zrevrank = rank True ''zrevrank''"

definition need_bound :: "string \<Rightarrow> (scoreBound \<Rightarrow> reply + 'b) \<Rightarrow> reply + 'b" where
  "need_bound s k = (case parseScoreBound s of None \<Rightarrow> refuse badfloat | Some b \<Rightarrow> k b)"

definition zcount :: "RVal list \<Rightarrow> zmap parsed" where
  "zcount args =
     (if length args \<noteq> 3 then refuse (wrongargs ''zcount'')
      else need_key (args ! 0) (\<lambda>key. need ''ERR invalid min'' (args ! 1) (\<lambda>lo. need ''ERR invalid max'' (args ! 2) (\<lambda>hi.
        need_bound lo (\<lambda>lo. need_bound hi (\<lambda>hi.
          Inr (key, look (Integer 0) (\<lambda>z. Integer (int (length (filter (\<lambda>(_, s). inScoreRange s lo hi) z)))))))))))"

definition without :: "(bytes \<times> float64) list \<Rightarrow> zmap \<Rightarrow> zmap" where
  "without ps z = foldl (\<lambda>z p. AList.delete (fst p) z) z ps"

definition ends :: "bool \<Rightarrow> int \<Rightarrow> zmap \<Rightarrow> (bytes \<times> float64) list" where
  "ends reverse cnt z =
     (let sorted = sortedZSet z; sorted = (if reverse then rev sorted else sorted)
      in take (nat (min cnt (int (length sorted)))) sorted)"

definition pair_bulks :: "bytes \<times> float64 \<Rightarrow> RVal list" where
  "pair_bulks p = [BulkOf (fst p), score_bulk (snd p)]"

definition zpop_step :: "bool \<Rightarrow> int \<Rightarrow> zmap step" where
  "zpop_step reverse cnt old =
     (case old of
        None \<Rightarrow> (Ok (Array (Some [])), Keep, [])
      | Some (z, expiry) \<Rightarrow>
          (let popped = ends reverse cnt z
           in (Ok (Array (Some (concat (map pair_bulks popped)))), keep_zset (without popped z) expiry, [])))"

definition parseCount :: "string \<Rightarrow> int option" where
  "parseCount s = ParseInt s"

definition notpositive :: string where
  "notpositive = ''ERR value is out of range, must be positive''"

definition zpop :: "bool \<Rightarrow> string \<Rightarrow> RVal list \<Rightarrow> zmap parsed" where
  "zpop reverse name args =
     (if length args < 1 \<or> 2 < length args then refuse (wrongargs name)
      else need_key (args ! 0) (\<lambda>key.
        if length args = 2 then
          need ''ERR invalid count'' (args ! 1) (\<lambda>s. case parseCount s of
            None \<Rightarrow> refuse notpositive
          | Some cnt \<Rightarrow> if cnt < 0 then refuse notpositive else Inr (key, zpop_step reverse cnt))
        else Inr (key, zpop_step reverse 1)))"

definition zpopmin :: "RVal list \<Rightarrow> zmap parsed" where
  "zpopmin = zpop False ''zpopmin''"

definition zpopmax :: "RVal list \<Rightarrow> zmap parsed" where
  "zpopmax = zpop True ''zpopmax''"

subsection \<open>\<^verbatim>\<open>zset_range.go\<close>\<close>

record lexBound =
  lb_v :: bytes
  lb_ex :: bool
  lb_inf :: int

definition parseLexBound :: "string \<Rightarrow> lexBound option" where
  "parseLexBound s =
     (if s = ''-'' then Some \<lparr> lb_v = [], lb_ex = False, lb_inf = -1 \<rparr>
      else if s = ''+'' then Some \<lparr> lb_v = [], lb_ex = False, lb_inf = 1 \<rparr>
      else if HasPrefix s ''['' then Some \<lparr> lb_v = tl s, lb_ex = False, lb_inf = 0 \<rparr>
      else if HasPrefix s ''('' then Some \<lparr> lb_v = tl s, lb_ex = True, lb_inf = 0 \<rparr>
      else None)"

definition lex_above :: "lexBound \<Rightarrow> bytes \<Rightarrow> bool" where
  "lex_above lo m \<longleftrightarrow> lb_inf lo = 0 \<longrightarrow> lb_v lo < m \<or> (\<not> lb_ex lo \<and> m = lb_v lo)"

definition lex_below :: "lexBound \<Rightarrow> bytes \<Rightarrow> bool" where
  "lex_below hi m \<longleftrightarrow> lb_inf hi = 0 \<longrightarrow> m < lb_v hi \<or> (\<not> lb_ex hi \<and> m = lb_v hi)"

definition lexRangeMembers :: "(bytes \<times> float64) list \<Rightarrow> lexBound \<Rightarrow> lexBound \<Rightarrow> bool \<Rightarrow> (bytes \<times> float64) list" where
  "lexRangeMembers members lo hi reverse =
     (if \<not> reverse
      then takeWhile (\<lambda>e. lex_below hi (fst e)) (dropWhile (\<lambda>e. \<not> lex_above lo (fst e)) members)
      else takeWhile (\<lambda>e. lex_above lo (fst e)) (dropWhile (\<lambda>e. \<not> lex_below hi (fst e)) (rev members)))"

record rangeQuery =
  q_byScore :: bool
  q_byLex :: bool
  q_rev :: bool
  q_withScores :: bool
  q_start :: int
  q_stop :: int
  q_hasRank :: bool
  q_min :: string
  q_max :: string
  q_limitOffset :: int
  q_limitCount :: int
  q_hasLimit :: bool

definition no_query :: rangeQuery where
  "no_query = \<lparr> q_byScore = False, q_byLex = False, q_rev = False, q_withScores = False, q_start = 0, q_stop = 0,
     q_hasRank = False, q_min = [], q_max = [], q_limitOffset = 0, q_limitCount = 0, q_hasLimit = False \<rparr>"

abbreviation badsyntax :: "reply + 'b" where
  "badsyntax \<equiv> refuse ''ERR syntax error''"

fun range_opts :: "RVal list \<Rightarrow> rangeQuery \<Rightarrow> reply + rangeQuery" where
  "range_opts [] q = Inr q"
| "range_opts (a # as) q =
     need ''ERR syntax error'' a (\<lambda>opt.
       if ToUpper opt = ''BYSCORE'' then range_opts as (q\<lparr> q_byScore := True \<rparr>)
       else if ToUpper opt = ''BYLEX'' then range_opts as (q\<lparr> q_byLex := True \<rparr>)
       else if ToUpper opt = ''REV'' then range_opts as (q\<lparr> q_rev := True \<rparr>)
       else if ToUpper opt = ''WITHSCORES'' then range_opts as (q\<lparr> q_withScores := True \<rparr>)
       else if ToUpper opt = ''LIMIT'' then
         (case as of
            off # cnt # as' \<Rightarrow>
              (case (argString off, argString cnt) of
                 (Some os, Some cs) \<Rightarrow>
                   (case (ParseInt os, ParseInt cs) of
                      (Some ov, Some cv) \<Rightarrow> range_opts as' (q\<lparr> q_hasLimit := True, q_limitOffset := ov, q_limitCount := cv \<rparr>)
                    | _ \<Rightarrow> refuse notint)
               | _ \<Rightarrow> badsyntax)
          | _ \<Rightarrow> badsyntax)
       else badsyntax)"

definition range_bounds :: "string \<Rightarrow> string \<Rightarrow> rangeQuery \<Rightarrow> reply + rangeQuery" where
  "range_bounds lo hi q =
     (if q_byScore q \<and> q_byLex q then refuse ''ERR syntax error, BYSCORE and BYLEX are incompatible''
      else if q_byScore q \<or> q_byLex q then
        Inr (if q_rev q then q\<lparr> q_min := hi, q_max := lo \<rparr> else q\<lparr> q_min := lo, q_max := hi \<rparr>)
      else
        (case (ParseInt lo, ParseInt hi) of
           (Some s, Some e) \<Rightarrow>
             if q_hasLimit q then refuse ''ERR syntax error, LIMIT is only supported in combination with either BYSCORE or BYLEX''
             else Inr (q\<lparr> q_hasRank := True, q_start := s, q_stop := e \<rparr>)
         | _ \<Rightarrow> refuse notint))"

definition parseRangeQuery :: "string \<Rightarrow> RVal list \<Rightarrow> (string \<Rightarrow> rangeQuery \<Rightarrow> reply + 'b) \<Rightarrow> reply + 'b" where
  "parseRangeQuery name args k =
     (if length args < 3 then refuse (wrongargs name)
      else need_key (args ! 0) (\<lambda>key. need ''ERR invalid start'' (args ! 1) (\<lambda>lo. need ''ERR invalid stop'' (args ! 2) (\<lambda>hi.
        case range_opts (drop 3 args) no_query of
          Inl r \<Rightarrow> Inl r
        | Inr q \<Rightarrow> (case range_bounds lo hi q of Inl r \<Rightarrow> Inl r | Inr q \<Rightarrow> k key q)))))"

text \<open>The selected pairs before \<^verbatim>\<open>LIMIT\<close> or the ranks apply; bounds that do not parse select nothing.\<close>

definition range_select :: "(bytes \<times> float64) list \<Rightarrow> rangeQuery \<Rightarrow> (bytes \<times> float64) list option" where
  "range_select members q =
     (if q_byScore q then
        (case (parseScoreBound (q_min q), parseScoreBound (q_max q)) of
           (Some lo, Some hi) \<Rightarrow>
             (let out = filter (\<lambda>(_, s). inScoreRange s lo hi) members in Some (if q_rev q then rev out else out))
         | _ \<Rightarrow> None)
      else if q_byLex q then
        (case (parseLexBound (q_min q), parseLexBound (q_max q)) of
           (Some lo, Some hi) \<Rightarrow> Some (lexRangeMembers members lo hi (q_rev q))
         | _ \<Rightarrow> None)
      else Some (if q_rev q then rev members else members))"

text \<open>\<open>None\<close> is the panic of the slice expression, when offset and count together exceed 64 bits.\<close>

definition range_limit :: "int \<Rightarrow> int \<Rightarrow> 'a list \<Rightarrow> 'a list option" where
  "range_limit off0 cnt out =
     (let off = (if off0 < 0 then 0 else off0); n = int (length out)
      in if n \<le> off \<or> cnt < 0 then Some []
         else let stop = wrap64 (off + cnt); stop = (if cnt < 0 \<or> n < stop then n else stop)
              in if stop < off then None else Some (take (nat (stop - off)) (drop (nat off) out)))"

definition evalRange :: "(bytes \<times> float64) list \<Rightarrow> rangeQuery \<Rightarrow> (bytes \<times> float64) list option" where
  "evalRange members q =
     (case range_select members q of
        None \<Rightarrow> Some []
      | Some out \<Rightarrow>
          if q_hasLimit q then range_limit (q_limitOffset q) (q_limitCount q) out
          else if q_hasRank q then
            (case normalizeRange (q_start q) (q_stop q) (int (length out)) of
               None \<Rightarrow> Some []
             | Some (lo, hi) \<Rightarrow> Some (take (nat (hi + 1 - lo)) (drop (nat lo) out)))
          else Some out)"

definition rangeReply :: "bool \<Rightarrow> (bytes \<times> float64) list \<Rightarrow> RVal" where
  "rangeReply withScores members =
     Array (Some (concat (map (\<lambda>p. BulkOf (fst p) # (if withScores then [score_bulk (snd p)] else [])) members)))"

definition range_step :: "rangeQuery \<Rightarrow> bool \<Rightarrow> zmap step" where
  "range_step q withScores old =
     (case old of
        None \<Rightarrow> (Ok (Array (Some [])), Keep, [])
      | Some (z, _) \<Rightarrow>
          (case evalRange (sortedZSet z) q of None \<Rightarrow> Panic | Some ps \<Rightarrow> Ok (rangeReply withScores ps), Keep, []))"

definition check_score :: "rangeQuery \<Rightarrow> (reply + 'b) \<Rightarrow> reply + 'b" where
  "check_score q k = need_bound (q_min q) (\<lambda>_. need_bound (q_max q) (\<lambda>_. k))"

definition check_lex :: "RVal \<Rightarrow> rangeQuery \<Rightarrow> (reply + 'b) \<Rightarrow> reply + 'b" where
  "check_lex v q k = (if parseLexBound (q_min q) = None \<or> parseLexBound (q_max q) = None then Inl (Ok v) else k)"

definition check_range :: "RVal \<Rightarrow> rangeQuery \<Rightarrow> (reply + 'b) \<Rightarrow> reply + 'b" where
  "check_range v q k =
     (if q_byScore q then check_score q k else if q_byLex q then check_lex v q k else k)"

definition zrange :: "RVal list \<Rightarrow> zmap parsed" where
  "zrange args =
     parseRangeQuery ''zrange'' args (\<lambda>key q.
       check_range (Array (Some [])) q (Inr (key, range_step q (q_withScores q))))"

definition zrevrange :: "RVal list \<Rightarrow> zmap parsed" where
  "zrevrange args =
     (if length args < 3 \<or> 4 < length args then refuse (wrongargs ''zrevrange'')
      else if length args = 4 \<and> \<not> (case argString (args ! 3) of None \<Rightarrow> False | Some opt \<Rightarrow> EqualFold opt ''WITHSCORES'')
      then badsyntax
      else
        (let withScores = (length args = 4)
         in parseRangeQuery ''zrevrange'' (take 3 args @ BulkOf ''REV'' # (if withScores then [BulkOf ''WITHSCORES''] else []))
              (\<lambda>key q. Inr (key, range_step q withScores))))"

definition scoreRangeArgs ::
  "string \<Rightarrow> RVal list \<Rightarrow> string \<Rightarrow> bool \<Rightarrow> (string \<Rightarrow> rangeQuery \<Rightarrow> reply + 'b) \<Rightarrow> reply + 'b" where
  "scoreRangeArgs key args name reverse k =
     parseRangeQuery name (BulkOf key # args @ BulkOf ''BYSCORE'' # (if reverse then [BulkOf ''REV''] else [])) k"

definition is_withscores :: "RVal \<Rightarrow> bool" where
  "is_withscores a = (case argString a of None \<Rightarrow> False | Some opt \<Rightarrow> EqualFold opt ''WITHSCORES'')"

definition range_by_score :: "string \<Rightarrow> bool \<Rightarrow> RVal list \<Rightarrow> zmap parsed" where
  "range_by_score name reverse args =
     (if length args < 3 then refuse (wrongargs name)
      else need_key (args ! 0) (\<lambda>key.
        let withScores = list_ex is_withscores (tl args); kept = filter (\<lambda>a. \<not> is_withscores a) (tl args)
        in scoreRangeArgs key kept name reverse (\<lambda>k q.
             check_score q (Inr (k, range_step (q\<lparr> q_withScores := withScores \<rparr>) withScores)))))"

definition zrangebyscore :: "RVal list \<Rightarrow> zmap parsed" where
  "zrangebyscore = range_by_score ''zrangebyscore'' False"

definition zrevrangebyscore :: "RVal list \<Rightarrow> zmap parsed" where
  "zrevrangebyscore = range_by_score ''zrevrangebyscore'' True"

definition lexRangeArgs ::
  "string \<Rightarrow> RVal list \<Rightarrow> string \<Rightarrow> bool \<Rightarrow> (string \<Rightarrow> rangeQuery \<Rightarrow> reply + 'b) \<Rightarrow> reply + 'b" where
  "lexRangeArgs key args name reverse k =
     parseRangeQuery name (BulkOf key # args @ BulkOf ''BYLEX'' # (if reverse then [BulkOf ''REV''] else [])) k"

definition range_by_lex :: "string \<Rightarrow> bool \<Rightarrow> RVal list \<Rightarrow> zmap parsed" where
  "range_by_lex name reverse args =
     (if length args < 3 then refuse (wrongargs name)
      else need_key (args ! 0) (\<lambda>key. lexRangeArgs key (tl args) name reverse (\<lambda>k q.
        check_lex (Array (Some [])) q (Inr (k, range_step q False)))))"

definition zrangebylex :: "RVal list \<Rightarrow> zmap parsed" where
  "zrangebylex = range_by_lex ''zrangebylex'' False"

definition zrevrangebylex :: "RVal list \<Rightarrow> zmap parsed" where
  "zrevrangebylex = range_by_lex ''zrevrangebylex'' True"

definition arg_or_empty :: "RVal \<Rightarrow> string" where
  "arg_or_empty a = (case argString a of None \<Rightarrow> [] | Some s \<Rightarrow> s)"

definition remrank_step :: "int \<Rightarrow> int \<Rightarrow> string \<Rightarrow> zmap step" where
  "remrank_step start stop key old =
     (case old of
        None \<Rightarrow> (Ok (Integer 0), Keep, [])
      | Some (z, expiry) \<Rightarrow>
          (let sorted = sortedZSet z
           in case normalizeRange start stop (int (length sorted)) of
                None \<Rightarrow> (Ok (Integer 0), Keep, [])
              | Some (lo, hi) \<Rightarrow>
                  (let out = without (take (nat (hi + 1 - lo)) (drop (nat lo) sorted)) z
                   in (Ok (Integer (hi - lo + 1)), keep_zset out expiry, gone_notes ''zrembyrank'' key True out))))"

definition zremrangebyrank :: "RVal list \<Rightarrow> zmap parsed" where
  "zremrangebyrank args =
     (if length args \<noteq> 3 then refuse (wrongargs ''zremrangebyrank'')
      else need_key (args ! 0) (\<lambda>key.
        case (ParseInt (arg_or_empty (args ! 1)), ParseInt (arg_or_empty (args ! 2))) of
          (Some start, Some stop) \<Rightarrow> Inr (key, remrank_step start stop key)
        | _ \<Rightarrow> refuse notint))"

definition remscore_step :: "scoreBound \<Rightarrow> scoreBound \<Rightarrow> string \<Rightarrow> zmap step" where
  "remscore_step lo hi key old =
     (case old of
        None \<Rightarrow> (Ok (Integer 0), Keep, [])
      | Some (z, expiry) \<Rightarrow>
          (let out = filter (\<lambda>(_, s). \<not> inScoreRange s lo hi) z; n = int (length z) - int (length out)
           in (Ok (Integer n), keep_zset out expiry, gone_notes ''zrembyscore'' key (0 < n) out)))"

definition zremrangebyscore :: "RVal list \<Rightarrow> zmap parsed" where
  "zremrangebyscore args =
     (if length args \<noteq> 3 then refuse (wrongargs ''zremrangebyscore'')
      else need_key (args ! 0) (\<lambda>key.
        need_bound (arg_or_empty (args ! 1)) (\<lambda>lo. need_bound (arg_or_empty (args ! 2)) (\<lambda>hi.
          Inr (key, remscore_step lo hi key)))))"

definition remlex_step :: "lexBound \<Rightarrow> lexBound \<Rightarrow> zmap step" where
  "remlex_step lo hi old =
     (case old of
        None \<Rightarrow> (Ok (Integer 0), Keep, [])
      | Some (z, expiry) \<Rightarrow>
          (let out = without (lexRangeMembers (sortedZSet z) lo hi False) z
           in (Ok (Integer (int (length z) - int (length out))), keep_zset out expiry, [])))"

definition zremrangebylex :: "RVal list \<Rightarrow> zmap parsed" where
  "zremrangebylex args =
     (if length args \<noteq> 3 then refuse (wrongargs ''zremrangebylex'')
      else need_key (args ! 0) (\<lambda>key.
        case (parseLexBound (arg_or_empty (args ! 1)), parseLexBound (arg_or_empty (args ! 2))) of
          (Some lo, Some hi) \<Rightarrow> Inr (key, remlex_step lo hi)
        | _ \<Rightarrow> Inl (Ok (Integer 0))))"

subsection \<open>\<^verbatim>\<open>zset_scan.go\<close>\<close>

definition zrand_emit :: "bool \<Rightarrow> bytes \<times> float64 \<Rightarrow> RVal" where
  "zrand_emit withScores p = (if withScores then Array (Some (pair_bulks p)) else BulkOf (fst p))"

text \<open>\<^verbatim>\<open>rand.Intn(0)\<close> panics, and so does \<^verbatim>\<open>make\<close> with a capacity that is negative or too large.\<close>

definition zrand_reply ::
  "(nat \<Rightarrow> nat list) \<Rightarrow> (nat \<Rightarrow> nat \<Rightarrow> nat) \<Rightarrow> int option \<Rightarrow> bool \<Rightarrow> zmap \<Rightarrow> reply" where
  "zrand_reply perm intn cnt withScores z =
     (let members = sortedZSet z; len = length members in
      case cnt of
        None \<Rightarrow> if members = [] then Ok NilBulk else Ok (BulkOf (fst (members ! intn 0 len)))
      | Some c \<Rightarrow>
          if c = 0 then Ok (Array (Some []))
          else if 0 < c then
            Ok (Array (Some (map (zrand_emit withScores)
              (if int len \<le> c then members else map (\<lambda>i. members ! i) (take (nat c) (perm len))))))
          else let n = wrap64 (- c) in
            if n < 0 \<or> \<not> makeslice_ok 136 (nat n) \<or> members = [] then Panic
            else Ok (Array (Some (map (\<lambda>i. zrand_emit withScores (members ! intn i len)) [0..<nat n]))))"

definition zrandmember :: "(nat \<Rightarrow> nat list) \<Rightarrow> (nat \<Rightarrow> nat \<Rightarrow> nat) \<Rightarrow> RVal list \<Rightarrow> zmap parsed" where
  "zrandmember perm intn args =
     (if length args < 1 \<or> 3 < length args then refuse (wrongargs ''zrandmember'')
      else need_key (args ! 0) (\<lambda>key.
        if length args = 1 then
          Inr (key, \<lambda>old. case old of None \<Rightarrow> (Ok NilBulk, Keep, []) | Some (z, _) \<Rightarrow> (zrand_reply perm intn None False z, Keep, []))
        else need ''ERR invalid count'' (args ! 1) (\<lambda>s. case parseCount s of
          None \<Rightarrow> refuse notint
        | Some cnt \<Rightarrow>
            if length args = 3 \<and> \<not> is_withscores (args ! 2) then badsyntax
            else Inr (key, \<lambda>old. case old of
                None \<Rightarrow> (Ok (Array (Some [])), Keep, [])
              | Some (z, _) \<Rightarrow> (zrand_reply perm intn (Some cnt) (length args = 3) z, Keep, [])))))"

definition zscan :: "RVal list \<Rightarrow> zmap parsed" where
  "zscan args =
     (if length args < 2 then refuse (wrongargs ''zscan'')
      else need_key (args ! 0) (\<lambda>key. scan_cursor (args ! 1) (\<lambda>cursor.
        case scan_parse False False (drop 2 args) scan_default of
          Inl r \<Rightarrow> Inl r
        | Inr opts \<Rightarrow> Inr (key, \<lambda>old.
            (case old of
               None \<Rightarrow> Ok (scan_reply 0 [])
             | Some (z, _) \<Rightarrow>
                 scan_answer cursor (sc_count opts) (filter (\<lambda>p. path_ok (sc_match opts) (fst p)) (sortedZSet z)) pair_bulks,
             Keep, [])))))"

definition zset_steps ::
  "(nat \<Rightarrow> nat list) \<Rightarrow> (nat \<Rightarrow> nat \<Rightarrow> nat) \<Rightarrow> (string \<times> (RVal list \<Rightarrow> zmap parsed)) list" where
  "zset_steps perm intn =
     [(''ZADD'', zadd), (''ZREM'', zrem), (''ZSCORE'', zscore), (''ZMSCORE'', zmscore), (''ZCARD'', zcard), (''ZINCRBY'', zincrby),
      (''ZRANK'', zrank), (''ZREVRANK'', zrevrank), (''ZCOUNT'', zcount), (''ZPOPMIN'', zpopmin), (''ZPOPMAX'', zpopmax),
      (''ZRANGE'', zrange), (''ZREVRANGE'', zrevrange), (''ZRANGEBYSCORE'', zrangebyscore), (''ZREVRANGEBYSCORE'', zrevrangebyscore),
      (''ZRANGEBYLEX'', zrangebylex), (''ZREVRANGEBYLEX'', zrevrangebylex), (''ZREMRANGEBYRANK'', zremrangebyrank),
      (''ZREMRANGEBYSCORE'', zremrangebyscore), (''ZREMRANGEBYLEX'', zremrangebylex), (''ZRANDMEMBER'', zrandmember perm intn),
      (''ZSCAN'', zscan)]"

subsection \<open>Refinement\<close>

lemma keep_zset_tag [simp]: "int64_range x \<Longrightarrow> act_tag TypeZSet (keep_zset z x)"
  by (simp add: keep_zset_def)

lemma range_zero [simp]: "int64_range 0"
  by (simp add: int64_range_def)

lemma zadd_incr_ok: "int64_range x \<Longrightarrow> act_tag TypeZSet (fst (snd (zadd_incr fl rest z x)))"
  by (simp add: zadd_incr_def Let_def split: sum.split)

lemma zset_steps_ok [step_oks]:
  "act_tag TypeZSet (fst (snd (zadd_step fl rest key None)))"
  "int64_range x \<Longrightarrow> act_tag TypeZSet (fst (snd (zadd_step fl rest key (Some (z, x)))))"
  "act_tag TypeZSet (fst (snd (zrem_step ms key None)))"
  "int64_range x \<Longrightarrow> act_tag TypeZSet (fst (snd (zrem_step ms key (Some (z, x)))))"
  "act_tag TypeZSet (fst (snd (zincrby_step f m key None)))"
  "int64_range x \<Longrightarrow> act_tag TypeZSet (fst (snd (zincrby_step f m key (Some (z, x)))))"
  "act_tag TypeZSet (fst (snd (zpop_step reverse n None)))"
  "int64_range x \<Longrightarrow> act_tag TypeZSet (fst (snd (zpop_step reverse n (Some (z, x)))))"
  "act_tag TypeZSet (fst (snd (range_step q ws None)))"
  "act_tag TypeZSet (fst (snd (range_step q ws (Some (z, x)))))"
  "act_tag TypeZSet (fst (snd (remrank_step i j key None)))"
  "int64_range x \<Longrightarrow> act_tag TypeZSet (fst (snd (remrank_step i j key (Some (z, x)))))"
  "act_tag TypeZSet (fst (snd (remscore_step lo hi key None)))"
  "int64_range x \<Longrightarrow> act_tag TypeZSet (fst (snd (remscore_step lo hi key (Some (z, x)))))"
  "act_tag TypeZSet (fst (snd (remlex_step lo' hi' None)))"
  "int64_range x \<Longrightarrow> act_tag TypeZSet (fst (snd (remlex_step lo' hi' (Some (z, x)))))"
  by (simp_all add: zadd_step_def zadd_incr_ok zrem_step_def zincrby_step_def zpop_step_def range_step_def remrank_step_def
      remscore_step_def remlex_step_def Let_def split: option.split prod.split sum.split)

lemma step_ok_need_bound [step_oks]: "(\<And>b. step_ok tag (f b)) \<Longrightarrow> step_ok tag (need_bound s f)"
  unfolding need_bound_def by (intro step_oks)

lemma step_ok_check [step_oks]:
  "step_ok tag k \<Longrightarrow> step_ok tag (check_score q k)" "step_ok tag k \<Longrightarrow> step_ok tag (check_lex v q k)"
  "step_ok tag k \<Longrightarrow> step_ok tag (check_range v q k)"
  unfolding check_range_def check_score_def check_lex_def by (intro step_oks; assumption)+

lemma step_ok_parseRangeQuery [step_oks]: "(\<And>key q. step_ok tag (f key q)) \<Longrightarrow> step_ok tag (parseRangeQuery name args f)"
  unfolding parseRangeQuery_def by (intro step_oks)

lemma zset_steps_typed:
  assumes "map_of (zset_steps perm intn) name = Some p"
  shows "step_ok TypeZSet (p args)"
  using assms unfolding zset_steps_def
  by (auto split: if_splits simp: zadd_def zrem_def zscore_def zmscore_def zcard_def zincrby_def zrank_def zrevrank_def rank_def
      zcount_def zpopmin_def zpopmax_def zpop_def zrange_def zrevrange_def zrangebyscore_def zrevrangebyscore_def range_by_score_def
      scoreRangeArgs_def zrangebylex_def zrevrangebylex_def range_by_lex_def lexRangeArgs_def zremrangebyrank_def
      zremrangebyscore_def zremrangebylex_def zrandmember_def zscan_def intro!: step_oks)

context kv_store
begin

lemma sim_readZSet [sim_intros]: "msim (readZSet K now key) (readZSet M now key)"
  unfolding readZSet_def by (intro sim_intros)

lemma sim_writeZSet [sim_intros]: "msim (writeZSet K key z x) (writeZSet M key z x)"
  unfolding writeZSet_def by (intro sim_intros)

lemma sim_zset_cmd [sim_intros]: "msim (zset_cmd K now p) (zset_cmd M now p)"
  unfolding zset_cmd_def by (intro sim_intros)

end

lemma zset_cmd_refines: "step_ok TypeZSet p \<Longrightarrow> refines now (zset_cmd (map_kv T) now p) (parsed_spec TypeZSet zset_dec p)"
  unfolding zset_cmd_def by (rule cell_cmd_refines) simp_all

subsection \<open>The order of a sorted set\<close>

text \<open>A map without NaN scores. Every command but the weighted sums keeps it so.\<close>

definition zset_ok :: "zmap \<Rightarrow> bool" where
  "zset_ok z \<longleftrightarrow> gomap z \<and> list_all (\<lambda>p. \<not> IsNaN (snd p)) z"

lemma sortedZSet_props [simp]:
  "mset (sortedZSet z) = mset z" "set (sortedZSet z) = set z" "length (sortedZSet z) = length z"
  by (simp_all add: sortedZSet_def)

lemma zset_less_total:
  "\<not> IsNaN (snd p) \<Longrightarrow> \<not> IsNaN (snd q) \<Longrightarrow> fst p \<noteq> fst q \<Longrightarrow> \<not> zset_less q p \<Longrightarrow> zset_less p q"
  by (auto simp: zset_less_def f64_lt_def f64_eq_def)

lemma sortedZSet_keys: "gomap z \<Longrightarrow> distinct (keys_of (sortedZSet z))"
  using distinct_keys_sort_zset [of z] by (simp add: sortedZSet_def sortZSetPairs_def)

lemma sortedZSet_sorted:
  assumes "zset_ok z"
  shows "sorted_wrt zset_less (sortedZSet z)"
proof -
  have nan: "list_all (\<lambda>p. \<not> IsNaN (snd p)) z" and g: "gomap z" using assms by (simp_all add: zset_ok_def)
  have S: "sorted_wrt (\<lambda>a b. \<not> zset_less b a) (sortedZSet z)"
    unfolding sortedZSet_def by (rule zset_order.insertion_sort_sorted [OF nan])
  show ?thesis unfolding sorted_wrt_iff_nth_less
  proof (intro allI impI)
    fix i j assume ij: "i < j" "j < length (sortedZSet z)"
    let ?p = "sortedZSet z ! i" and ?q = "sortedZSet z ! j"
    have "\<not> zset_less ?q ?p" using S ij by (simp add: sorted_wrt_iff_nth_less)
    moreover have "fst ?p \<noteq> fst ?q"
      using sortedZSet_keys [OF g] ij nth_eq_iff_index_eq [of "keys_of (sortedZSet z)" i j] by simp
    moreover have "?p \<in> set z" "?q \<in> set z" using ij nth_mem [of _ "sortedZSet z"] by auto
    ultimately show "zset_less ?p ?q" using nan by (intro zset_less_total) (auto simp: list_all_iff)
  qed
qed

lemma zset_less_asym: "zset_less p q \<Longrightarrow> \<not> zset_less q p"
  by (auto simp: zset_less_def f64_lt_def f64_eq_def)

text \<open>In a strictly sorted list the elements below the i-th are the first i.\<close>

lemma below_nth:
  assumes "sorted_wrt R xs" "i < length xs" and asym: "\<And>x y. R x y \<Longrightarrow> \<not> R y x"
  shows "{x \<in> set xs. R x (xs ! i)} = set (take i xs)"
proof -
  have split: "xs = take i xs @ xs ! i # drop (Suc i) xs" by (rule id_take_nth_drop [OF assms(2)])
  then have "set xs = set (take i xs @ xs ! i # drop (Suc i) xs)" by (rule arg_cong)
  then have xs: "x \<in> set xs \<longleftrightarrow> x \<in> set (take i xs) \<or> x = xs ! i \<or> x \<in> set (drop (Suc i) xs)" for x by auto
  have "sorted_wrt R (take i xs @ xs ! i # drop (Suc i) xs)" using assms(1) split by metis
  then have "\<And>x. x \<in> set (take i xs) \<Longrightarrow> R x (xs ! i)" "\<And>x. x \<in> set (drop (Suc i) xs) \<Longrightarrow> R (xs ! i) x"
    unfolding sorted_wrt_append by auto
  moreover have "\<not> R (xs ! i) (xs ! i)" using asym by blast
  ultimately show ?thesis using xs asym by blast
qed

lemma strictly_sorted_distinct: "sorted_wrt R xs \<Longrightarrow> (\<And>x y. R x y \<Longrightarrow> \<not> R y x) \<Longrightarrow> distinct xs"
  by (induction xs) auto

lemma count_below:
  assumes "sorted_wrt R xs" "i < length xs" "\<And>x y. R x y \<Longrightarrow> \<not> R y x"
  shows "card {x \<in> set xs. R x (xs ! i)} = i"
proof -
  have "distinct (take i xs)" using strictly_sorted_distinct [OF assms(1,3)] by (simp add: distinct_take)
  then have "card (set (take i xs)) = i" using assms(2) by (simp add: distinct_card)
  with below_nth [OF assms] show ?thesis by simp
qed

text \<open>Ascending order, and descending order for the reversed commands.\<close>

definition zset_before :: "bool \<Rightarrow> bytes \<times> float64 \<Rightarrow> bytes \<times> float64 \<Rightarrow> bool" where
  "zset_before reverse p q = (if reverse then zset_less q p else zset_less p q)"

definition in_order :: "bool \<Rightarrow> zmap \<Rightarrow> (bytes \<times> float64) list" where
  "in_order reverse z = (if reverse then rev (sortedZSet z) else sortedZSet z)"

lemma before_asym: "zset_before b x y \<Longrightarrow> \<not> zset_before b y x"
  using zset_less_asym by (auto simp: zset_before_def)

lemma in_order_sorted: "zset_ok z \<Longrightarrow> sorted_wrt (zset_before b) (in_order b z)"
  using sortedZSet_sorted [of z] by (cases b) (simp_all add: in_order_def zset_before_def [abs_def] sorted_wrt_rev)

lemma in_order_props [simp]: "set (in_order b z) = set z" "length (in_order b z) = length z" "mset (in_order b z) = mset z"
  by (simp_all add: in_order_def)

definition zrank_of :: "bool \<Rightarrow> zmap \<Rightarrow> bytes \<times> float64 \<Rightarrow> nat" where
  "zrank_of b z p = card {x \<in> set z. zset_before b x p}"

lemma zrank_of_nth: "zset_ok z \<Longrightarrow> i < length z \<Longrightarrow> zrank_of b z (in_order b z ! i) = i"
  using count_below [OF in_order_sorted [of z b], of i] before_asym by (simp add: zrank_of_def)

lemma rank_from_nth:
  "distinct (keys_of ps) \<Longrightarrow> i < length ps \<Longrightarrow> rank_from ps (fst (ps ! i)) n = Some (n + int i, snd (ps ! i))"
proof (induction ps arbitrary: i n)
  case (Cons p ps)
  obtain m s where p: "p = (m, s)" by (cases p)
  show ?case
  proof (cases i)
    case (Suc j)
    then have "fst (ps ! j) \<in> set (keys_of ps)" using Cons.prems(2) by simp
    then have "m \<noteq> fst (ps ! j)" using Cons.prems(1) p by auto
    with Cons Suc p show ?thesis by (simp add: algebra_simps)
  qed (simp add: p)
qed simp

lemma rank_from_None: "m \<notin> set (keys_of ps) \<Longrightarrow> rank_from ps m n = None"
  by (induction ps m n rule: rank_from.induct) auto

lemma distinct_pairs: "distinct (keys_of ps) \<Longrightarrow> distinct ps"
  by (simp add: distinct_map)

text \<open>C38. The rank of a member. On a sorted set \<^verbatim>\<open>ZRANK\<close> finds a member exactly when it is there, and its rank is the number of members
  that come before it by score, members of equal score by name; \<^verbatim>\<open>ZREVRANK\<close> counts those that come after it.\<close>

theorem zrank_counts:
  assumes "zset_ok z"
  shows "rankOf z m b = map_option (\<lambda>s. (int (zrank_of b z (m, s)), s)) (map_of z m)"
proof (cases "map_of z m")
  case None
  then have "m \<notin> set (keys_of (sortedZSet z))" using map_of_eq_None_iff [of z m] by auto
  with None show ?thesis by (simp add: rankOf_def rank_from_None)
next
  case (Some s)
  let ?xs = "sortedZSet z" and ?n = "length z"
  from Some have "(m, s) \<in> set ?xs" by (simp add: map_of_SomeD)
  then obtain i where i: "i < length ?xs" "?xs ! i = (m, s)" unfolding in_set_conv_nth by blast
  have g: "gomap z" using assms by (simp add: zset_ok_def)
  have R: "rank_from ?xs m 0 = Some (int i, s)" using rank_from_nth [OF sortedZSet_keys [OF g] i(1), of 0] i(2) by simp
  have "in_order True z ! (?n - 1 - i) = (m, s)" "in_order False z ! i = (m, s)" using i by (simp_all add: in_order_def rev_nth)
  then have "zrank_of True z (m, s) = ?n - 1 - i" "zrank_of False z (m, s) = i"
    using zrank_of_nth [OF assms, of "?n - 1 - i" True] zrank_of_nth [OF assms, of i False] i(1) by simp_all
  with Some R i(1) show ?thesis by (cases b) (simp_all add: rankOf_def of_nat_diff)
qed

lemma less_examples:
  "zset_less (''a'', 0x4000000000000000) (''b'', 0x4000000000000000)" "zset_less (''c'', 0x3FF0000000000000) (''b'', 0x4000000000000000)"
  by (simp_all add: zset_less_def f64_lt_def f64_eq_def IsNaN_def f64_mag_def f64_key_def less_char_def)

theorem zrank_counts_witness:
  "rankOf [(''b'', 0x4000000000000000), (''a'', 0x4000000000000000), (''c'', 0x3FF0000000000000)] ''b'' False
    = Some (2, 0x4000000000000000)"
proof -
  let ?b = "(''b'', 0x4000000000000000) :: bytes \<times> float64" and ?a = "(''a'', 0x4000000000000000) :: bytes \<times> float64"
    and ?c = "(''c'', 0x3FF0000000000000) :: bytes \<times> float64"
  have ok: "zset_ok [?b, ?a, ?c]" by (simp add: zset_ok_def gomap_def IsNaN_def f64_mag_def)
  have "\<not> zset_less ?b ?b" using zset_less_asym by blast
  then have "{x \<in> set [?b, ?a, ?c]. zset_before False x ?b} = {?a, ?c}"
    unfolding zset_before_def using less_examples by (simp only: if_False list.set) blast
  moreover have "card {?a, ?c} = 2" by simp
  ultimately have "zrank_of False [?b, ?a, ?c] ?b = 2" by (simp only: zrank_of_def)
  with zrank_counts [OF ok, of "''b''" False] show ?thesis by simp
qed

lemma distinct_singleton_conv: "distinct xs \<Longrightarrow> set xs = {x} \<Longrightarrow> xs = [x]"
  by (cases xs; cases "tl xs") auto

subsection \<open>Ranges\<close>

lemma slice_ranks:
  fixes b :: bool
  assumes "zset_ok z" "0 \<le> lo" "lo \<le> hi" "hi < int (length z)"
  defines "ps \<equiv> take (nat (hi + 1 - lo)) (drop (nat lo) (in_order b z))"
  shows "sorted_wrt (zset_before b) ps" "set ps = {p \<in> set z. lo \<le> int (zrank_of b z p) \<and> int (zrank_of b z p) \<le> hi}"
proof -
  let ?xs = "in_order b z"
  show "sorted_wrt (zset_before b) ps" unfolding ps_def by (intro sorted_wrt_take sorted_wrt_drop in_order_sorted assms)
  show "set ps = {p \<in> set z. lo \<le> int (zrank_of b z p) \<and> int (zrank_of b z p) \<le> hi}"
  proof (intro set_eqI iffI)
    fix p assume "p \<in> set ps"
    then obtain i where i: "i < nat (hi + 1 - lo)" "i < length z - nat lo" "p = ?xs ! (nat lo + i)"
      by (auto simp: ps_def in_set_conv_nth)
    then have "nat lo + i < length z" by linarith
    moreover from this have "p \<in> set z" using i(3) nth_mem [of "nat lo + i" ?xs] by simp
    ultimately show "p \<in> {p \<in> set z. lo \<le> int (zrank_of b z p) \<and> int (zrank_of b z p) \<le> hi}"
      using i assms(2,3) zrank_of_nth [OF assms(1), of "nat lo + i" b] by simp
  next
    fix p assume p: "p \<in> {p \<in> set z. lo \<le> int (zrank_of b z p) \<and> int (zrank_of b z p) \<le> hi}"
    then have "p \<in> set ?xs" by simp
    then obtain i where i: "i < length ?xs" "p = ?xs ! i" unfolding in_set_conv_nth by blast
    then have r: "lo \<le> int i" "int i \<le> hi" using p zrank_of_nth [OF assms(1), of i b] by simp_all
    have "?xs ! i = drop (nat lo) ?xs ! (i - nat lo)" using i(1) r assms(2) by simp
    moreover have "i - nat lo < nat (hi + 1 - lo)" "i - nat lo < length (drop (nat lo) ?xs)" using i(1) r assms(2) by simp_all
    ultimately show "p \<in> set ps" using i(2) unfolding ps_def in_set_conv_nth by (intro exI [of _ "i - nat lo"]) simp
  qed
qed

lemma zrank_less: "zset_ok z \<Longrightarrow> p \<in> set z \<Longrightarrow> zrank_of b z p < length z"
proof -
  assume ok: "zset_ok z" and "p \<in> set z"
  then have "p \<in> set (in_order b z)" by simp
  then obtain i where i: "i < length (in_order b z)" "p = in_order b z ! i" unfolding in_set_conv_nth by blast
  with zrank_of_nth [OF ok, of i b] show ?thesis by simp
qed

text \<open>C39. Ranges by rank. \<^verbatim>\<open>ZRANGE start stop\<close>, and \<^verbatim>\<open>ZREVRANGE\<close> in descending order, select exactly the members whose rank lies between
  the two positions, where a negative position counts from the end, and return them in order.\<close>

theorem zrange_ranks:
  assumes "zset_ok z" "q = no_query\<lparr> q_hasRank := True, q_start := i, q_stop := j, q_rev := b \<rparr>"
  defines "pos \<equiv> \<lambda>x. if x < 0 then x + int (length z) else x"
  shows "\<exists>ps. evalRange (sortedZSet z) q = Some ps \<and> sorted_wrt (zset_before b) ps
    \<and> set ps = {p \<in> set z. pos i \<le> int (zrank_of b z p) \<and> int (zrank_of b z p) \<le> pos j}"
proof -
  let ?n = "int (length z)"
  define lo hi where "lo = max 0 (pos i)" and "hi = min (pos j) (?n - 1)"
  have sel: "range_select (sortedZSet z) q = Some (in_order b z)"
    by (simp add: range_select_def assms(2) no_query_def in_order_def)
  have norm: "normalizeRange i j ?n = (if ?n = 0 \<or> hi < lo then None else Some (lo, hi))"
    by (auto simp: normalizeRange_def Let_def lo_def hi_def pos_def)
  have mem: "p \<in> set z \<Longrightarrow> (pos i \<le> int (zrank_of b z p) \<and> int (zrank_of b z p) \<le> pos j) =
      (lo \<le> int (zrank_of b z p) \<and> int (zrank_of b z p) \<le> hi)" for p
    using zrank_less [OF assms(1), of p b] by (auto simp: lo_def hi_def)
  show ?thesis
  proof (cases "?n = 0 \<or> hi < lo")
    case True
    then have "evalRange (sortedZSet z) q = Some []" using sel norm by (simp add: evalRange_def assms(2) no_query_def)
    moreover have "{p \<in> set z. pos i \<le> int (zrank_of b z p) \<and> int (zrank_of b z p) \<le> pos j} = {}"
    proof (cases "z = []")
      case False
      with True have "hi < lo" by simp
      then have "\<not> (lo \<le> int x \<and> int x \<le> hi)" for x by linarith
      with mem show ?thesis by blast
    qed simp
    ultimately show ?thesis by simp
  next
    case False
    then have "evalRange (sortedZSet z) q = Some (take (nat (hi + 1 - lo)) (drop (nat lo) (in_order b z)))"
      using sel norm by (simp add: evalRange_def assms(2) no_query_def)
    moreover have b: "0 \<le> lo" "lo \<le> hi" "hi < ?n" using False unfolding lo_def hi_def by linarith+
    note slice_ranks [OF assms(1) b, of b]
    moreover have "{p \<in> set z. pos i \<le> int (zrank_of b z p) \<and> int (zrank_of b z p) \<le> pos j}
        = {p \<in> set z. lo \<le> int (zrank_of b z p) \<and> int (zrank_of b z p) \<le> hi}" using mem by blast
    ultimately show ?thesis by simp
  qed
qed

theorem zrange_ranks_witness:
  "evalRange (sortedZSet [(''b'', 0x4000000000000000), (''c'', 0x3FF0000000000000)]) (no_query\<lparr> q_hasRank := True, q_start := -1, q_stop := 7, q_rev := False \<rparr>)
    = Some [(''b'', 0x4000000000000000)]"
proof -
  let ?b = "(''b'', 0x4000000000000000) :: bytes \<times> float64" and ?c = "(''c'', 0x3FF0000000000000) :: bytes \<times> float64"
  let ?z = "[?b, ?c]"
  have ok: "zset_ok ?z" by (simp add: zset_ok_def gomap_def IsNaN_def f64_mag_def)
  have "\<not> zset_less ?b ?b" "\<not> zset_less ?c ?c" "\<not> zset_less ?b ?c" using zset_less_asym less_examples(2) by blast+
  then have "{x \<in> set ?z. zset_before False x ?b} = {?c}" "{x \<in> set ?z. zset_before False x ?c} = {}"
    unfolding zset_before_def using less_examples(2) by (simp_all only: if_False list.set) blast+
  then have r: "zrank_of False ?z ?b = 1" "zrank_of False ?z ?c = 0" by (simp_all only: zrank_of_def) simp_all
  from zrange_ranks [OF ok refl, where i = "-1" and j = 7 and b = False] obtain ps where
    ps: "evalRange (sortedZSet ?z) (no_query\<lparr> q_hasRank := True, q_start := -1, q_stop := 7, q_rev := False \<rparr>) = Some ps"
    "sorted_wrt (zset_before False) ps" "set ps = {p \<in> set ?z. 1 \<le> int (zrank_of False ?z p) \<and> int (zrank_of False ?z p) \<le> 7}" by auto
  have "set ps = {?b}" unfolding ps(3) list.set using r by (auto simp only: insert_iff empty_iff)
  moreover have "distinct ps" using ps(2) before_asym by (rule strictly_sorted_distinct)
  ultimately have "ps = [?b]" by (metis distinct_singleton_conv)
  with ps(1) show ?thesis by simp
qed

subsection \<open>Ranges by member\<close>

lemma dropWhile_filter: "sorted_wrt R xs \<Longrightarrow> (\<And>x y. R x y \<Longrightarrow> P x \<Longrightarrow> P y) \<Longrightarrow> dropWhile (\<lambda>x. \<not> P x) xs = filter P xs"
proof (induction xs)
  case (Cons x xs)
  show ?case
  proof (cases "P x")
    case True
    with Cons.prems have "filter P xs = xs" by (intro filter_True) auto
    with True show ?thesis by simp
  qed (use Cons in simp)
qed simp

lemma takeWhile_kept: "sorted_wrt R xs \<Longrightarrow> (\<And>x y. R x y \<Longrightarrow> P y \<Longrightarrow> P x) \<Longrightarrow> takeWhile P xs = filter P xs"
proof (induction xs)
  case (Cons x xs)
  show ?case
  proof (cases "P x")
    case False
    with Cons.prems have "filter P xs = []" by (intro filter_False) auto
    with False show ?thesis by simp
  qed (use Cons in simp)
qed simp

lemma lex_mono:
  "m < m' \<Longrightarrow> lex_above b m \<Longrightarrow> lex_above b m'" "m < m' \<Longrightarrow> lex_below b m' \<Longrightarrow> lex_below b m"
  by (auto simp: lex_above_def lex_below_def)



subsection \<open>Taking members from an end\<close>

text \<open>What a command on one sorted set does to the store.\<close>

lemma zset_run:
  assumes "kv_store K view live" "live (store w)" "wf_store (view (store w))" "d = dict (view (store w)) now"
    and "d key = Some e" "Type e = TypeZSet" "zset_dec (Payload e) = Ok z"
    and "p = Inr (key, g)" "step_ok TypeZSet p" "g (Some (z, Expiry e)) = (v, a, evs)"
    and "run_state (zset_cmd K now p) w = (r, w')"
  shows "r = v \<and> dict (view (store w')) now = apply_action now key a d \<and> wf_store (view (store w'))"
  using refines_transfer [OF assms(1) kv_store.sim_zset_cmd [OF assms(1)] zset_cmd_refines [OF assms(9)] assms(2,3,11)]
    assms(4-8,10) by (simp add: parsed_spec_def apply_spec_def on_type_def)

lemma without_filter: "without ps z = filter (\<lambda>p. fst p \<notin> set (keys_of ps)) z"
proof (induction ps arbitrary: z)
  case (Cons q ps)
  have "AList.delete (fst q) z = filter (\<lambda>p. fst p \<noteq> fst q) z" by (auto simp: AList.delete_eq intro: filter_cong)
  with Cons show ?case by (auto simp: without_def intro: filter_cong)
qed (simp add: without_def)

lemma without_mset:
  assumes "gomap z" "in_order b z = ps @ rest"
  shows "mset (without ps z) = mset rest"
proof -
  have m: "mset z = mset (ps @ rest)" using arg_cong [OF assms(2), of mset] by simp
  have "distinct (keys_of (ps @ rest))"
    using assms(1) mset_eq_imp_distinct_iff [of "keys_of z" "keys_of (ps @ rest)"] m by (simp add: gomap_def mset_map)
  then have d: "set (keys_of ps) \<inter> set (keys_of rest) = {}" by simp
  have "mset (without ps z) = mset (filter (\<lambda>p. fst p \<notin> set (keys_of ps)) (ps @ rest))"
    unfolding without_filter mset_filter m ..
  also have "filter (\<lambda>p. fst p \<notin> set (keys_of ps)) ps = []" by (rule filter_False) simp
  then have "filter (\<lambda>p. fst p \<notin> set (keys_of ps)) (ps @ rest) = filter (\<lambda>p. fst p \<notin> set (keys_of ps)) rest" by simp
  also have "filter (\<lambda>p. fst p \<notin> set (keys_of ps)) rest = rest" using d by (intro filter_True) auto
  finally show ?thesis .
qed

abbreviation zset_cell :: "zmap \<Rightarrow> int \<Rightarrow> Entry" where
  "zset_cell z x \<equiv> \<lparr> Type = TypeZSet, Expiry = x, Payload = EncodeZSet z \<rparr>"

lemma apply_keep_zset:
  "x = 0 \<or> now < x \<Longrightarrow> apply_action now key (keep_zset z x) d = d(key := if z = [] then None else Some (zset_cell z x))"
  by (auto simp: keep_zset_def)

lemma ends_split:
  fixes b :: bool
  assumes "zset_ok z" "0 \<le> n"
  defines "popped \<equiv> ends b n z" and "rest \<equiv> drop (nat n) (in_order b z)"
  shows "in_order b z = popped @ rest" "length popped = min (nat n) (length z)" "sorted_wrt (zset_before b) popped"
    "\<forall>p \<in> set popped. \<forall>q \<in> set rest. zset_before b p q"
proof -
  have e: "popped = take (nat n) (in_order b z)"
    using assms(2) by (auto simp: popped_def ends_def in_order_def Let_def min_def)
  then show io: "in_order b z = popped @ rest" by (simp add: rest_def)
  show "length popped = min (nat n) (length z)" using e by simp
  from in_order_sorted [OF assms(1), of b] show "sorted_wrt (zset_before b) popped" "\<forall>p \<in> set popped. \<forall>q \<in> set rest. zset_before b p q"
    unfolding io by (simp_all add: sorted_wrt_append)
qed

text \<open>C37. \<^verbatim>\<open>ZPOPMIN\<close> and \<^verbatim>\<open>ZPOPMAX\<close> take the members at one end: as many as asked for and there are, in order, each before every member
  that stays; the others stay with their scores, the key disappears with the last one, and no other key
  changes.\<close>

theorem zpop_takes:
  assumes "kv_store K view live" "live (store w)" "wf_store (view (store w))" "d = dict (view (store w)) now"
    and "d key = Some e" "Type e = TypeZSet" "zset_dec (Payload e) = Ok z" "zset_ok z" "0 \<le> n" "n < 2 ^ 63"
    and "run_state (zset_cmd K now (zpop b name [BulkString (Some key), BulkString (Some (FormatInt n))])) w = (r, w')"
  shows "\<exists>popped rest. r = Ok (Array (Some (concat (map pair_bulks popped))))
    \<and> dict (view (store w')) now = d(key := if rest = [] then None else Some (zset_cell rest (Expiry e)))
    \<and> mset z = mset popped + mset rest \<and> length popped = min (nat n) (length z)
    \<and> sorted_wrt (zset_before b) popped \<and> (\<forall>p \<in> set popped. \<forall>q \<in> set rest. zset_before b p q)"
proof -
  let ?p = "zpop b name [BulkString (Some key), BulkString (Some (FormatInt n))]"
  have p: "?p = Inr (key, zpop_step b n)"
    using assms(9,10) by (simp add: zpop_def need_def bulk_def parseCount_def int64_range_def)
  have ok: "step_ok TypeZSet ?p" unfolding p by (intro step_oks)
  note S = ends_split [OF assms(8,9), of b]
  have g: "gomap z" using assms(8) by (simp add: zset_ok_def)
  note m = without_mset [OF g S(1)]
  then have q: "set (without (ends b n z) z) = set (drop (nat n) (in_order b z))" by (rule mset_eq_setD)
  have live: "Expiry e = 0 \<or> now < Expiry e" using live_dict_dict [of now "view (store w)"] assms(4,5) by (auto simp: live_dict_def)
  have "mset z = mset (ends b n z) + mset (without (ends b n z) z)" using arg_cong [OF S(1), of mset] m by (simp only: in_order_props(3) mset_append)
  moreover have "r = Ok (Array (Some (concat (map pair_bulks (ends b n z)))))
      \<and> dict (view (store w')) now = apply_action now key (keep_zset (without (ends b n z) z) (Expiry e)) d"
    using zset_run [OF assms(1-7) p ok _ assms(11)] by (simp add: zpop_step_def Let_def)
  ultimately show ?thesis using S(2-4) q live
    by (intro exI [of _ "ends b n z"] exI [of _ "without (ends b n z) z"]) (simp add: apply_keep_zset)
qed

lemma zset_dec_one: "zset_dec (EncodeZSet [(''a'', 0x4000000000000000)]) = Ok [(''a'', 0x4000000000000000)]"
proof -
  have "go_zset [(''a'', 0x4000000000000000)]"
    by (simp add: go_zset_def go_str_def gomap_def)
  from DecodeZSet_EncodeZSet [OF this, of "[]"] show ?thesis
    by (simp add: zset_dec_def sortZSetPairs_def insertion_sort_def gomap_of_def)
qed

theorem zpop_takes_witness:
  "fst (run_state (zset_cmd (pebble_kv memdb quiet_env) 1 (zpopmin [BulkString (Some ''k''), BulkString (Some ''1'')]))
      (one_world TypeZSet ''k'' (EncodeZSet [(''a'', 0x4000000000000000)])))
    = Ok (Array (Some (pair_bulks (''a'', 0x4000000000000000))))"
proof -
  let ?a = "(''a'', 0x4000000000000000) :: bytes \<times> float64"
  let ?K = "pebble_kv memdb quiet_env" and ?w = "one_world TypeZSet ''k'' (EncodeZSet [?a])"
  let ?h = "zset_cmd ?K 1 (zpop False ''zpopmin'' [BulkString (Some ''k''), BulkString (Some (FormatInt 1))])"
  have d: "dict [''z:k'' \<mapsto> Encode TypeZSet 0 (EncodeZSet [?a])] 1 = [''k'' \<mapsto> zset_cell [?a] 0]"
    and wf: "wf_store [''z:k'' \<mapsto> Encode TypeZSet 0 (EncodeZSet [?a])]"
    using one_dict [of TypeZSet "''k''" "EncodeZSet [?a]"] by simp_all
  have ok: "zset_ok [?a]" by (simp add: zset_ok_def gomap_def IsNaN_def f64_mag_def)
  have f: "FormatInt 1 = ''1''" by code_simp
  from zpop_takes [OF memdb.kv_store_axioms, of ?w _ 1 "''k''" "zset_cell [?a] 0" "[?a]" 1 False "''zpopmin''" "fst (run_state ?h ?w)" "snd (run_state ?h ?w)",
      OF _ _ refl] obtain popped rest where p: "fst (run_state ?h ?w) = Ok (Array (Some (concat (map pair_bulks popped))))"
    "mset [?a] = mset popped + mset rest" "length popped = 1"
    using d wf ok zset_dec_one by (auto simp: one_world_def New_def)
  then obtain x where x: "popped = [x]" by (auto simp: length_Suc_conv)
  have "x \<in># mset [?a]" unfolding p(2) x by simp
  then have "x = ?a" by simp
  with p(1) x show ?thesis by (simp add: zpopmin_def f)
qed

text \<open>Bounds. As a lower bound \<^verbatim>\<open>+inf\<close> is not compared with the score, nor is \<^verbatim>\<open>-inf\<close> as an upper one: the empty range from \<^verbatim>\<open>+inf\<close> to \<^verbatim>\<open>-inf\<close>
  selects every member. Offset and count of \<^verbatim>\<open>LIMIT\<close> are added in 64 bits, and a negative count, which the code
  means to be no limit, selects nothing.\<close>

lemma inf_selects_all:
  assumes "parseScoreBound ''+inf'' = Some lo" "parseScoreBound ''-inf'' = Some hi"
  shows "inScoreRange s lo hi"
proof -
  have "ToLower ''+inf'' = ''+inf''" "ToLower ''-inf'' = ''-inf''" "\<not> HasPrefix ''+inf'' ''(''" "\<not> HasPrefix ''-inf'' ''(''" by code_simp+
  then have "parseScoreBound ''+inf'' = Some \<lparr> sb_v = f64_of False inf_mag, sb_ex = False, sb_inf = 1 \<rparr>"
    "parseScoreBound ''-inf'' = Some \<lparr> sb_v = f64_of True inf_mag, sb_ex = False, sb_inf = -1 \<rparr>"
    by (simp_all add: parseScoreBound_def)
  then have "sb_inf lo = 1" "sb_inf hi = -1" using assms by simp_all
  then show ?thesis by (simp add: inScoreRange_def)
qed

lemma limit_wraps: "2 \<le> length xs \<Longrightarrow> range_limit 1 (2 ^ 63 - 1) xs = None"
  by (simp add: range_limit_def Let_def wrap64_def)

lemma limit_negative: "cnt < 0 \<Longrightarrow> range_limit off cnt xs = Some []"
  by (simp add: range_limit_def Let_def)
end
