(* ===== verification/Spec2Isabelle.thy ===== *)
theory Spec2Isabelle
  imports Codec StreamDS Resp Backlog Storage Cluster Routing ZSets
begin

text \<open>
  \<^bold>\<open>A verification development for gedis\<close>

  gedis (\<^verbatim>\<open>src/\<close>) is a server that speaks the Redis protocol. A connection decodes a request
  (\<^verbatim>\<open>internal/protocol\<close>), passes it through the cluster redirection (\<^verbatim>\<open>commands/cluster.go\<close>) and runs a
  handler of \<^verbatim>\<open>internal/commands\<close>. The handlers read and write cells, byte strings that
  \<^verbatim>\<open>internal/datastruct\<close> encodes, in a store over the database Pebble (\<^verbatim>\<open>internal/storage\<close>). The store
  bounds its memory by eviction and publishes its changes to \<^verbatim>\<open>internal/replication\<close>, from which replicas
  follow.

  \<^bold>\<open>Conventions.\<close> Go strings and byte slices are character lists, maps are association lists with
  distinct keys, \<^verbatim>\<open>int64\<close> is \<open>int\<close> with the wrap-around \<open>wrap64\<close> written out, \<^verbatim>\<open>float64\<close> is its
  64-bit pattern. A fallible function returns \<open>('e, 'a) res\<close>, whose constructor \<open>Panic\<close> is a run-time
  panic, so that out-of-range slices and huge allocations are results of the model. A handler is a
  computation in the state monad over a world (the store, the keyspace events it has notified and the number of
  expired keys), written once for any store that offers the operations of the interface \<^verbatim>\<open>KV\<close>. The clock
  is read once per command (\<open>now\<close>). \<^verbatim>\<open>ToUpper\<close>, \<^verbatim>\<open>ToLower\<close> and \<^verbatim>\<open>EqualFold\<close> are modelled on ASCII.

  \<^bold>\<open>The theories.\<close>
  \<^item> \<open>GoPrelude\<close>, \<open>Binary\<close>, \<open>GoFloat\<close>: results, decimal integers, text functions, association lists, sorting by a
    strict weak order (a locale); varints and big-endian words; \<^verbatim>\<open>float64\<close> with correctly rounded addition and
    multiplication, \<^verbatim>\<open>ParseFloat\<close> and the shortest forms of \<^verbatim>\<open>FormatFloat\<close>, which are shown to be inverse on finite
    numbers. Shared lemmas and simplification rules. The search for the shortest decimal is bounded by 1400 digits,
    which is enough because every finite number has at most 1074 binary places.
  \<^item> \<open>Codec\<close>, \<open>StreamDS\<close> (\<^verbatim>\<open>internal/datastruct\<close>): the cell with type, expiry and payload, and the codecs of
    lists, hashes, sets, sorted sets, vectors and streams. Every decoder inverts its encoder, and truncated
    input is an error.
  \<^item> \<open>Resp\<close> (\<^verbatim>\<open>internal/protocol\<close>): values, \<^verbatim>\<open>Append\<close>, \<^verbatim>\<open>Decode\<close> and inline commands; round trip, termination on
    every input, and the equivalence of inline and array form. The decoder runs with fuel, the length of the
    input being enough.
  \<^item> \<open>Storage\<close> (\<^verbatim>\<open>internal/storage\<close>): get, set, delete, scan and batch with memory accounting, eviction and
    published changes. Pebble is a parameter with its documented behaviour. The published stream replays to the
    contents of the store; the accounting is exact; the memory bound.
  \<^item> \<open>Backlog\<close> (\<^verbatim>\<open>internal/replication\<close>): the ring buffer refines the list of all changes, publishers and a
    subscriber interleave without losing a change, and the transfer format round-trips.
  \<^item> \<open>Cluster\<close>, \<open>Routing\<close> (\<^verbatim>\<open>internal/cluster\<close>, \<^verbatim>\<open>commands/cluster.go\<close>): slots, topology, \<^verbatim>\<open>nodes.conf\<close>, the key
    table, redirection, \<^verbatim>\<open>SETSLOT\<close>. Commands that pass are served by the right node, and redirections end.
  \<^item> \<open>Command\<close>, \<open>Keyspace\<close>, \<open>Dictionary\<close>: the command layer. \<open>Command\<close> has the monad, the locale
    \<open>kv_store\<close> (the laws of the store interface) and the simulation that carries every handler from a store
    to the map of its contents. \<open>Keyspace\<close> has lookup, lazy and active expiry, \<^verbatim>\<open>DEL\<close>, \<^verbatim>\<open>TYPE\<close>, \<^verbatim>\<open>EXPIRE\<close>, \<^verbatim>\<open>TTL\<close>
    and their relatives. \<open>Dictionary\<close> has the abstract state, the partial map from names to live cells,
    and the refinement of a one-key command to a function on one cell.
  \<^item> \<open>Strings\<close>, \<open>Lists\<close>, \<open>Sets\<close>, \<open>Hashes\<close> (\<^verbatim>\<open>commands/string*.go\<close>, \<^verbatim>\<open>list*.go\<close>, \<^verbatim>\<open>set*.go\<close>, \<^verbatim>\<open>hash*.go\<close>):
    every handler, with tables in the order of registration. \<open>ZSets\<close> has the sorted-set commands on one key
    (\<^verbatim>\<open>zset.go\<close>, \<^verbatim>\<open>zset_range.go\<close>, \<^verbatim>\<open>zset_scan.go\<close>): ranks, ranges by rank, score and member, and pops. \<open>Typed\<close> is the
    shape the one-key commands share (parse, read a value of one type, act), \<open>MultiKey\<close> the judgement for
    commands on several keys.
  \<^item> \<open>Glob\<close>, \<open>Paging\<close> (\<^verbatim>\<open>pattern.go\<close>, \<^verbatim>\<open>scan.go\<close>): the pattern matcher and \<^verbatim>\<open>path.Match\<close>; the cursors of the
    scan commands.

  This theory closes the development with the property that spans the data types: a command on one key keeps
  the store well typed and touches no other key.

  \<^bold>\<open>Parameters.\<close> Pebble, the random choices of \<^verbatim>\<open>math/rand\<close>, and what other clients do while a command blocks are
  arguments of the definitions that use them. The iteration order of a Go map is the order of its association list.

  \<^bold>\<open>Not modelled.\<close> Sockets, goroutines and TLS; configuration files and metrics; the Lua engine, which is a third-party
  interpreter, and the libraries bound to it; the trigonometry of the geo commands. Of the commands: the sorted-set
  commands on several keys (\<^verbatim>\<open>ZRANGESTORE\<close>, \<^verbatim>\<open>ZUNION\<close> and its relatives) and the blocking ones, streams, bit fields,
  HyperLogLog, vector sets, \<^verbatim>\<open>COPY\<close>, \<^verbatim>\<open>RENAME\<close>, \<^verbatim>\<open>SORT\<close> and \<^verbatim>\<open>LCS\<close>, publish/subscribe, transactions, access
  control and the administrative commands; the sentinel and the import of Redis files.
\<close>

subsection \<open>The commands on one key\<close>

text \<open>The one-key commands of lists, sets, hashes and sorted sets, with all their arguments.\<close>

definition typed_commands :: "(nat \<Rightarrow> nat list) \<Rightarrow> (nat \<Rightarrow> nat \<Rightarrow> nat) \<Rightarrow> 's kv \<Rightarrow> int \<Rightarrow> 's handler set" where
  "typed_commands perm intn K now =
     {list_cmd K now (p args) | name p args. map_of list_steps name = Some p}
     \<union> {set_cmd_of K now (p args) | name p args. map_of (set_steps perm intn) name = Some p}
     \<union> {hash_cmd K now (p args) | name p args. map_of (hash_steps perm intn) name = Some p}
     \<union> {zset_cmd K now (p args) | name p args. map_of (zset_steps perm intn) name = Some p}"

lemma apply_spec_frame: "(r, d') = apply_spec now S d \<Longrightarrow> \<exists>key. \<forall>k. k \<noteq> key \<longrightarrow> d' k = d k"
proof -
  assume a: "(r, d') = apply_spec now S d"
  have "apply_action now key act d k = d k" if "k \<noteq> key" for key act k using that by (cases act) auto
  with a show ?thesis by (auto simp: apply_spec_def split: sum.splits prod.splits)
qed

lemma typed_command_spec:
  assumes "kv_store K view live" "h \<in> typed_commands perm intn K now"
  shows "\<exists>n S. sim view live h n \<and> refines now n S"
proof -
  let ?M = "map_kv (kvText K)"
  from assms(2) consider
      name p args where "h = list_cmd K now (p args)" "map_of list_steps name = Some p"
    | name p args where "h = set_cmd_of K now (p args)" "map_of (set_steps perm intn) name = Some p"
    | name p args where "h = hash_cmd K now (p args)" "map_of (hash_steps perm intn) name = Some p"
    | name p args where "h = zset_cmd K now (p args)" "map_of (zset_steps perm intn) name = Some p"
    unfolding typed_commands_def by blast
  then show ?thesis
  proof cases
    case 1
    have "refines now (list_cmd ?M now (p args)) (parsed_spec TypeList DecodeList (p args))"
      unfolding list_cmd_def by (rule cell_cmd_refines [OF list_steps_typed [OF 1(2)]]) simp
    with kv_store.sim_list_cmd [OF assms(1)] 1(1) show ?thesis by blast
  next
    case 2
    have "refines now (set_cmd_of ?M now (p args)) (parsed_spec TypeSet set_dec (p args))"
      unfolding set_cmd_of_def by (rule cell_cmd_refines [OF set_steps_typed [OF 2(2)]]) simp
    with kv_store.sim_set_cmd_of [OF assms(1)] 2(1) show ?thesis by blast
  next
    case 3
    with kv_store.sim_hash_cmd [OF assms(1)] hash_cmd_refines [OF hash_steps_typed [OF 3(2)]] show ?thesis by blast
  next
    case 4
    with kv_store.sim_zset_cmd [OF assms(1)] zset_cmd_refines [OF zset_steps_typed [OF 4(2)]] show ?thesis by blast
  qed
qed



end
